(* ===== verification/Prelude.thy ===== *)
theory Prelude
  imports Main "HOL-Library.Word" "HOL-Library.List_Lexorder" "HOL-Library.Char_ord"
begin

text \<open>
  Shared vocabulary of the development: the machine integer types of the Rust code, the two
  ordered collections of its standard library (\<open>BTreeSet\<close> and \<open>BTreeMap\<close>, as sorted lists),
  fallible sequencing, and machines that consume a list of events and produce one output per
  event. Two locales state the contracts that several components share: an invariant kept by
  every step, and a budget that bounds the total cost of a run.
\<close>

section \<open>Lemma collections\<close>

named_theorems nomad_word \<open>machine words read as natural numbers\<close>
named_theorems nomad_store \<open>laws of the persistent stores\<close>
named_theorems nomad_resp \<open>shape of the responses the operations build\<close>

section \<open>Machine integers\<close>

type_synonym u8 = "8 word"
type_synonym i32 = "32 word"
type_synonym u32 = "32 word"
type_synonym u64 = "64 word"
type_synonym i64 = "64 word"
type_synonym usize = "64 word"
type_synonym bytes = "u8 list"

text \<open>\<open>saturating_sub\<close> of the unsigned integers.\<close>

definition saturating_sub :: "'a::len word \<Rightarrow> 'a word \<Rightarrow> 'a word" where
  "saturating_sub a b = (if a < b then 0 else a - b)"

lemma unat_saturating_sub [nomad_word]: "unat (saturating_sub a b) = unat a - unat b"
proof (cases "a < b")
  case True
  then show ?thesis
    by (simp add: saturating_sub_def word_less_nat_alt)
next
  case False
  then show ?thesis
    by (simp add: saturating_sub_def unat_sub not_less)
qed

text \<open>\<open>x.max(0) as usize\<close> (or \<open>as u64\<close>) of an \<open>i32\<close>.\<close>

definition i32_max0 :: "i32 \<Rightarrow> u64" where
  "i32_max0 h = (if sint h < 0 then 0 else ucast h)"

lemma i32_max0_nonneg: "0 \<le> sint h \<Longrightarrow> uint (i32_max0 h) = sint h"
proof -
  assume h: "0 \<le> sint h"
  have "take_bit LENGTH(32) (sint h) = uint h"
    by transfer (simp add: take_bit_signed_take_bit)
  moreover have "sint h < 2 ^ 31"
    using sint_lt [of h] by simp
  ultimately have "uint h = sint h"
    using h by (simp add: take_bit_int_eq_self)
  moreover have "uint (ucast h :: u64) = uint h"
    by (simp add: unsigned_ucast_eq take_bit_int_eq_self_iff uint_lt2p [of h, THEN less_trans])
  ultimately show ?thesis
    using h by (simp add: i32_max0_def)
qed

lemma i32_max0_neg [simp]: "sint h < 0 \<Longrightarrow> i32_max0 h = 0"
  by (simp add: i32_max0_def)


section \<open>Ordered collections of the standard library\<close>

text \<open>
  A \<open>BTreeSet<String>\<close> is a strictly sorted list (the library's \<open>insort_insert\<close>,
  \<open>remove1\<close> and \<open>set\<close> are \<open>insert\<close>, \<open>remove\<close> and \<open>contains\<close>); a \<open>BTreeMap<String, V>\<close> is an
  association list strictly sorted by key. Iteration follows the list, as the trees iterate in key
  order; strings are compared bytewise.
\<close>

type_synonym ('k, 'v) btree_map = "('k \<times> 'v) list"

definition bts_ok :: "'k::linorder list \<Rightarrow> bool" where
  "bts_ok xs \<longleftrightarrow> sorted xs \<and> distinct xs"

definition btm_ok :: "('k::linorder, 'v) btree_map \<Rightarrow> bool" where
  "btm_ok m \<longleftrightarrow> bts_ok (map fst m)"

fun btm_insert :: "'k::linorder \<Rightarrow> 'v \<Rightarrow> ('k, 'v) btree_map \<Rightarrow> ('k, 'v) btree_map" where
  "btm_insert k v [] = [(k, v)]"
| "btm_insert k v (p # m) =
     (if k < fst p then (k, v) # p # m
      else if fst p < k then p # btm_insert k v m
      else (k, v) # m)"

definition btm_remove :: "'k \<Rightarrow> ('k, 'v) btree_map \<Rightarrow> ('k, 'v) btree_map" where
  "btm_remove k m = filter (\<lambda>p. fst p \<noteq> k) m"

definition btm_retain :: "('k \<Rightarrow> 'v \<Rightarrow> bool) \<Rightarrow> ('k, 'v) btree_map \<Rightarrow> ('k, 'v) btree_map" where
  "btm_retain P m = filter (\<lambda>p. P (fst p) (snd p)) m"

lemma bts_ok_insert [simp]: "bts_ok xs \<Longrightarrow> bts_ok (insort_insert x xs)"
  by (simp add: bts_ok_def sorted_insort_insert distinct_insort_insert)

lemma bts_ok_remove [simp]: "bts_ok xs \<Longrightarrow> bts_ok (remove1 x xs)"
  by (simp add: bts_ok_def sorted_remove1)

lemma bts_set_remove: "bts_ok xs \<Longrightarrow> set (remove1 x xs) = set xs - {x}"
  by (simp add: bts_ok_def)

lemma bts_unique: "bts_ok xs \<Longrightarrow> bts_ok ys \<Longrightarrow> set xs = set ys \<Longrightarrow> xs = ys"
  by (simp add: bts_ok_def sorted_distinct_set_unique)

lemma map_of_btm_insert [simp]: "map_of (btm_insert k v m) = (map_of m)(k \<mapsto> v)"
  by (induction m) (auto simp: fun_eq_iff not_less dest: antisym)

lemma keys_btm_insert [simp]: "fst ` set (btm_insert k v m) = insert k (fst ` set m)"
proof -
  have "dom (map_of (btm_insert k v m)) = insert k (dom (map_of m))"
    by simp
  then show ?thesis
    by (simp only: dom_map_of_conv_image_fst)
qed

lemma bts_ok_Cons: "bts_ok (x # xs) \<longleftrightarrow> bts_ok xs \<and> (\<forall>y \<in> set xs. x < y)"
  by (auto simp: bts_ok_def less_le)

lemma bts_ok_Nil [simp]: "bts_ok []"
  by (simp add: bts_ok_def)

lemma btm_ok_Nil [simp]: "btm_ok []"
  by (simp add: btm_ok_def bts_ok_def)

lemma btm_ok_Cons: "btm_ok (p # m) \<longleftrightarrow> btm_ok m \<and> (\<forall>k \<in> fst ` set m. fst p < k)"
  by (simp add: btm_ok_def bts_ok_Cons)

lemma btm_ok_insert [simp]: "btm_ok m \<Longrightarrow> btm_ok (btm_insert k v m)"
proof (induction m)
  case Nil
  then show ?case by (simp add: btm_ok_def bts_ok_def)
next
  case (Cons p m)
  then show ?case
    by (auto simp: btm_ok_Cons not_less dest: less_trans)
qed

lemma btm_ok_filter: "btm_ok m \<Longrightarrow> btm_ok (filter P m)"
  by (induction m) (auto simp: btm_ok_Cons)

lemma btm_ok_remove [simp]: "btm_ok m \<Longrightarrow> btm_ok (btm_remove k m)"
  by (simp add: btm_remove_def btm_ok_filter)

lemma btm_ok_retain [simp]: "btm_ok m \<Longrightarrow> btm_ok (btm_retain P m)"
  by (simp add: btm_retain_def btm_ok_filter)

lemma map_of_btm_remove [simp]: "map_of (btm_remove k m) = (map_of m)(k := None)"
  by (induction m) (auto simp: btm_remove_def fun_eq_iff)

lemma btm_ok_head_None: "btm_ok ((k, v) # m) \<Longrightarrow> map_of m k = None"
  by (force simp: btm_ok_Cons map_of_eq_None_iff)

lemma map_of_btm_retain:
  "btm_ok m \<Longrightarrow> map_of (btm_retain P m) k =
     (case map_of m k of None \<Rightarrow> None | Some v \<Rightarrow> if P k v then Some v else None)"
proof (induction m)
  case Nil
  then show ?case by (simp add: btm_retain_def)
next
  case (Cons p m)
  obtain a b where p: "p = (a, b)" by (cases p)
  from Cons.prems have "btm_ok m" "map_of m a = None"
    by (simp_all add: p btm_ok_Cons btm_ok_head_None)
  then show ?case
    using Cons.IH by (auto simp: p btm_retain_def)
qed

lemma btm_map_of_filter_idle: "map_of m k = None \<Longrightarrow> btm_remove k m = m"
  by (auto simp: btm_remove_def map_of_eq_None_iff intro!: filter_True)

lemma length_btm_retain: "length (btm_retain P m) \<le> length m"
  by (simp add: btm_retain_def)

lemma btm_retain_same_length: "length (btm_retain P m) = length m \<Longrightarrow> btm_retain P m = m"
  by (metis btm_retain_def filter_True length_filter_less nless_le)

section \<open>Hash tables\<close>

text \<open>
  A \<open>HashMap\<close> is an association list with distinct keys, a \<open>HashSet\<close> a list without duplicates;
  the order in which the tables iterate is unspecified and a parameter of the code that iterates.
  \<open>hm_max\<close> is \<open>entry(k).and_modify(|x| *x = (*x).max(v)).or_insert(v)\<close> and \<open>hm_push\<close> is
  \<open>entry(k).or_default().push(v)\<close>.
\<close>

type_synonym ('k, 'v) hash_map = "('k \<times> 'v) list"

fun hm_max :: "'k \<Rightarrow> 'v::linorder \<Rightarrow> ('k, 'v) hash_map \<Rightarrow> ('k, 'v) hash_map" where
  "hm_max k v [] = [(k, v)]"
| "hm_max k v ((j, w) # m) = (if j = k then (j, max w v) # m else (j, w) # hm_max k v m)"

fun hm_push :: "'k \<Rightarrow> 'v \<Rightarrow> ('k, 'v list) hash_map \<Rightarrow> ('k, 'v list) hash_map" where
  "hm_push k v [] = [(k, [v])]"
| "hm_push k v ((j, w) # m) = (if j = k then (j, w @ [v]) # m else (j, w) # hm_push k v m)"

text \<open>\<open>insert\<close> replaces the value of a present key.\<close>

fun hm_insert :: "'k \<Rightarrow> 'v \<Rightarrow> ('k, 'v) hash_map \<Rightarrow> ('k, 'v) hash_map" where
  "hm_insert k v [] = [(k, v)]"
| "hm_insert k v ((j, w) # m) = (if j = k then (j, v) # m else (j, w) # hm_insert k v m)"

definition hm_ok :: "('k, 'v) hash_map \<Rightarrow> bool" where
  "hm_ok m \<longleftrightarrow> distinct (map fst m)"

definition hm_maxes :: "('k \<times> 'v::linorder) list \<Rightarrow> ('k, 'v) hash_map" where
  "hm_maxes ps = foldl (\<lambda>m p. hm_max (fst p) (snd p) m) [] ps"

lemma hm_ok_Nil [simp]: "hm_ok []"
  by (simp add: hm_ok_def)

lemma keys_hm_max [simp]: "fst ` set (hm_max k v m) = insert k (fst ` set m)"
  by (induction k v m rule: hm_max.induct) auto

lemma keys_hm_insert [simp]: "fst ` set (hm_insert k v m) = insert k (fst ` set m)"
  by (induction k v m rule: hm_insert.induct) auto

lemma hm_ok_max [simp]: "hm_ok m \<Longrightarrow> hm_ok (hm_max k v m)"
proof (induction k v m rule: hm_max.induct)
  case (2 k v j w m)
  then show ?case
    using keys_hm_max [of k v m] by (auto simp: hm_ok_def simp flip: set_map)
qed (simp add: hm_ok_def)

lemma hm_ok_insert [simp]: "hm_ok m \<Longrightarrow> hm_ok (hm_insert k v m)"
proof (induction k v m rule: hm_insert.induct)
  case (2 k v j w m)
  then show ?case
    using keys_hm_insert [of k v m] by (auto simp: hm_ok_def simp flip: set_map)
qed (simp add: hm_ok_def)

lemma map_of_hm_max [simp]:
  "map_of (hm_max k v m) = (map_of m)(k \<mapsto> (case map_of m k of None \<Rightarrow> v | Some w \<Rightarrow> max w v))"
  by (induction k v m rule: hm_max.induct) (auto simp: fun_eq_iff)

lemma map_of_hm_insert [simp]: "map_of (hm_insert k v m) = (map_of m)(k \<mapsto> v)"
  by (induction k v m rule: hm_insert.induct) (auto simp: fun_eq_iff)

lemma map_of_hm_push [simp]:
  "map_of (hm_push k v m) = (map_of m)(k \<mapsto> (case map_of m k of None \<Rightarrow> [v] | Some w \<Rightarrow> w @ [v]))"
  by (induction k v m rule: hm_push.induct) (auto simp: fun_eq_iff)

lemma hm_maxes_simps [simp]:
  "hm_maxes [] = []" "hm_maxes (ps @ [p]) = hm_max (fst p) (snd p) (hm_maxes ps)"
  by (simp_all add: hm_maxes_def)

lemma hm_ok_maxes [simp]: "hm_ok (hm_maxes ps)"
  by (induction ps rule: rev_induct) simp_all

lemma keys_hm_maxes [simp]: "fst ` set (hm_maxes ps) = fst ` set ps"
  by (induction ps rule: rev_induct) simp_all

text \<open>Which value the table of largest values holds.\<close>

definition values_of :: "'k \<Rightarrow> ('k \<times> 'v) list \<Rightarrow> 'v set" where
  "values_of k ps = snd ` {p \<in> set ps. fst p = k}"

lemma finite_values_of [simp]: "finite (values_of k ps)"
  by (simp add: values_of_def)

lemma values_of_snoc: "values_of k (ps @ [p]) = (if fst p = k then insert (snd p) (values_of k ps) else values_of k ps)"
  by (auto simp: values_of_def)

lemma map_of_hm_maxes:
  "map_of (hm_maxes ps) k = (if values_of k ps = {} then None else Some (Max (values_of k ps)))"
proof (induction ps rule: rev_induct)
  case Nil
  then show ?case by (simp add: values_of_def)
next
  case (snoc p ps)
  then show ?case by (auto simp: values_of_snoc max.commute)
qed

lemma hm_in_set: "hm_ok m \<Longrightarrow> (k, v) \<in> set m \<longleftrightarrow> map_of m k = Some v"
  by (simp add: hm_ok_def)

section \<open>Fallible sequencing\<close>

text \<open>\<open>Result<T, E>\<close> is the sum \<open>'e + 'a\<close> with the error on the left.\<close>

definition ok_of :: "'e + 'a \<Rightarrow> 'a option" where
  "ok_of r = (case r of Inl e \<Rightarrow> None | Inr x \<Rightarrow> Some x)"

lemma ok_of_simps [simp]: "ok_of (Inl e) = None" "ok_of (Inr x) = Some x"
  by (simp_all add: ok_of_def)

text \<open>A loop that converts every element and returns at the first failure.\<close>

fun map_result :: "('a \<Rightarrow> 'e + 'b) \<Rightarrow> 'a list \<Rightarrow> 'e + 'b list" where
  "map_result f [] = Inr []"
| "map_result f (x # xs) =
     (case f x of
        Inl e \<Rightarrow> Inl e
      | Inr y \<Rightarrow> (case map_result f xs of Inl e \<Rightarrow> Inl e | Inr ys \<Rightarrow> Inr (y # ys)))"

lemma map_result_Inr:
  "map_result f xs = Inr ys \<longleftrightarrow> list_all2 (\<lambda>x y. f x = Inr y) xs ys"
proof (induction xs arbitrary: ys)
  case Nil
  then show ?case by auto
next
  case (Cons x xs)
  show ?case by (cases ys) (auto split: sum.splits simp flip: Cons.IH)
qed

lemma map_result_length: "map_result f xs = Inr ys \<Longrightarrow> length ys = length xs"
  by (simp add: map_result_Inr list_all2_lengthD)

lemma map_result_Inl: "map_result f xs = Inl e \<Longrightarrow> \<exists>x \<in> set xs. f x = Inl e"
  by (induction xs) (auto split: sum.splits)

text \<open>Code that may panic, and decimal printing of numbers in messages.\<close>

datatype 'a run = Ret 'a | Panic

fun dec_str :: "nat \<Rightarrow> string" where
  "dec_str n = (if n < 10 then [char_of (48 + n)] else dec_str (n div 10) @ [char_of (48 + n mod 10)])"

declare dec_str.simps [simp del]

section \<open>Machines: one output per event\<close>

fun exec :: "('s \<Rightarrow> 'e \<Rightarrow> 'o \<times> 's) \<Rightarrow> 's \<Rightarrow> 'e list \<Rightarrow> 'o list \<times> 's" where
  "exec f s [] = ([], s)"
| "exec f s (e # es) =
     (let (o1, s1) = f s e; (os, s2) = exec f s1 es in (o1 # os, s2))"

fun gains :: "('s \<Rightarrow> 'e \<Rightarrow> 'o \<times> 's) \<Rightarrow> ('s \<Rightarrow> 'e \<Rightarrow> nat) \<Rightarrow> 's \<Rightarrow> 'e list \<Rightarrow> nat" where
  "gains f g s [] = 0"
| "gains f g s (e # es) = g s e + gains f g (snd (f s e)) es"

lemma exec_Cons:
  "exec f s (e # es) =
     (fst (f s e) # fst (exec f (snd (f s e)) es), snd (exec f (snd (f s e)) es))"
  by (simp add: case_prod_beta Let_def)

lemma exec_append:
  "exec f s (xs @ ys) =
     (fst (exec f s xs) @ fst (exec f (snd (exec f s xs)) ys),
      snd (exec f (snd (exec f s xs)) ys))"
proof (induction xs arbitrary: s)
  case Nil
  then show ?case by simp
next
  case (Cons x xs)
  then show ?case by (simp only: append_Cons exec_Cons) simp
qed

lemma exec_snoc: "snd (exec f s (es @ [e])) = snd (f (snd (exec f s es)) e)"
  by (simp add: exec_append split: prod.split)

lemma length_exec [simp]: "length (fst (exec f s es)) = length es"
  by (induction es arbitrary: s) (simp_all add: case_prod_beta Let_def)

lemma exec_nth:
  assumes "i < length es"
  shows "f (snd (exec f s (take i es))) (es ! i) = (fst (exec f s es) ! i, snd (exec f s (take (Suc i) es)))"
proof -
  have "es = take i es @ es ! i # drop (Suc i) es" using assms by (simp add: id_take_nth_drop)
  then have "fst (exec f s es) ! i = fst (f (snd (exec f s (take i es))) (es ! i))"
    using assms by (subst \<open>es = _\<close>, subst exec_append) (simp only: exec_Cons fst_conv nth_append length_exec, simp)
  moreover have "snd (exec f s (take (Suc i) es)) = snd (f (snd (exec f s (take i es))) (es ! i))"
    using assms by (simp add: take_Suc_conv_app_nth exec_snoc)
  ultimately show ?thesis by simp
qed

text \<open>An invariant of a run: kept by the steps of its own events.\<close>

lemma exec_keeps:
  "good s \<Longrightarrow> (\<And>s e. e \<in> set es \<Longrightarrow> good s \<Longrightarrow> good (snd (f s e))) \<Longrightarrow> good (snd (exec f s es))"
proof (induction es arbitrary: s)
  case Nil
  then show ?case by simp
next
  case (Cons e es)
  from Cons.prems(2) [of e s] Cons.prems(1) have "good (snd (f s e))" by simp
  from Cons.IH [OF this] Cons.prems(2) show ?case by (simp only: exec_Cons snd_conv) simp
qed

text \<open>
  The first contract: a predicate that holds at the start and that every step keeps. The second
  adds a budget: a step's cost is paid from the credit the state carries or from the gain the step
  brings, so the total cost of a run is at most the initial credit plus the total gain.
\<close>

locale stable_machine =
  fixes f :: "'s \<Rightarrow> 'e \<Rightarrow> 'o \<times> 's"
    and good :: "'s \<Rightarrow> bool"
  assumes step_good: "good s \<Longrightarrow> good (snd (f s e))"
begin

lemma run_good: "good s \<Longrightarrow> good (snd (exec f s es))"
  by (rule exec_keeps) (auto intro: step_good)

end

locale budget_machine = stable_machine f good
  for f :: "'s \<Rightarrow> 'e \<Rightarrow> 'o \<times> 's" and good +
  fixes credit :: "'s \<Rightarrow> nat"
    and cost :: "'o \<Rightarrow> nat"
    and gain :: "'s \<Rightarrow> 'e \<Rightarrow> nat"
  assumes step_paid: "good s \<Longrightarrow> cost (fst (f s e)) + credit (snd (f s e)) \<le> credit s + gain s e"
begin

lemma run_paid:
  "good s \<Longrightarrow>
     sum_list (map cost (fst (exec f s es))) + credit (snd (exec f s es))
       \<le> credit s + gains f gain s es"
proof (induction es arbitrary: s)
  case Nil
  then show ?case by simp
next
  case (Cons e es)
  from Cons.IH [OF step_good [OF Cons.prems, of e]] step_paid [OF Cons.prems, of e]
  show ?case by (simp only: exec_Cons) simp
qed

lemma run_cost:
  "good s \<Longrightarrow> sum_list (map cost (fst (exec f s es))) \<le> credit s + gains f gain s es"
  using run_paid by (meson add_leD1 order_trans)

end

text \<open>
  The third contract: some events drive the machine. As long as its rank is not zero, a step keeps the
  invariant and does not raise the rank, and a driving one lowers it; so a run with enough driving events
  comes to a state of rank zero, whatever else happens in between.
\<close>

locale driven_machine =
  fixes f :: "'s \<Rightarrow> 'e \<Rightarrow> 'o \<times> 's"
    and good :: "'s \<Rightarrow> bool"
    and rank :: "'s \<Rightarrow> nat"
    and drives :: "'e \<Rightarrow> bool"
  assumes step_driven: "good s \<Longrightarrow> rank s \<noteq> 0 \<Longrightarrow>
    good (snd (f s e)) \<and> rank (snd (f s e)) + (if drives e then 1 else 0) \<le> rank s"
begin

lemma run_arrives:
  "good s \<Longrightarrow> rank s \<le> length (filter drives es) \<Longrightarrow>
     \<exists>es1 es2. es = es1 @ es2 \<and> good (snd (exec f s es1)) \<and> rank (snd (exec f s es1)) = 0"
proof (induction es arbitrary: s)
  case Nil
  then show ?case by simp
next
  case (Cons e es)
  show ?case
  proof (cases "rank s = 0")
    case True
    with Cons.prems(1) have "e # es = [] @ (e # es)" "good (snd (exec f s []))" "rank (snd (exec f s [])) = 0" by simp_all
    then show ?thesis by blast
  next
    case False
    note step = step_driven [OF Cons.prems(1) False, of e]
    then have "rank (snd (f s e)) \<le> length (filter drives es)" using Cons.prems(2) by (simp split: if_splits)
    with Cons.IH [of "snd (f s e)"] step obtain es1 es2 where "es = es1 @ es2"
      "good (snd (exec f (snd (f s e)) es1))" "rank (snd (exec f (snd (f s e)) es1)) = 0" by blast
    then have "e # es = (e # es1) @ es2" "good (snd (exec f s (e # es1)))" "rank (snd (exec f s (e # es1))) = 0"
      by (simp_all only: exec_Cons snd_conv append_Cons)
    then show ?thesis by blast
  qed
qed

end

section \<open>Runs of a step relation\<close>

text \<open>
  Where the code interleaves, a step is a relation between a state, the event that happens and the next
  state; a path is a run of events.
\<close>

inductive path :: "('s \<Rightarrow> 'e \<Rightarrow> 's \<Rightarrow> bool) \<Rightarrow> 's \<Rightarrow> 'e list \<Rightarrow> 's \<Rightarrow> bool" for step where
  path_nil: "path step s [] s"
| path_snoc: "path step s es t \<Longrightarrow> step t e u \<Longrightarrow> path step s (es @ [e]) u"

lemma path_one: "step s e t \<Longrightarrow> path step s [e] t"
  using path_snoc [OF path_nil, of step s e t] by simp

lemma path_trans: "path step s es t \<Longrightarrow> path step t fs u \<Longrightarrow> path step s (es @ fs) u"
proof (rotate_tac, induction rule: path.induct)
  case (path_nil s')
  then show ?case by simp
next
  case (path_snoc s' fs t' e u')
  from path.path_snoc [OF path_snoc.IH [OF path_snoc.prems] path_snoc.hyps(2)] show ?case by simp
qed

lemma path_step: "step s e t \<Longrightarrow> path step t es u \<Longrightarrow> path step s (e # es) u"
  using path_trans [OF path_one, of step s e t es u] by simp

locale stable_relation =
  fixes step :: "'s \<Rightarrow> 'e \<Rightarrow> 's \<Rightarrow> bool"
    and good :: "'s \<Rightarrow> bool"
  assumes step_keeps: "good s \<Longrightarrow> step s e t \<Longrightarrow> good t"
begin

lemma path_keeps: "path step s es t \<Longrightarrow> good s \<Longrightarrow> good t"
  by (induction rule: path.induct) (auto intro: step_keeps)

end

text \<open>
  The last contract: a machine that refines an abstract protocol. Every step is an action of the protocol on
  the abstract state, for a reason; so every run is a path of the protocol, action by action for a reason.
\<close>

fun run_caused ::
    "('s \<Rightarrow> 'e \<Rightarrow> 'o \<times> 's) \<Rightarrow> ('s \<Rightarrow> 'e \<Rightarrow> 'a \<Rightarrow> bool) \<Rightarrow> 's \<Rightarrow> 'e list \<Rightarrow> 'a list \<Rightarrow> bool" where
  "run_caused f why s [] as \<longleftrightarrow> as = []"
| "run_caused f why s (e # es) (a # as) \<longleftrightarrow> why s e a \<and> run_caused f why (snd (f s e)) es as"
| "run_caused f why s (e # es) [] \<longleftrightarrow> False"

locale refining_machine = stable_machine f good
  for f :: "'s \<Rightarrow> 'e \<Rightarrow> 'o \<times> 's" and good +
  fixes step :: "'t \<Rightarrow> 'a \<Rightarrow> 't \<Rightarrow> bool"
    and abs_of :: "'s \<Rightarrow> 't"
    and why :: "'s \<Rightarrow> 'e \<Rightarrow> 'a \<Rightarrow> bool"
  assumes step_refines: "good s \<Longrightarrow> \<exists>a. step (abs_of s) a (abs_of (snd (f s e))) \<and> why s e a"
begin

lemma run_refines:
  "good s \<Longrightarrow> \<exists>as. path step (abs_of s) as (abs_of (snd (exec f s es))) \<and> run_caused f why s es as"
proof (induction es arbitrary: s)
  case Nil
  show ?case using path_nil [of step] by auto
next
  case (Cons e es)
  obtain a where a: "step (abs_of s) a (abs_of (snd (f s e)))" "why s e a"
    using step_refines [OF Cons.prems] by blast
  obtain as where as: "path step (abs_of (snd (f s e))) as (abs_of (snd (exec f (snd (f s e)) es)))"
      "run_caused f why (snd (f s e)) es as"
    using Cons.IH [OF step_good [OF Cons.prems]] by blast
  have "path step (abs_of s) (a # as) (abs_of (snd (exec f (snd (f s e)) es)))"
    by (rule path_step [where step = step, OF a(1) as(1)])
  then have "path step (abs_of s) (a # as) (abs_of (snd (exec f s (e # es))))" by (simp only: exec_Cons snd_conv)
  moreover have "run_caused f why s (e # es) (a # as)" using a(2) as(2) by simp
  ultimately show ?case by blast
qed

end

end
