(* ===== verification/Float64.thy ===== *)
theory Float64
  imports Complex_Main "HOL-Library.Word" "HOL-Library.Log_Nat"
begin

text \<open>
  Rust's \<open>f64\<close> as far as the server computes with it: IEEE 754 binary64 values as rationals, the
  infinities and NaN, with every result rounded to nearest, ties to even, at 53 significant bits (and
  the fixed grid of the subnormals). Signed zeros are not told apart. The laws say that integers up
  to \<open>2^53\<close> are exact and bound the error of a rounding.
\<close>

section \<open>Rounding\<close>

datatype f64 = Fin rat | PInf | NInf | NaN

definition round_half_even :: "rat \<Rightarrow> int" where
  "round_half_even y =
     (let q = \<lfloor>y\<rfloor>; r = y - of_int q
      in if r < 1 / 2 \<or> (r = 1 / 2 \<and> even q) then q else q + 1)"

text \<open>The exponent of the unit in the last place of a positive number: 53 bits stay above it.\<close>

definition ulp_exp :: "rat \<Rightarrow> int" where
  "ulp_exp x =
     (case quotient_of x of (n, d) \<Rightarrow>
        let e = int (floorlog 2 (nat n)) - int (floorlog 2 (nat d)) - 53
        in if 2 ^ 53 \<le> x / 2 powi e then e + 1 else e)"

definition f64_ulp :: "rat \<Rightarrow> int" where
  "f64_ulp x = max (ulp_exp x) (-1074)"

definition f64_round :: "rat \<Rightarrow> rat" where
  "f64_round x =
     (if x = 0 then 0
      else let e = f64_ulp \<bar>x\<bar>
           in sgn x * of_int (round_half_even (\<bar>x\<bar> / 2 powi e)) * 2 powi e)"

definition f64_of_rat :: "rat \<Rightarrow> f64" where
  "f64_of_rat x =
     (let r = f64_round x
      in if 2 ^ 1024 \<le> r then PInf else if r \<le> - (2 ^ 1024) then NInf else Fin r)"

section \<open>Operations\<close>

fun f64_add :: "f64 \<Rightarrow> f64 \<Rightarrow> f64" where
  "f64_add (Fin a) (Fin b) = f64_of_rat (a + b)"
| "f64_add NaN _ = NaN"
| "f64_add _ NaN = NaN"
| "f64_add PInf NInf = NaN"
| "f64_add NInf PInf = NaN"
| "f64_add PInf _ = PInf"
| "f64_add _ PInf = PInf"
| "f64_add NInf _ = NInf"
| "f64_add _ NInf = NInf"

definition f64_signed_inf :: "rat \<Rightarrow> f64" where
  "f64_signed_inf s = (if 0 < s then PInf else if s < 0 then NInf else NaN)"

fun f64_mul :: "f64 \<Rightarrow> f64 \<Rightarrow> f64" where
  "f64_mul (Fin a) (Fin b) = f64_of_rat (a * b)"
| "f64_mul NaN _ = NaN"
| "f64_mul _ NaN = NaN"
| "f64_mul PInf (Fin b) = f64_signed_inf b"
| "f64_mul NInf (Fin b) = f64_signed_inf (- b)"
| "f64_mul (Fin a) PInf = f64_signed_inf a"
| "f64_mul (Fin a) NInf = f64_signed_inf (- a)"
| "f64_mul PInf PInf = PInf"
| "f64_mul NInf NInf = PInf"
| "f64_mul PInf NInf = NInf"
| "f64_mul NInf PInf = NInf"

fun f64_neg :: "f64 \<Rightarrow> f64" where
  "f64_neg (Fin a) = Fin (- a)"
| "f64_neg PInf = NInf"
| "f64_neg NInf = PInf"
| "f64_neg NaN = NaN"

definition f64_sub :: "f64 \<Rightarrow> f64 \<Rightarrow> f64" where
  "f64_sub a b = f64_add a (f64_neg b)"

text \<open>Comparison is false on NaN; \<open>min\<close> and \<open>max\<close> return the other operand.\<close>

fun f64_le :: "f64 \<Rightarrow> f64 \<Rightarrow> bool" where
  "f64_le (Fin a) (Fin b) = (a \<le> b)"
| "f64_le NaN _ = False"
| "f64_le _ NaN = False"
| "f64_le NInf _ = True"
| "f64_le _ PInf = True"
| "f64_le _ _ = False"

definition f64_min :: "f64 \<Rightarrow> f64 \<Rightarrow> f64" where
  "f64_min a b = (if a = NaN then b else if b = NaN then a else if f64_le a b then a else b)"

definition f64_max :: "f64 \<Rightarrow> f64 \<Rightarrow> f64" where
  "f64_max a b = (if a = NaN then b else if b = NaN then a else if f64_le a b then b else a)"

fun f64_ceil :: "f64 \<Rightarrow> f64" where
  "f64_ceil (Fin a) = Fin (of_int \<lceil>a\<rceil>)"
| "f64_ceil x = x"

definition f64_of_u64 :: "64 word \<Rightarrow> f64" where
  "f64_of_u64 n = f64_of_rat (of_nat (unat n))"

text \<open>\<open>as u64\<close> truncates towards zero and saturates; NaN becomes 0.\<close>

fun f64_to_u64 :: "f64 \<Rightarrow> 64 word" where
  "f64_to_u64 (Fin a) =
     (if a \<le> 0 then 0 else if 2 ^ 64 \<le> a then - 1 else of_int \<lfloor>a\<rfloor>)"
| "f64_to_u64 PInf = - 1"
| "f64_to_u64 NInf = 0"
| "f64_to_u64 NaN = 0"

section \<open>Laws of rounding\<close>

lemma round_half_even_int [simp]: "round_half_even (of_int k) = k"
  by (simp add: round_half_even_def)

lemma round_half_even_error: "\<bar>of_int (round_half_even y) - y\<bar> \<le> 1 / 2"
proof -
  have "of_int \<lfloor>y\<rfloor> \<le> y" "y < of_int \<lfloor>y\<rfloor> + 1" by linarith+
  then show ?thesis by (auto simp: round_half_even_def Let_def abs_le_iff)
qed

lemma powi_pos: "(0::rat) < 2 powi e"
  by (simp add: power_int_def)

lemma bit_length_bounds:
  assumes "0 < k"
  obtains m where "floorlog 2 (nat k) = Suc m" "(2::rat) ^ m \<le> of_int k" "(of_int k :: rat) < 2 ^ Suc m"
proof -
  obtain m where m: "floorlog 2 (nat k) = Suc m"
    using assms by (auto simp: floorlog_def)
  have b: "2 ^ m \<le> nat k" "nat k < 2 ^ Suc m"
    using floorlog_bounds [of "nat k" 2] assms m by auto
  from b have "(of_nat (2 ^ m) :: rat) \<le> of_nat (nat k)" "(of_nat (nat k) :: rat) < of_nat (2 ^ Suc m)"
    by (simp_all only: of_nat_le_iff of_nat_less_iff)
  moreover have "(of_nat (nat k) :: rat) = of_int k" using assms by simp
  ultimately show ?thesis using that [OF m] by simp
qed

lemma ulp_exp_bounds:
  assumes "0 < x"
  shows "2 ^ 52 \<le> x / 2 powi (ulp_exp x)" "x / 2 powi (ulp_exp x) < 2 ^ 53"
proof -
  obtain n d where q: "quotient_of x = (n, d)" by fastforce
  from q have d: "0 < d" and x: "x = of_int n / of_int d"
    by (simp_all add: quotient_of_denom_pos quotient_of_div)
  from assms x d have n: "0 < n" by (simp add: zero_less_divide_iff)
  obtain a where a: "floorlog 2 (nat n) = Suc a" "(2::rat) ^ a \<le> of_int n" "(of_int n :: rat) < 2 ^ Suc a"
    using bit_length_bounds [OF n] .
  obtain b where b: "floorlog 2 (nat d) = Suc b" "(2::rat) ^ b \<le> of_int d" "(of_int d :: rat) < 2 ^ Suc b"
    using bit_length_bounds [OF d] .
  define e where "e = int a - int b - 53"
  have e1: "ulp_exp x = (if 2 ^ 53 \<le> x / 2 powi e then e + 1 else e)"
    by (simp add: ulp_exp_def q Let_def e_def a b)
  have pe: "2 powi e = 2 ^ a / (2 ^ b * (2::rat) ^ 53)"
    unfolding e_def by (simp add: power_int_diff)
  have lo: "2 ^ a / 2 ^ Suc b \<le> x"
    unfolding x using a(2) b(3) d n by (intro frac_le) auto
  have hi: "x < 2 ^ Suc a / 2 ^ b"
    unfolding x using a(3) b(2) n by (intro frac_less) auto
  have b52: "2 ^ 52 \<le> x / 2 powi e"
    using lo by (simp add: pe field_simps)
  have b54: "x / 2 powi e < 2 ^ 54"
    using hi by (simp add: pe field_simps)
  have p1: "(2::rat) powi (e + 1) = 2 powi e * 2" by (simp add: power_int_add_1)
  have half: "x / 2 powi (e + 1) = x / 2 powi e / 2" by (simp add: p1)
  show "2 ^ 52 \<le> x / 2 powi (ulp_exp x)" "x / 2 powi (ulp_exp x) < 2 ^ 53"
    using b52 b54 by (auto simp: e1 half)
qed

lemma f64_round_pos:
  "0 < x \<Longrightarrow> f64_round x = of_int (round_half_even (x / 2 powi f64_ulp x)) * 2 powi f64_ulp x"
  by (simp add: f64_round_def Let_def)

lemma f64_round_exact:
  assumes "0 < x" "x / 2 powi f64_ulp x = of_int k"
  shows "f64_round x = x"
proof -
  have "f64_round x = of_int k * 2 powi f64_ulp x"
    by (simp only: f64_round_pos [OF assms(1)] assms(2) round_half_even_int)
  also have "\<dots> = x" unfolding assms(2) [symmetric] using powi_pos [of "f64_ulp x"] by simp
  finally show ?thesis .
qed

lemma f64_round_error: "0 < x \<Longrightarrow> \<bar>f64_round x - x\<bar> \<le> 2 powi f64_ulp x / 2"
proof -
  assume x: "0 < x"
  let ?u = "2 powi f64_ulp x :: rat"
  have u: "0 < ?u" by (rule powi_pos)
  have "f64_round x - x = (of_int (round_half_even (x / ?u)) - x / ?u) * ?u"
    using x u by (simp add: f64_round_pos field_simps)
  then have "\<bar>f64_round x - x\<bar> = \<bar>of_int (round_half_even (x / ?u)) - x / ?u\<bar> * ?u"
    using u by (simp add: abs_mult)
  also have "\<dots> \<le> 1 / 2 * ?u"
    using round_half_even_error [of "x / ?u"] u by (intro mult_right_mono) auto
  finally show ?thesis by simp
qed

lemma ulp_exp_size: "0 < x \<Longrightarrow> 2 powi ulp_exp x * 2 ^ 52 \<le> x \<and> x < 2 powi ulp_exp x * 2 ^ 53"
  using ulp_exp_bounds [of x] powi_pos [of "ulp_exp x"] by (simp add: field_simps)

lemma normal_ulp: "1 / 2 ^ 1000 \<le> x \<Longrightarrow> f64_ulp x = ulp_exp x"
proof -
  assume x: "1 / 2 ^ 1000 \<le> x"
  then have "0 < x" by (rule less_le_trans [rotated]) simp
  then have "x < 2 powi ulp_exp x * 2 ^ 53" using ulp_exp_size by blast
  show ?thesis
  proof (rule ccontr)
    assume "f64_ulp x \<noteq> ulp_exp x"
    then have "ulp_exp x \<le> -1075" by (simp add: f64_ulp_def)
    then have "(2::rat) powi ulp_exp x \<le> 2 powi (-1075)" by (rule power_int_increasing) simp
    then have "(2::rat) powi ulp_exp x * 2 ^ 53 \<le> 2 powi (-1075) * 2 ^ 53"
      by (rule mult_right_mono) simp
    with \<open>x < 2 powi ulp_exp x * 2 ^ 53\<close> have "x < 2 powi (-1075) * 2 ^ 53"
      by (rule less_le_trans)
    also have "(2::rat) powi (-1075) * 2 ^ 53 \<le> 1 / 2 ^ 1000"
      by (simp add: power_int_def field_simps)
    finally show False using x by simp
  qed
qed

lemma f64_round_relative: "1 / 2 ^ 1000 \<le> x \<Longrightarrow> \<bar>f64_round x - x\<bar> \<le> x / 2 ^ 53"
proof -
  assume x: "1 / 2 ^ 1000 \<le> x"
  then have pos: "0 < x" by (rule less_le_trans [rotated]) simp
  have "2 powi ulp_exp x / 2 \<le> x / 2 ^ 53"
    using ulp_exp_size [OF pos] by (simp add: field_simps)
  then show ?thesis
    using f64_round_error [OF pos] by (simp add: normal_ulp [OF x])
qed

lemma f64_round_half: "1 \<le> x \<Longrightarrow> x / 2 \<le> f64_round x"
proof -
  assume x: "1 \<le> x"
  then have "1 / 2 ^ 1000 \<le> x"
    by (rule order_trans [rotated]) (simp add: divide_le_eq_1)
  then have "\<bar>f64_round x - x\<bar> \<le> x / 2 ^ 53" by (rule f64_round_relative)
  moreover have "x / 2 ^ 53 \<le> x / 2" using x by (simp add: field_simps)
  ultimately show ?thesis by linarith
qed

lemma f64_round_nat: "n \<le> 2 ^ 53 \<Longrightarrow> f64_round (of_nat n) = of_nat n"
proof (cases "n = 0")
  case True
  then show ?thesis by (simp add: f64_round_def)
next
  case False
  assume n: "n \<le> 2 ^ 53"
  let ?x = "of_nat n :: rat" and ?e = "f64_ulp (of_nat n)"
  have pos: "0 < ?x" using False by simp
  have "\<exists>k. ?x / 2 powi ?e = of_int k"
  proof (cases "?e \<le> 0")
    case True
    then have "(2::rat) powi ?e = inverse (2 ^ nat (- ?e))"
      by (cases "?e = 0") (auto simp: power_int_def power_one_over inverse_eq_divide)
    then have "?x / 2 powi ?e = of_int (int n * 2 ^ nat (- ?e))"
      by (simp add: divide_inverse)
    then show ?thesis by blast
  next
    case False
    then have e: "?e = ulp_exp ?x" by (simp add: f64_ulp_def)
    have size: "2 powi ?e * 2 ^ 52 \<le> ?x" using ulp_exp_size [OF pos] by (simp add: e)
    have "?x \<le> of_nat (2 ^ 53)" using n by (simp only: of_nat_le_iff)
    then have x53: "?x \<le> 2 ^ 53" by simp
    have "?e = 1"
    proof (rule ccontr)
      assume "?e \<noteq> 1"
      with False have "2 \<le> ?e" by linarith
      then have "(2::rat) powi 2 \<le> 2 powi ?e" by (rule power_int_increasing) simp
      with size x53 show False by simp
    qed
    with size x53 have "?x / 2 powi ?e = of_int (2 ^ 52)" by simp
    then show ?thesis by blast
  qed
  then show ?thesis using f64_round_exact [OF pos] by blast
qed

text \<open>A value that is at least a given number, possibly infinite.\<close>

definition f64_ge :: "f64 \<Rightarrow> rat \<Rightarrow> bool" where
  "f64_ge v x \<longleftrightarrow> v = PInf \<or> (\<exists>a. v = Fin a \<and> x \<le> a)"

lemma f64_of_rat_ge: "1 \<le> x \<Longrightarrow> f64_ge (f64_of_rat x) (x / 2)"
  using f64_round_half [of x] by (auto simp: f64_of_rat_def Let_def f64_ge_def)

lemma f64_of_rat_nat: "n \<le> 2 ^ 53 \<Longrightarrow> f64_of_rat (of_nat n) = Fin (of_nat n)"
proof -
  assume n: "n \<le> 2 ^ 53"
  then have "(of_nat n :: rat) \<le> of_nat (2 ^ 53)" by (simp only: of_nat_le_iff)
  then have "(of_nat n :: rat) < 2 ^ 1024" by (rule le_less_trans) simp
  moreover have "\<not> (of_nat n :: rat) \<le> - (2 ^ 1024)"
  proof -
    have "- (2 ^ 1024) < (0::rat)" by simp
    moreover have "(0::rat) \<le> of_nat n" by simp
    ultimately show ?thesis by linarith
  qed
  ultimately show ?thesis using n by (simp add: f64_of_rat_def f64_round_nat Let_def not_le)
qed

section \<open>Exact values\<close>

lemma powi_less: "(2::rat) powi a < 2 powi b \<Longrightarrow> a < b"
proof (rule ccontr)
  assume "(2::rat) powi a < 2 powi b" "\<not> a < b"
  then show False using power_int_increasing [of b a "2::rat"] by simp
qed

lemma ulp_exp_unique:
  assumes "2 powi e * 2 ^ 52 \<le> x" "x < 2 powi e * 2 ^ 53"
  shows "ulp_exp x = e"
proof -
  have "0 < 2 powi e * (2::rat) ^ 52" using powi_pos [of e] by simp
  then have x: "0 < x" using assms(1) by (rule less_le_trans)
  note u = ulp_exp_size [OF x]
  have half: "a * 2 ^ 52 \<le> x \<Longrightarrow> x < b * 2 ^ 53 \<Longrightarrow> a < b * 2" for a b :: rat by simp
  have "(2::rat) powi ulp_exp x < 2 powi e * 2" using half u assms(2) by blast
  moreover have "(2::rat) powi e < 2 powi ulp_exp x * 2" using half u assms(1) by blast
  ultimately have "(2::rat) powi ulp_exp x < 2 powi (e + 1)" "(2::rat) powi e < 2 powi (ulp_exp x + 1)"
    by (simp_all add: power_int_add)
  from this [THEN powi_less] show ?thesis by simp
qed

lemma round_half_even_near: "\<bar>of_int k - y\<bar> < 1 / 2 \<Longrightarrow> round_half_even y = k"
proof -
  assume "\<bar>of_int k - y\<bar> < 1 / 2"
  with round_half_even_error [of y] have "\<bar>rat_of_int (round_half_even y) - of_int k\<bar> < 1" by linarith
  then have "rat_of_int \<bar>round_half_even y - k\<bar> < of_int 1" by simp
  then show ?thesis by (simp only: of_int_less_iff)
qed

text \<open>A rounding by its exponent and significand.\<close>

lemma f64_round_near:
  assumes "2 powi e * 2 ^ 52 \<le> x" "x < 2 powi e * 2 ^ 53" "- 1074 \<le> e" "\<bar>of_int k - x / 2 powi e\<bar> < 1 / 2"
  shows "f64_round x = of_int k * 2 powi e"
proof -
  have "0 < 2 powi e * (2::rat) ^ 52" using powi_pos [of e] by simp
  then have x: "0 < x" using assms(1) by (rule less_le_trans)
  have "f64_ulp x = e" using ulp_exp_unique [OF assms(1,2)] assms(3) by (simp add: f64_ulp_def)
  then show ?thesis by (simp add: f64_round_pos [OF x] round_half_even_near [OF assms(4)])
qed

end
