(* ===== verification/Electrs.thy ===== *)
theory Electrs
  imports Prelude Float64 "HOL-Library.Sublist"
begin

text \<open>
  \<open>server/src/electrs.rs\<close>: the adapter through which all chain data flows. Every query is one \<open>call\<close>:
  a cooldown check, the gate, a spacing sleep, and the work on a fresh client under a timeout that
  trips the cooldown. The Electrum client, the gate, the clock and the timer of tokio are parameters
  (records of functions on a world of any type); instants and durations are natural numbers of
  milliseconds. Time passes only where the code awaits.
\<close>

section \<open>Values from the Electrum client\<close>

type_synonym script = bytes
type_synonym txid = bytes
type_synonym block_hash = bytes

text \<open>The parts of the client's results that the server reads.\<close>

record block_header =
  hdr_hash :: block_hash
  hdr_time :: u32

record balance_res =
  bal_confirmed :: u64
  bal_unconfirmed :: i64

record history_res =
  his_tx_hash :: txid
  his_height :: i32

record unspent_res =
  uns_tx_hash :: txid
  uns_tx_pos :: usize
  uns_value :: u64
  uns_height :: usize

datatype backend_error = Cooldown | Timeout | Electrum string

type_synonym tip = "usize \<times> block_hash \<times> u32"

section \<open>The guarded call\<close>

definition CALL_SPACING :: nat where "CALL_SPACING = 100"
definition COOLDOWN :: nat where "COOLDOWN = 15000"
definition DEFAULT_TIMEOUT :: nat where "DEFAULT_TIMEOUT = 30000"

record electrs =
  el_url :: string
  cooldown_until :: "nat option"
  last_call :: "nat option"

definition electrs_new :: "string \<Rightarrow> electrs" where
  "electrs_new addr =
     \<lparr>el_url = (if list_ex (prefix ''://'') (suffixes addr) then addr else ''tcp://'' @ addr),
      cooldown_until = None, last_call = None\<rparr>"

text \<open>Reading the clock, waiting for the gate's permit, and sleeping.\<close>

record 'w runtime =
  rt_now :: "'w \<Rightarrow> nat"
  rt_acquire :: "'w \<Rightarrow> 'w"
  rt_sleep :: "nat \<Rightarrow> 'w \<Rightarrow> 'w"

text \<open>How the work spawned on the blocking pool ends within the timeout.\<close>

datatype 'a outcome = Done 'a | RpcFailed string | JoinFailed string | TimedOut

type_synonym ('w, 'a) work = "string \<Rightarrow> nat \<Rightarrow> 'w \<Rightarrow> 'a outcome \<times> 'w"

definition in_cooldown :: "'w runtime \<Rightarrow> electrs \<Rightarrow> 'w \<Rightarrow> bool" where
  "in_cooldown R el w =
     (case cooldown_until el of None \<Rightarrow> False | Some until \<Rightarrow> rt_now R w < until)"

text \<open>The world in which the work starts and the adapter's state then.\<close>

definition call_start :: "'w runtime \<Rightarrow> electrs \<Rightarrow> 'w \<Rightarrow> electrs \<times> 'w" where
  "call_start R el w =
     (let w1 = rt_acquire R w;
          wait = (case last_call el of None \<Rightarrow> 0 | Some t \<Rightarrow> CALL_SPACING - (rt_now R w1 - t));
          el1 = el\<lparr>last_call := Some (rt_now R w1)\<rparr>;
          w2 = (if wait = 0 then w1 else rt_sleep R wait w1)
      in (el1, w2))"

definition call ::
    "'w runtime \<Rightarrow> nat \<Rightarrow> ('w, 'a) work \<Rightarrow> electrs \<times> 'w \<Rightarrow> (backend_error + 'a) \<times> electrs \<times> 'w" where
  "call R timeout f s =
     (case s of (el, w) \<Rightarrow>
        if in_cooldown R el w then (Inl Cooldown, el, w)
        else
          (case call_start R el w of (el1, w2) \<Rightarrow>
             (case f (el_url el1) timeout w2 of
                (Done v, w3) \<Rightarrow> (Inr v, el1, w3)
              | (RpcFailed e, w3) \<Rightarrow> (Inl (Electrum e), el1, w3)
              | (JoinFailed e, w3) \<Rightarrow> (Inl (Electrum e), el1, w3)
              | (TimedOut, w3) \<Rightarrow>
                  (Inl Timeout, el1\<lparr>cooldown_until := Some (rt_now R w3 + COOLDOWN)\<rparr>, w3))))"

section \<open>The queries\<close>

record 'w client =
  c_headers_subscribe :: "('w, usize \<times> block_header) work"
  c_balances :: "script list \<Rightarrow> ('w, balance_res list) work"
  c_histories :: "script list \<Rightarrow> ('w, history_res list list) work"
  c_unspents :: "script list \<Rightarrow> ('w, unspent_res list list) work"
  c_block_header :: "usize \<Rightarrow> ('w, block_header) work"
  c_raw_tx :: "txid \<Rightarrow> ('w, bytes) work"
  c_estimate :: "nat \<Rightarrow> ('w, f64) work"
  c_broadcast :: "bytes \<Rightarrow> ('w, txid) work"

definition tip_inner ::
    "'w runtime \<Rightarrow> 'w client \<Rightarrow> nat \<Rightarrow> electrs \<times> 'w \<Rightarrow> (backend_error + tip) \<times> electrs \<times> 'w" where
  "tip_inner R C timeout s =
     (case call R timeout (c_headers_subscribe C) s of
        (Inl e, s') \<Rightarrow> (Inl e, s')
      | (Inr (height, hdr), s') \<Rightarrow> (Inr (height, hdr_hash hdr, hdr_time hdr), s'))"

definition preflight ::
    "'w runtime \<Rightarrow> 'w client \<Rightarrow> electrs \<times> 'w \<Rightarrow> (backend_error + unit) \<times> electrs \<times> 'w" where
  "preflight R C s =
     (case tip_inner R C 5000 s of
        (Inl e, s') \<Rightarrow> (Inl e, s')
      | (Inr _, s') \<Rightarrow> (Inr (), s'))"

fun anchors_loop ::
    "'w runtime \<Rightarrow> 'w client \<Rightarrow> usize list \<Rightarrow> (usize \<rightharpoonup> block_hash \<times> u32) \<Rightarrow> electrs \<times> 'w
       \<Rightarrow> (backend_error + (usize \<rightharpoonup> block_hash \<times> u32)) \<times> electrs \<times> 'w" where
  "anchors_loop R C [] out s = (Inr out, s)"
| "anchors_loop R C (h # hs) out s =
     (case call R DEFAULT_TIMEOUT (c_block_header C h) s of
        (Inl e, s') \<Rightarrow> (Inl e, s')
      | (Inr hdr, s') \<Rightarrow> anchors_loop R C hs (out(h \<mapsto> (hdr_hash hdr, hdr_time hdr))) s')"

text \<open>What the handlers and the watcher see of the adapter.\<close>

record 's backend =
  be_tip :: "'s \<Rightarrow> (backend_error + tip) \<times> 's"
  be_balances :: "script list \<Rightarrow> 's \<Rightarrow> (backend_error + balance_res list) \<times> 's"
  be_histories :: "script list \<Rightarrow> 's \<Rightarrow> (backend_error + history_res list list) \<times> 's"
  be_unspents :: "script list \<Rightarrow> 's \<Rightarrow> (backend_error + unspent_res list list) \<times> 's"
  be_anchors :: "usize list \<Rightarrow> 's \<Rightarrow> (backend_error + (usize \<rightharpoonup> block_hash \<times> u32)) \<times> 's"
  be_raw_tx :: "txid \<Rightarrow> 's \<Rightarrow> (backend_error + bytes) \<times> 's"
  be_estimate :: "nat \<Rightarrow> 's \<Rightarrow> (backend_error + f64) \<times> 's"
  be_broadcast :: "bytes \<Rightarrow> 's \<Rightarrow> (backend_error + txid) \<times> 's"

definition electrs_backend :: "'w runtime \<Rightarrow> 'w client \<Rightarrow> (electrs \<times> 'w) backend" where
  "electrs_backend R C =
     \<lparr>be_tip = tip_inner R C DEFAULT_TIMEOUT,
      be_balances = (\<lambda>ss. call R DEFAULT_TIMEOUT (c_balances C ss)),
      be_histories = (\<lambda>ss. call R DEFAULT_TIMEOUT (c_histories C ss)),
      be_unspents = (\<lambda>ss. call R DEFAULT_TIMEOUT (c_unspents C ss)),
      be_anchors = (\<lambda>hs. anchors_loop R C hs Map.empty),
      be_raw_tx = (\<lambda>t. call R DEFAULT_TIMEOUT (c_raw_tx C t)),
      be_estimate = (\<lambda>n. call R DEFAULT_TIMEOUT (c_estimate C n)),
      be_broadcast = (\<lambda>raw. call R DEFAULT_TIMEOUT (c_broadcast C raw))\<rparr>"

definition btc_kb_to_sat_vb :: "f64 \<Rightarrow> u64" where
  "btc_kb_to_sat_vb x = f64_to_u64 (f64_max (f64_ceil (f64_mul x (Fin 100000))) (Fin 1))"

section \<open>The contract the handlers rely on\<close>

text \<open>
  A chain backend answers a query for anchors, if at all, with an anchor for every height asked for;
  the handlers index the answer without a check.
\<close>

locale chain_backend =
  fixes anchors :: "usize list \<Rightarrow> 's \<Rightarrow> (backend_error + (usize \<rightharpoonup> block_hash \<times> u32)) \<times> 's"
  assumes anchors_complete: "anchors hs s = (Inr m, s') \<Longrightarrow> set hs \<subseteq> dom m"
begin

lemma anchor_found: "anchors hs s = (Inr m, s') \<Longrightarrow> h \<in> set hs \<Longrightarrow> \<exists>a. m h = Some a"
  using anchors_complete by blast

end

lemma anchors_loop_dom: "anchors_loop R C hs out s = (Inr m, s') \<Longrightarrow> dom m = dom out \<union> set hs"
proof (induction hs arbitrary: out s)
  case Nil
  then show ?case by simp
next
  case (Cons h hs)
  obtain r s1 where c: "call R DEFAULT_TIMEOUT (c_block_header C h) s = (r, s1)"
    by (cases "call R DEFAULT_TIMEOUT (c_block_header C h) s")
  with Cons.prems obtain hdr where "r = Inr hdr" by (cases r) auto
  with c Cons.prems have "anchors_loop R C hs (out(h \<mapsto> (hdr_hash hdr, hdr_time hdr))) s1 = (Inr m, s')"
    by simp
  from Cons.IH [OF this] show ?case by auto
qed

interpretation electrs: chain_backend "be_anchors (electrs_backend R C)" for R C
  by unfold_locales (auto simp: electrs_backend_def dest: anchors_loop_dom)

section \<open>Runs of calls\<close>

text \<open>
  A run interleaves pauses (time in which other code runs) with calls; its trace lists the instants at
  which work was started on the backend. Time laws of the parameters: nothing turns the clock back,
  and a sleep lasts at least as long as asked for.
\<close>

fun run_calls :: "'w runtime \<Rightarrow> (('w \<Rightarrow> 'w) \<times> nat \<times> ('w, 'a) work) list \<Rightarrow> electrs \<times> 'w \<Rightarrow> nat list" where
  "run_calls R [] s = []"
| "run_calls R ((pause, timeout, f) # es) (el, w) =
     (let rest = run_calls R es (snd (call R timeout f (el, pause w)))
      in if in_cooldown R el (pause w) then rest
         else rt_now R (snd (call_start R el (pause w))) # rest)"

definition runtime_ok :: "'w runtime \<Rightarrow> bool" where
  "runtime_ok R \<longleftrightarrow> (\<forall>w. rt_now R w \<le> rt_now R (rt_acquire R w)) \<and>
     (\<forall>d w. rt_now R w + d \<le> rt_now R (rt_sleep R d w))"

definition forward :: "'w runtime \<Rightarrow> ('w \<Rightarrow> 'w) \<times> nat \<times> ('w, 'a) work \<Rightarrow> bool" where
  "forward R e = (case e of (pause, timeout, f) \<Rightarrow>
     (\<forall>w. rt_now R w \<le> rt_now R (pause w)) \<and>
     (\<forall>url t w. rt_now R w \<le> rt_now R (snd (f url t w))))"

lemma call_start_time:
  assumes "runtime_ok R" "call_start R el w = (el1, w1)"
  shows "\<exists>st. last_call el1 = Some st \<and> rt_now R w \<le> st \<and> st \<le> rt_now R w1 \<and>
    (\<forall>t. last_call el = Some t \<longrightarrow> t \<le> rt_now R w \<longrightarrow> t + 100 \<le> rt_now R w1)"
proof -
  let ?a = "rt_acquire R w"
  have a: "rt_now R w \<le> rt_now R ?a" and z: "\<And>d. rt_now R ?a + d \<le> rt_now R (rt_sleep R d ?a)"
    using assms(1) by (auto simp: runtime_ok_def)
  have s: "rt_now R ?a \<le> rt_now R (rt_sleep R d ?a)" for d using z [of d] by simp
  show ?thesis
  proof (cases "last_call el")
    case None
    then show ?thesis using assms(2) a by (auto simp: call_start_def Let_def)
  next
    case (Some t)
    then show ?thesis
      using assms(2) a s z [of "100 + t - rt_now R ?a"]
      by (auto simp: call_start_def Let_def CALL_SPACING_def split: if_splits)
  qed
qed

lemma call_after_start:
  assumes "\<not> in_cooldown R el w" "call_start R el w = (el1, w1)"
  shows "last_call (fst (snd (call R timeout f (el, w)))) = last_call el1 \<and>
    snd (snd (call R timeout f (el, w))) = snd (f (el_url el1) timeout w1)"
  using assms by (auto simp: call_def split: prod.splits outcome.splits)

lemma call_cooldown: "in_cooldown R el w \<Longrightarrow> call R timeout f (el, w) = (Inl Cooldown, el, w)"
  by (simp add: call_def)

text \<open>The first start after a stamp, and the second start of any run.\<close>

lemma first_start:
  assumes "runtime_ok R" "run_calls R es (el, w) = t1 # ts" "list_all (forward R) es"
    and "last_call el = Some st" "st \<le> rt_now R w"
  shows "st + 100 \<le> t1"
  using assms(2-)
proof (induction es arbitrary: el w)
  case Nil
  then show ?case by simp
next
  case (Cons e es)
  obtain pause timeout f where e: "e = (pause, timeout, f)" by (cases e)
  have w: "st \<le> rt_now R (pause w)"
    using Cons.prems(2,4) by (auto simp: e forward_def intro: order_trans)
  show ?case
  proof (cases "in_cooldown R el (pause w)")
    case True
    then show ?thesis using Cons.IH [of el "pause w"] Cons.prems w by (simp add: e call_cooldown)
  next
    case False
    obtain el1 w1 where cs: "call_start R el (pause w) = (el1, w1)" by fastforce
    then have "t1 = rt_now R w1" using Cons.prems(1) False by (simp add: e)
    then show ?thesis using call_start_time [OF assms(1) cs] Cons.prems(3) w by auto
  qed
qed

lemma second_start:
  assumes "runtime_ok R" "run_calls R es (el, w) = t1 # t2 # ts" "list_all (forward R) es"
  shows "rt_now R w + 100 \<le> t2"
  using assms(2-)
proof (induction es arbitrary: el w)
  case Nil
  then show ?case by simp
next
  case (Cons e es)
  obtain pause timeout f where e: "e = (pause, timeout, f)" by (cases e)
  have w: "rt_now R w \<le> rt_now R (pause w)" and fw: "\<And>url t w. rt_now R w \<le> rt_now R (snd (f url t w))"
    using Cons.prems(2) by (auto simp: e forward_def)
  show ?case
  proof (cases "in_cooldown R el (pause w)")
    case True
    then show ?thesis using Cons.IH [of el "pause w"] Cons.prems w by (simp add: e call_cooldown)
  next
    case False
    obtain el1 w1 where cs: "call_start R el (pause w) = (el1, w1)" by fastforce
    obtain r el2 w2 where c: "call R timeout f (el, pause w) = (r, el2, w2)" by (metis prod_cases3)
    obtain st where st: "last_call el1 = Some st" "rt_now R (pause w) \<le> st" "st \<le> rt_now R w1"
      using call_start_time [OF assms(1) cs] by blast
    have "last_call el2 = Some st" "st \<le> rt_now R w2"
      using call_after_start [OF False cs, of timeout f] st(1,3) fw [of w1 "el_url el1" timeout] c by auto
    moreover have "run_calls R es (el2, w2) = t2 # ts" "list_all (forward R) es"
      using Cons.prems False c by (simp_all add: e)
    ultimately have "st + 100 \<le> t2" using first_start [OF assms(1)] by blast
    then show ?thesis using st w by simp
  qed
qed

lemma run_starts_spaced:
  assumes "runtime_ok R" "list_all (forward R) es"
  shows "i + 2 < length (run_calls R es (el, w)) \<Longrightarrow>
    run_calls R es (el, w) ! i + 100 \<le> run_calls R es (el, w) ! (i + 2)"
  using assms(2)
proof (induction es arbitrary: el w i)
  case Nil
  then show ?case by simp
next
  case (Cons e es)
  obtain pause timeout f where e: "e = (pause, timeout, f)" by (cases e)
  obtain r el2 w2 where c: "call R timeout f (el, pause w) = (r, el2, w2)" by (metis prod_cases3)
  show ?case
  proof (cases "in_cooldown R el (pause w)")
    case True
    then show ?thesis using Cons.IH [of i el2 w2] Cons.prems by (simp add: e c)
  next
    case False
    obtain el1 w1 where cs: "call_start R el (pause w) = (el1, w1)" by fastforce
    have run: "run_calls R (e # es) (el, w) = rt_now R w1 # run_calls R es (el2, w2)"
      using False by (simp add: e c cs)
    have fw: "rt_now R w1 \<le> rt_now R w2"
      using Cons.prems(2) call_after_start [OF False cs, of timeout f] c by (auto simp: e forward_def)
    show ?thesis
    proof (cases i)
      case 0
      then obtain t2 t3 ts where ts: "run_calls R es (el2, w2) = t2 # t3 # ts"
        using Cons.prems(1) by (auto simp: run less_Suc_eq_0_disj length_Suc_conv neq_Nil_conv
            dest!: Suc_leI simp: Suc_le_length_iff numeral_2_eq_2)
      have "rt_now R w2 + 100 \<le> t3"
        using second_start [OF assms(1) ts] Cons.prems(2) by simp
      then show ?thesis using fw by (simp add: run ts 0)
    next
      case (Suc j)
      then show ?thesis using Cons.IH [of j el2 w2] Cons.prems by (simp add: run)
    qed
  qed
qed

section \<open>Fee rates\<close>

lemma uint_u64_max: "uint (- 1 :: u64) = 18446744073709551615"
proof -
  have "uint (18446744073709551615 :: u64) = 18446744073709551615" by simp
  moreover have "(- 1 :: u64) = 18446744073709551615" by simp
  ultimately show ?thesis by (simp only:)
qed

lemma fee_of_round:
  "uint (f64_to_u64 (f64_max (f64_ceil (Fin r)) (Fin 1))) = (if r \<le> 2 ^ 64 - 1 then max \<lceil>r\<rceil> 1 else 2 ^ 64 - 1)"
proof -
  let ?m = "max \<lceil>r\<rceil> 1"
  have m: "f64_max (f64_ceil (Fin r)) (Fin 1) = Fin (of_int ?m)"
    by (simp add: f64_max_def max_def)
  show ?thesis
  proof (cases "r \<le> 2 ^ 64 - 1")
    case True
    then have le: "\<lceil>r\<rceil> \<le> 2 ^ 64 - 1" by (simp add: ceiling_le_iff)
    then have "(of_int ?m :: rat) < of_int (2 ^ 64)" by (simp only: of_int_less_iff) simp
    then have "f64_to_u64 (Fin (of_int ?m)) = of_int ?m" by (simp add: not_le max_def)
    moreover have "uint (of_int ?m :: u64) = ?m"
    proof -
      have "0 \<le> ?m" "?m < 2 ^ 64" using le by (auto simp: max_def)
      then show ?thesis by (simp only: unsigned_of_int) (simp add: take_bit_int_eq_self)
    qed
    ultimately show ?thesis using True by (simp only: m if_True)
  next
    case False
    then have "of_int (2 ^ 64 - 1) < r" by simp
    then have "2 ^ 64 - 1 < \<lceil>r\<rceil>" by (simp only: less_ceiling_iff)
    then have "2 ^ 64 \<le> \<lceil>r\<rceil>" by simp
    then have "of_int (2 ^ 64) \<le> (of_int ?m :: rat)" by (simp only: of_int_le_iff)
    then have "f64_to_u64 (Fin (of_int ?m)) = - 1" by simp
    then show ?thesis using False by (simp only: m if_False uint_u64_max) simp
  qed
qed

lemma f64_round_tiny:
  assumes "q \<le> 1 / 2 ^ 1000"
  shows "f64_round q \<le> 1"
proof (cases "0 < q")
  case True
  have s: "1 / 2 ^ 1000 \<le> (1/2::rat)" by simp
  have "2 powi (ulp_exp q) * 2 ^ 52 \<le> q" using ulp_exp_size [OF True] by simp
  then have "2 powi (ulp_exp q) \<le> (1/2::rat)" using assms s by simp
  moreover have "2 powi (- 1074) \<le> (1/2::rat)" by (simp add: power_int_minus divide_simps)
  ultimately have "2 powi (f64_ulp q) \<le> (1/2::rat)" by (simp add: f64_ulp_def max_def)
  with f64_round_error [OF True] assms s show ?thesis by linarith
next
  case False
  have "0 \<le> round_half_even (\<bar>q\<bar> / 2 powi e)" for e
  proof -
    have "(0::rat) \<le> \<bar>q\<bar> / 2 powi e" using powi_pos [of e] by simp
    then show ?thesis by (simp add: round_half_even_def Let_def)
  qed
  then have "0 \<le> (of_int (round_half_even (\<bar>q\<bar> / 2 powi e)) :: rat) * 2 powi e" for e
    using powi_pos [of e] by simp
  with False show ?thesis
    by (auto simp: f64_round_def Let_def sgn_if intro: order_trans [of _ 0])
qed

lemma f64_of_rat_fin: "f64_round x = r \<Longrightarrow> - (2 ^ 1024) < r \<Longrightarrow> r < 2 ^ 1024 \<Longrightarrow> f64_of_rat x = Fin r"
  by (simp add: f64_of_rat_def Let_def)

lemma fee_of_decimal:
  assumes "f64_of_rat x = Fin a" "f64_of_rat (a * 100000) = Fin r" "r \<le> 2 ^ 32"
  shows "uint (btc_kb_to_sat_vb (f64_of_rat x)) = max \<lceil>r\<rceil> 1"
  using fee_of_round [of r] assms by (simp add: btc_kb_to_sat_vb_def)

lemma f64_of_rat_zero [simp]: "f64_of_rat 0 = Fin 0"
  by (simp add: f64_of_rat_def f64_round_def)

text \<open>Decimal fractions of the fee estimates, as doubles and after the multiplication.\<close>

lemma decimals:
  "f64_of_rat (1 / 100000) = Fin (5902958103587057 / 2 ^ 69)" "f64_of_rat (5902958103587057 / 2 ^ 69 * 100000) = Fin 1"
  "f64_of_rat (1 / 10000) = Fin (7378697629483821 / 2 ^ 66)" "f64_of_rat (7378697629483821 / 2 ^ 66 * 100000) = Fin 10"
  "f64_of_rat (51 / 100000) = Fin (4703919738795936 / 2 ^ 63)"
  "f64_of_rat (4703919738795936 / 2 ^ 63 * 100000) = Fin (7177611906121729 / 2 ^ 47)"
proof -
  have "f64_round (1 / 100000) = 5902958103587057 / 2 ^ 69"
    using f64_round_near [of "- 69" "1 / 100000" 5902958103587057] by (simp add: power_int_minus)
  then show "f64_of_rat (1 / 100000) = Fin (5902958103587057 / 2 ^ 69)" by (rule f64_of_rat_fin) simp_all
  have "f64_round (5902958103587057 / 2 ^ 69 * 100000) = 1"
    using f64_round_near [of "- 52" "5902958103587057 / 2 ^ 69 * 100000" "2 ^ 52"] by (simp add: power_int_minus)
  then show "f64_of_rat (5902958103587057 / 2 ^ 69 * 100000) = Fin 1" by (rule f64_of_rat_fin) simp_all
  have "f64_round (1 / 10000) = 7378697629483821 / 2 ^ 66"
    using f64_round_near [of "- 66" "1 / 10000" 7378697629483821] by (simp add: power_int_minus)
  then show "f64_of_rat (1 / 10000) = Fin (7378697629483821 / 2 ^ 66)" by (rule f64_of_rat_fin) simp_all
  have "f64_round (7378697629483821 / 2 ^ 66 * 100000) = 10"
    using f64_round_near [of "- 49" "7378697629483821 / 2 ^ 66 * 100000" "5629499534213120"] by (simp add: power_int_minus)
  then show "f64_of_rat (7378697629483821 / 2 ^ 66 * 100000) = Fin 10" by (rule f64_of_rat_fin) simp_all
  have "f64_round (51 / 100000) = 4703919738795936 / 2 ^ 63"
    using f64_round_near [of "- 63" "51 / 100000" 4703919738795936] by (simp add: power_int_minus)
  then show "f64_of_rat (51 / 100000) = Fin (4703919738795936 / 2 ^ 63)" by (rule f64_of_rat_fin) simp_all
  have "f64_round (4703919738795936 / 2 ^ 63 * 100000) = 7177611906121729 / 2 ^ 47"
    using f64_round_near [of "- 47" "4703919738795936 / 2 ^ 63 * 100000" 7177611906121729] by (simp add: power_int_minus)
  then show "f64_of_rat (4703919738795936 / 2 ^ 63 * 100000) = Fin (7177611906121729 / 2 ^ 47)" by (rule f64_of_rat_fin) simp_all
qed

text \<open>An estimate of exactly 51 satoshi per virtual byte is answered as 52.\<close>

lemma fee_overestimates: "btc_kb_to_sat_vb (f64_of_rat (51 / 100000)) = 52"
proof -
  have "\<lceil>7177611906121729 / 2 ^ 47 :: rat\<rceil> = 52" by (simp add: ceiling_eq_iff)
  then have "uint (btc_kb_to_sat_vb (f64_of_rat (51 / 100000))) = 52"
    using fee_of_decimal [OF decimals(5,6)] by simp
  then show ?thesis by (simp add: word_uint_eq_iff)
qed

section \<open>Properties\<close>

text \<open>
  The circuit breaker: once a call ended in a timeout, for the 15 seconds after it every query of
  the backend fails at once with \<open>Cooldown\<close>, leaves the adapter as it is and does not touch the gate,
  the client or anything else in the world (looking up anchors for no heights, which queries
  nothing, excepted); from then on no call is refused by the breaker.
\<close>

theorem timeout_trips_breaker:
  assumes "call R timeout f (el, w) = (Inl Timeout, el', w')"
  shows "let B = electrs_backend R C; s = (el', later) in
    if rt_now R later < rt_now R w' + 15000
    then be_tip B s = (Inl Cooldown, s) \<and> be_balances B ss s = (Inl Cooldown, s) \<and>
      be_histories B ss s = (Inl Cooldown, s) \<and> be_unspents B ss s = (Inl Cooldown, s) \<and>
      be_anchors B (h # hs) s = (Inl Cooldown, s) \<and> be_raw_tx B t s = (Inl Cooldown, s) \<and>
      be_estimate B n s = (Inl Cooldown, s) \<and> be_broadcast B raw s = (Inl Cooldown, s) \<and>
      preflight R C s = (Inl Cooldown, s)
    else fst (call R timeout' g s) \<noteq> Inl Cooldown"
proof -
  have until: "cooldown_until el' = Some (rt_now R w' + 15000)"
    using assms by (auto simp: call_def COOLDOWN_def split: if_splits prod.splits outcome.splits)
  show ?thesis
  proof (cases "rt_now R later < rt_now R w' + 15000")
    case True
    then have "in_cooldown R el' later" by (simp add: in_cooldown_def until)
    with True show ?thesis
      by (simp add: electrs_backend_def tip_inner_def preflight_def call_cooldown Let_def)
  next
    case False
    then have "\<not> in_cooldown R el' later" by (simp add: in_cooldown_def until)
    with False show ?thesis
      by (auto simp: call_def Let_def split: prod.splits outcome.splits)
  qed
qed

text \<open>
  Pacing: in any run of calls, interleaved with any other work, the starts of work on the backend
  keep the pace the spacing is there for: of any three consecutive starts the last comes at least 100
  ms after the first (two neighbours may be closer, since the stamp is taken before the sleep).
\<close>

theorem backend_starts_paced:
  assumes "runtime_ok R" "list_all (forward R) es"
    and "run_calls R es (electrs_new addr, w) = ts" "i + 2 < length ts"
  shows "ts ! i + 100 \<le> ts ! (i + 2)"
  using run_starts_spaced [OF assms(1,2), of i "electrs_new addr" w] assms(3,4) by simp

text \<open>A runtime whose world is the clock itself, and work that takes no time or never ends.\<close>

definition clock_runtime :: "nat runtime" where
  "clock_runtime = \<lparr>rt_now = id, rt_acquire = id, rt_sleep = (\<lambda>d w. w + d)\<rparr>"

lemma clock_runtime_ok: "runtime_ok clock_runtime"
  by (simp add: runtime_ok_def clock_runtime_def)

definition instant_work :: "(nat, unit) work" where
  "instant_work = (\<lambda>url t w. (Done (), w))"

definition hanging_work :: "(nat, 'a) work" where
  "hanging_work = (\<lambda>url t w. (TimedOut, w + t))"

definition silent_client :: "nat client" where
  "silent_client =
     \<lparr>c_headers_subscribe = hanging_work, c_balances = (\<lambda>_. hanging_work),
      c_histories = (\<lambda>_. hanging_work), c_unspents = (\<lambda>_. hanging_work),
      c_block_header = (\<lambda>_. hanging_work), c_raw_tx = (\<lambda>_. hanging_work),
      c_estimate = (\<lambda>_. hanging_work), c_broadcast = (\<lambda>_. hanging_work)\<rparr>"

theorem timeout_trips_breaker_witness:
  "let B = electrs_backend clock_runtime silent_client;
       el = snd (be_balances B [[1]] (electrs_new ''h:1'', 7)) in
   be_balances B [[1]] (fst el, 45006) = (Inl Cooldown, fst el, 45006) \<and> snd el = 30007"
proof -
  let ?el = "(electrs_new ''h:1'')\<lparr>last_call := Some 7, cooldown_until := Some 45007\<rparr>"
  have c: "call clock_runtime 30000 (hanging_work :: (nat, balance_res list) work) (electrs_new ''h:1'', 7)
      = (Inl Timeout, ?el, 30007)"
    by (simp add: call_def in_cooldown_def electrs_new_def call_start_def clock_runtime_def hanging_work_def
        COOLDOWN_def Let_def)
  show ?thesis
    using timeout_trips_breaker [OF c, of silent_client 45006 "[[1]]"] c
    by (simp add: Let_def clock_runtime_def electrs_backend_def silent_client_def DEFAULT_TIMEOUT_def)
qed

theorem backend_starts_paced_witness:
  "run_calls clock_runtime [(id, 5000, instant_work), (id, 5000, instant_work), (id, 5000, instant_work)]
     (electrs_new ''h:1'', 7) ! 2 \<ge> 107"
proof -
  let ?es = "[(id, 5000, instant_work), (id, 5000, instant_work), (id, 5000, instant_work)]"
  have f: "list_all (forward clock_runtime) ?es"
    by (simp add: forward_def instant_work_def)
  have t: "run_calls clock_runtime ?es (electrs_new ''h:1'', 7) = [7, 107, 107]"
    by (simp add: call_def in_cooldown_def electrs_new_def call_start_def clock_runtime_def instant_work_def
        CALL_SPACING_def Let_def)
  show ?thesis
    using backend_starts_paced [OF clock_runtime_ok f t, of 0] t by simp
qed

text \<open>
  The fee rate in sat/vB, through the floating-point arithmetic of the source: never below 1, never
  below the estimate and less than one above it up to the relative rounding error 2^-53, as long as the
  estimate is below 2^63 sat/vB; at least 2^62 beyond; and a node's \<open>-1\<close> (no estimate), a NaN or any
  other value that is not positive gives 1.
\<close>

theorem fee_rate_bounds:
  "case x of
     Fin a \<Rightarrow>
       (let q = a * 100000; n = rat_of_int (uint (btc_kb_to_sat_vb x))
        in if q \<le> 1 / 2 ^ 1000 then n = 1
           else if q \<le> 2 ^ 63 then 1 \<le> n \<and> q - q / 2 ^ 53 \<le> n \<and> n < q + q / 2 ^ 53 + 1
           else 2 ^ 62 \<le> n)
   | PInf \<Rightarrow> btc_kb_to_sat_vb x = - 1
   | NInf \<Rightarrow> btc_kb_to_sat_vb x = 1
   | NaN \<Rightarrow> btc_kb_to_sat_vb x = 1"
proof (cases x)
  case (Fin a)
  define q where "q = a * 100000"
  define r where "r = f64_round q"
  have x: "btc_kb_to_sat_vb x = f64_to_u64 (f64_max (f64_ceil (f64_of_rat q)) (Fin 1))"
    by (simp add: btc_kb_to_sat_vb_def Fin q_def)
  have fin: "f64_of_rat q = Fin r" if "- (2 ^ 1024) < r" "r < 2 ^ 1024"
    using that by (simp add: f64_of_rat_def r_def [symmetric] Let_def)
  show ?thesis
  proof (cases "q \<le> 1 / 2 ^ 1000")
    case True
    then have r: "r \<le> 1" using f64_round_tiny by (simp add: r_def)
    then have "r < 2 ^ 1024" "\<lceil>r\<rceil> \<le> 1" by (auto intro: le_less_trans simp: ceiling_le_iff)
    then have "uint (btc_kb_to_sat_vb x) = 1"
    proof (cases "- (2 ^ 1024) < r")
      case True
      then show ?thesis using fin \<open>r < 2 ^ 1024\<close> fee_of_round [of r] r \<open>\<lceil>r\<rceil> \<le> 1\<close> by (simp add: x)
    next
      case False
      then have "f64_of_rat q = NInf" using \<open>r < 2 ^ 1024\<close>
        by (simp add: f64_of_rat_def r_def [symmetric] Let_def)
      then show ?thesis by (simp add: x f64_max_def)
    qed
    with True show ?thesis by (simp add: Fin q_def)
  next
    case big: False
    then have "\<bar>r - q\<bar> \<le> q / 2 ^ 53" using f64_round_relative [of q] by (simp add: r_def)
    then have "r - q \<le> q / 2 ^ 53" "q - r \<le> q / 2 ^ 53" by (simp_all only: abs_le_iff) simp
    then have e: "r \<le> q + q / 9007199254740992" "q - q / 9007199254740992 \<le> r" by simp_all
    have q: "0 < q" using big by (simp add: not_le)
    show ?thesis
    proof (cases "q \<le> 2 ^ 63")
      case True
      then have r: "0 < r" "r \<le> 2 ^ 64 - 1" using e q by simp_all
      then have "r < 2 ^ 1024" by (auto intro: le_less_trans)
      have c: "r \<le> of_int \<lceil>r\<rceil>" "of_int \<lceil>r\<rceil> < r + 1" "1 \<le> \<lceil>r\<rceil>" using r by linarith+
      have "uint (btc_kb_to_sat_vb x) = max \<lceil>r\<rceil> 1"
        using fin r \<open>r < 2 ^ 1024\<close> fee_of_round [of r] by (simp only: x if_True)
      with c have "uint (btc_kb_to_sat_vb x) = \<lceil>r\<rceil>" by simp
      moreover have "q - q / 9007199254740992 \<le> of_int \<lceil>r\<rceil>" "of_int \<lceil>r\<rceil> < q + q / 9007199254740992 + 1"
        using c e by linarith+
      ultimately show ?thesis
        using True big c(3) by (simp add: Fin q_def [symmetric] Let_def)
    next
      case False
      then have r: "2 ^ 62 \<le> r" using e q by simp
      have "2 ^ 62 \<le> uint (btc_kb_to_sat_vb x)"
      proof (cases "r < 2 ^ 1024")
        case True
        have "2 ^ 62 \<le> \<lceil>r\<rceil>" using r by (simp add: le_ceiling_iff)
        then show ?thesis using fin r True fee_of_round [of r] by (simp add: x)
      next
        case False
        then show ?thesis by (simp add: x f64_of_rat_def r_def [symmetric] Let_def f64_max_def uint_u64_max)
      qed
      then have "of_int (2 ^ 62) \<le> rat_of_int (uint (btc_kb_to_sat_vb x))" by (simp only: of_int_le_iff)
      with False big show ?thesis by (simp add: Fin q_def [symmetric] Let_def)
    qed
  qed
next qed (simp_all add: btc_kb_to_sat_vb_def f64_signed_inf_def f64_max_def)

end
