(* ===== verification/Storage.thy ===== *)
theory Storage
  imports Prelude
begin

text \<open>
  The data directory and the two ways the server writes JSON files into it:
  \<open>write_json_atomic\<close> of \<open>server/src/store.rs\<close> (temporary file, mode 0600, rename, every error
  returned) and the best-effort persistence of \<open>server/src/watcher.rs\<close> and \<open>server/src/replay.rs\<close>
  (temporary file, rename, errors dropped). The file system is a partial map from paths to files;
  which system calls fail is chosen by an environment \<open>io_env\<close>, so every statement holds for every
  pattern of failures. JSON text is produced and read by \<open>serde_json\<close>, a parameter: a \<open>codec\<close> per
  stored type, with its round trip as the hypothesis \<open>codec_ok\<close>.
\<close>

section \<open>The file system\<close>

text \<open>A path is a directory and the name of a file in it.\<close>

type_synonym path = "string \<times> string"

record fs_file =
  content :: string
  mode :: nat

type_synonym fs = "path \<rightharpoonup> fs_file"

datatype write_fault = WriteOk | OpenFails | StopsAfter string

record io_env =
  io_write :: write_fault
  io_chmod :: bool
  io_rename :: bool
  io_read :: bool

definition io_fine :: io_env where
  "io_fine = \<lparr>io_write = WriteOk, io_chmod = True, io_rename = True, io_read = True\<rparr>"

datatype io_error = IoError | JsonError

text \<open>\<open>Path::with_extension\<close>: the part of the file name before its last dot, if there is such a
  part, and the new extension.\<close>

definition file_stem :: "string \<Rightarrow> string" where
  "file_stem f =
     (let stem = rev (tl (dropWhile (\<lambda>c. c \<noteq> CHR ''.'') (rev f)))
      in if CHR ''.'' \<notin> set f \<or> stem = [] then f else stem)"

definition with_extension :: "path \<Rightarrow> string \<Rightarrow> path" where
  "with_extension p ext = (fst p, file_stem (snd p) @ ''.'' @ ext)"

text \<open>
  The system calls. Writing a new file gives it the default mode 0644 and an existing one keeps its
  mode; a write can fail before the file is opened or after part of the text went out.
\<close>

datatype syscall =
    SysWrite path string
  | SysChmod path nat
  | SysRename path path

definition put_content :: "path \<Rightarrow> string \<Rightarrow> fs \<Rightarrow> fs" where
  "put_content p s d =
     d(p \<mapsto> \<lparr>content = s, mode = (case d p of None \<Rightarrow> 420 | Some f \<Rightarrow> mode f)\<rparr>)"

fun sys_exec :: "io_env \<Rightarrow> syscall \<Rightarrow> fs \<Rightarrow> bool \<times> fs" where
  "sys_exec io (SysWrite p s) d =
     (case io_write io of
        WriteOk \<Rightarrow> (True, put_content p s d)
      | OpenFails \<Rightarrow> (False, d)
      | StopsAfter t \<Rightarrow> (False, put_content p t d))"
| "sys_exec io (SysChmod p m) d =
     (if io_chmod io
      then (True, d(p := map_option (\<lambda>f. f\<lparr>mode := m\<rparr>) (d p)))
      else (False, d))"
| "sys_exec io (SysRename p q) d =
     (if io_rename io then (True, d(q := d p, p := None)) else (False, d))"

text \<open>The \<open>?\<close> operator after each call: the first failure ends the sequence.\<close>

fun run_syscalls :: "io_env \<Rightarrow> syscall list \<Rightarrow> fs \<Rightarrow> bool \<times> fs" where
  "run_syscalls io [] d = (True, d)"
| "run_syscalls io (c # cs) d =
     (case sys_exec io c d of
        (False, d') \<Rightarrow> (False, d')
      | (True, d') \<Rightarrow> run_syscalls io cs d')"

section \<open>Writing and loading JSON files\<close>

record 'v codec =
  enc :: "'v \<Rightarrow> string option"
  dec :: "string \<Rightarrow> 'v option"

definition codec_ok :: "'v codec \<Rightarrow> bool" where
  "codec_ok c \<longleftrightarrow> (\<forall>v s. enc c v = Some s \<longrightarrow> dec c s = Some v)"

text \<open>A codec of a collection type returns well-formed collections only.\<close>

definition typed_codec :: "('v \<Rightarrow> bool) \<Rightarrow> 'v codec \<Rightarrow> bool" where
  "typed_codec good c \<longleftrightarrow> codec_ok c \<and> (\<forall>s v. dec c s = Some v \<longrightarrow> good v)"

definition write_json_calls :: "path \<Rightarrow> string \<Rightarrow> syscall list" where
  "write_json_calls p s =
     (let tmp = with_extension p ''tmp''
      in [SysWrite tmp s, SysChmod tmp 384, SysRename tmp p])"

definition write_json_atomic ::
    "'v codec \<Rightarrow> io_env \<Rightarrow> path \<Rightarrow> 'v \<Rightarrow> fs \<Rightarrow> (io_error + unit) \<times> fs" where
  "write_json_atomic c io p v d =
     (case enc c v of
        None \<Rightarrow> (Inl JsonError, d)
      | Some s \<Rightarrow>
          (case run_syscalls io (write_json_calls p s) d of
             (True, d') \<Rightarrow> (Inr (), d')
           | (False, d') \<Rightarrow> (Inl IoError, d')))"

text \<open>The flag says whether the new text reached the file; the callers ignore it.\<close>

definition persist_best_effort ::
    "'v codec \<Rightarrow> io_env \<Rightarrow> path \<Rightarrow> 'v \<Rightarrow> fs \<Rightarrow> bool \<times> fs" where
  "persist_best_effort c io p v d =
     (case enc c v of
        None \<Rightarrow> (False, d)
      | Some s \<Rightarrow>
          (let tmp = with_extension p ''tmp''
           in run_syscalls io [SysWrite tmp s, SysRename tmp p] d))"

text \<open>\<open>fs::read_to_string\<close> and the match every loader makes on its result.\<close>

datatype read_result = Contents string | NotFound | ReadFails

definition read_to_string :: "io_env \<Rightarrow> path \<Rightarrow> fs \<Rightarrow> read_result" where
  "read_to_string io p d =
     (case d p of
        None \<Rightarrow> NotFound
      | Some f \<Rightarrow> if io_read io then Contents (content f) else ReadFails)"

definition load_json :: "'v codec \<Rightarrow> 'v \<Rightarrow> io_env \<Rightarrow> path \<Rightarrow> fs \<Rightarrow> io_error + 'v" where
  "load_json c dflt io p d =
     (case read_to_string io p d of
        Contents s \<Rightarrow> (case dec c s of None \<Rightarrow> Inl JsonError | Some v \<Rightarrow> Inr v)
      | NotFound \<Rightarrow> Inr dflt
      | ReadFails \<Rightarrow> Inl IoError)"

section \<open>Laws\<close>

definition proper_target :: "path \<Rightarrow> bool" where
  "proper_target p \<longleftrightarrow> with_extension p ''tmp'' \<noteq> p"

lemma put_content_other [simp]: "q \<noteq> p \<Longrightarrow> put_content p s d q = d q"
  by (simp add: put_content_def)

lemma put_content_same [simp]: "put_content p s d p =
    Some \<lparr>content = s, mode = (case d p of None \<Rightarrow> 420 | Some f \<Rightarrow> mode f)\<rparr>"
  by (simp add: put_content_def)

lemma write_json_ok:
  assumes "write_json_atomic c io p v d = (Inr u, d')" "proper_target p"
  obtains s where "enc c v = Some s" "d' p = Some \<lparr>content = s, mode = 384\<rparr>"
  using assms
  by (auto simp: write_json_atomic_def write_json_calls_def Let_def proper_target_def
      split: option.splits write_fault.splits prod.splits bool.splits if_splits)

lemma write_json_err:
  assumes "write_json_atomic c io p v d = (Inl e, d')" "proper_target p"
  shows "d' p = d p"
  using assms
  by (auto simp: write_json_atomic_def write_json_calls_def Let_def proper_target_def
      split: option.splits write_fault.splits prod.splits bool.splits if_splits)

lemma write_json_frame:
  assumes "q \<noteq> p" "q \<noteq> with_extension p ''tmp''"
  shows "snd (write_json_atomic c io p v d) q = d q"
  using assms
  by (auto simp: write_json_atomic_def write_json_calls_def Let_def
      split: option.splits write_fault.splits prod.splits bool.splits if_splits)

lemma persist_ok:
  assumes "persist_best_effort c io p v d = (True, d')" "proper_target p"
  obtains s m where "enc c v = Some s" "d' p = Some \<lparr>content = s, mode = m\<rparr>"
  using assms
  by (auto simp: persist_best_effort_def Let_def proper_target_def
      split: option.splits write_fault.splits prod.splits bool.splits if_splits)

lemma persist_err:
  assumes "persist_best_effort c io p v d = (False, d')" "proper_target p"
  shows "d' p = d p"
  using assms
  by (auto simp: persist_best_effort_def Let_def proper_target_def
      split: option.splits write_fault.splits prod.splits bool.splits if_splits)

lemma persist_frame:
  assumes "q \<noteq> p" "q \<noteq> with_extension p ''tmp''"
  shows "snd (persist_best_effort c io p v d) q = d q"
  using assms
  by (auto simp: persist_best_effort_def Let_def
      split: option.splits write_fault.splits prod.splits bool.splits if_splits)

lemma load_json_cong: "d p = d' p \<Longrightarrow> load_json c v0 io p d = load_json c v0 io p d'"
  by (simp add: load_json_def read_to_string_def)

lemma load_json_stored:
  "codec_ok c \<Longrightarrow> enc c v = Some s \<Longrightarrow> io_read io \<Longrightarrow> d p = Some \<lparr>content = s, mode = m\<rparr> \<Longrightarrow>
     load_json c v0 io p d = Inr v"
  by (simp add: load_json_def read_to_string_def codec_ok_def)

lemma load_json_wf:
  "typed_codec good c \<Longrightarrow> good v0 \<Longrightarrow> load_json c v0 io p d = Inr v \<Longrightarrow> good v"
  by (auto simp: load_json_def typed_codec_def split: read_result.splits option.splits)

section \<open>The contract of a durable store\<close>

text \<open>
  What the stores rely on: a save that reports success is what the next load returns, and a save
  that fails leaves what a load returns unchanged. Its consequence for a whole life of the server is
  proved once: after any sequence of saves, failing or not, a restart loads the last value whose
  save succeeded.
\<close>

fun save_seq :: "(io_env \<Rightarrow> 'v \<Rightarrow> fs \<Rightarrow> bool \<times> fs) \<Rightarrow> (io_env \<times> 'v) list \<Rightarrow> fs \<Rightarrow> fs" where
  "save_seq save [] d = d"
| "save_seq save ((io, v) # ops) d = save_seq save ops (snd (save io v d))"

fun last_saved ::
    "(io_env \<Rightarrow> 'v \<Rightarrow> fs \<Rightarrow> bool \<times> fs) \<Rightarrow> (io_env \<times> 'v) list \<Rightarrow> fs \<Rightarrow> 'v option \<Rightarrow> 'v option" where
  "last_saved save [] d acc = acc"
| "last_saved save ((io, v) # ops) d acc =
     last_saved save ops (snd (save io v d)) (if fst (save io v d) then Some v else acc)"

locale durable_store =
  fixes save :: "io_env \<Rightarrow> 'v \<Rightarrow> fs \<Rightarrow> bool \<times> fs"
    and load :: "io_env \<Rightarrow> fs \<Rightarrow> io_error + 'v"
    and usable :: bool
  assumes save_ok: "usable \<Longrightarrow> io_read rio \<Longrightarrow> fst (save io v d) \<Longrightarrow> load rio (snd (save io v d)) = Inr v"
    and save_err: "usable \<Longrightarrow> \<not> fst (save io v d) \<Longrightarrow> load rio (snd (save io v d)) = load rio d"
begin

lemma load_after_saves:
  assumes "usable" "io_read rio"
    and "case acc of None \<Rightarrow> load rio d = r0 | Some v \<Rightarrow> load rio d = Inr v"
  shows "load rio (save_seq save ops d) =
    (case last_saved save ops d acc of None \<Rightarrow> r0 | Some v \<Rightarrow> Inr v)"
  using assms(3)
proof (induction ops arbitrary: d acc)
  case Nil
  then show ?case by (simp split: option.splits)
next
  case (Cons op ops)
  obtain io v where op: "op = (io, v)" by (cases op)
  show ?case
  proof (cases "fst (save io v d)")
    case True
    then show ?thesis
      using Cons.IH [of "snd (save io v d)" "Some v"] save_ok [OF assms(1,2) True] by (simp add: op)
  next
    case False
    then show ?thesis
      using Cons.IH [of "snd (save io v d)" acc] Cons.prems save_err [OF assms(1) False, of rio]
      by (cases acc) (simp_all add: op)
  qed
qed

end

definition save_atomic :: "'v codec \<Rightarrow> path \<Rightarrow> io_env \<Rightarrow> 'v \<Rightarrow> fs \<Rightarrow> bool \<times> fs" where
  "save_atomic c p io v d = (case write_json_atomic c io p v d of (r, d') \<Rightarrow> (r = Inr (), d'))"

definition usable_store :: "'v codec \<Rightarrow> path \<Rightarrow> bool" where
  "usable_store c p \<longleftrightarrow> codec_ok c \<and> proper_target p"

interpretation atomic_file: durable_store
  "save_atomic c p" "\<lambda>rio d. load_json c v0 rio p d" "usable_store c p" for c p v0
proof
  fix rio io :: io_env and v d
  assume u: "usable_store c p"
  { assume r: "io_read rio" and ok: "fst (save_atomic c p io v d)"
    obtain x d' where w: "write_json_atomic c io p v d = (x, d')" by fastforce
    with ok have "x = Inr ()" by (simp add: save_atomic_def)
    with w u obtain s where "enc c v = Some s" "d' p = Some \<lparr>content = s, mode = 384\<rparr>"
      by (auto simp: usable_store_def elim: write_json_ok)
    with u r w show "load_json c v0 rio p (snd (save_atomic c p io v d)) = Inr v"
      by (auto simp: save_atomic_def usable_store_def intro: load_json_stored) }
  { assume "\<not> fst (save_atomic c p io v d)"
    with u have "snd (save_atomic c p io v d) p = d p"
      by (cases "write_json_atomic c io p v d"; cases "fst (write_json_atomic c io p v d)")
        (auto simp: save_atomic_def usable_store_def dest: write_json_err)
    then show "load_json c v0 rio p (snd (save_atomic c p io v d)) = load_json c v0 rio p d"
      by (rule load_json_cong) }
qed

interpretation best_effort_file: durable_store
  "\<lambda>io v d. persist_best_effort c io p v d" "\<lambda>rio d. load_json c v0 rio p d" "usable_store c p" for c p v0
proof
  fix rio io :: io_env and v d
  assume u: "usable_store c p"
  obtain b d' where w: "persist_best_effort c io p v d = (b, d')" by fastforce
  { assume r: "io_read rio" and ok: "fst (persist_best_effort c io p v d)"
    with w u obtain s m where "enc c v = Some s" "d' p = Some \<lparr>content = s, mode = m\<rparr>"
      by (auto simp: usable_store_def elim: persist_ok)
    with u r w show "load_json c v0 rio p (snd (persist_best_effort c io p v d)) = Inr v"
      by (auto simp: usable_store_def intro: load_json_stored) }
  { assume "\<not> fst (persist_best_effort c io p v d)"
    with u w have "snd (persist_best_effort c io p v d) p = d p"
      by (auto simp: usable_store_def dest: persist_err)
    then show "load_json c v0 rio p (snd (persist_best_effort c io p v d)) = load_json c v0 rio p d"
      by (rule load_json_cong) }
qed

section \<open>Properties\<close>

lemmas storage_eval = save_atomic_def write_json_atomic_def write_json_calls_def Let_def
  persist_best_effort_def load_json_def read_to_string_def with_extension_def file_stem_def
  io_fine_def put_content_def

text \<open>
  C31. Crash atomicity of \<open>write_json_atomic\<close>: stop the writer after any number of its system
  calls, let any of them fail or a write stop half way, and the target file still holds either
  exactly what it held before or exactly the complete new text with mode 0600; no mixture is ever
  visible under the target's name.
\<close>

theorem write_json_atomic_crash_safe:
  assumes "proper_target p"
  shows "snd (run_syscalls io (take k (write_json_calls p s)) d) p
           \<in> {d p, Some \<lparr>content = s, mode = 384\<rparr>}"
proof -
  have "k = 0 \<or> k = 1 \<or> k = 2 \<or> 3 \<le> k" by arith
  then show ?thesis
    using assms
    by (auto simp: write_json_calls_def Let_def proper_target_def numeral_2_eq_2 numeral_3_eq_3
        split: write_fault.splits prod.splits bool.splits if_splits)
qed

theorem write_json_atomic_crash_safe_witness:
  "snd (run_syscalls io_fine (take 2 (write_json_calls (''/data'', ''w.json'') ''[]'')) Map.empty)
     (''/data'', ''w.json'') \<in> {None, Some \<lparr>content = ''[]'', mode = 384\<rparr>}"
proof -
  have "proper_target (''/data'', ''w.json'')"
    by (simp add: proper_target_def with_extension_def file_stem_def)
  from write_json_atomic_crash_safe [OF this, of io_fine 2 "''[]''" Map.empty]
  show ?thesis by simp
qed

text \<open>
  Durability: after any sequence of \<open>write_json_atomic\<close> calls on a store's file, each with its
  own pattern of system call failures, loading the file returns the last value whose write
  reported success, or what it returned before the sequence when no write succeeded.
\<close>

theorem restart_loads_last_saved:
  assumes "codec_ok c" "proper_target p" "io_read rio"
  shows "load_json c v0 rio p (save_seq (save_atomic c p) ops d) =
    (case last_saved (save_atomic c p) ops d None of
       None \<Rightarrow> load_json c v0 rio p d | Some v \<Rightarrow> Inr v)"
  using assms by (intro atomic_file.load_after_saves) (simp_all add: usable_store_def)

definition unit_codec :: "unit codec" where
  "unit_codec = \<lparr>enc = (\<lambda>_. Some ''null''), dec = (\<lambda>s. if s = ''null'' then Some () else None)\<rparr>"

theorem restart_loads_last_saved_witness:
  "load_json unit_codec () io_fine (''/data'', ''w.json'')
     (save_seq (save_atomic unit_codec (''/data'', ''w.json''))
        [(io_fine, ()), (io_fine\<lparr>io_rename := False\<rparr>, ())] Map.empty) = Inr ()"
proof -
  have "codec_ok unit_codec" "proper_target (''/data'', ''w.json'')" "io_read io_fine"
    by (simp_all add: codec_ok_def unit_codec_def proper_target_def with_extension_def
        file_stem_def io_fine_def)
  from restart_loads_last_saved [OF this, of "()" "[(io_fine, ()), (io_fine\<lparr>io_rename := False\<rparr>, ())]"
      Map.empty]
  show ?thesis by (simp add: storage_eval unit_codec_def)
qed

end
