(* ===== verification/Stores.thy ===== *)
theory Stores
  imports Storage
begin

text \<open>
  \<open>server/src/store.rs\<close>: the allowlist of paired wallets and the watch sets per wallet. Each keeps
  its collection in memory behind a mutex and writes the whole of it with \<open>write_json_atomic\<close> after a
  change; the memory is changed before the write, so a failed write leaves memory ahead of the file.
  An operation takes the store and the file system and returns its result, the store and the file
  system.
\<close>

section \<open>The allowlist\<close>

definition ALLOWLIST_FILE :: string where
  "ALLOWLIST_FILE = ''paired_wallets.json''"

definition WATCHSETS_FILE :: string where
  "WATCHSETS_FILE = ''watch_sets.json''"

record allowlist =
  al_path :: path
  al_wallets :: "string list"

definition al_load :: "string list codec \<Rightarrow> io_env \<Rightarrow> string \<Rightarrow> fs \<Rightarrow> io_error + allowlist" where
  "al_load c io dir d =
     (let p = (dir, ALLOWLIST_FILE)
      in case load_json c [] io p d of
           Inl e \<Rightarrow> Inl e
         | Inr w \<Rightarrow> Inr \<lparr>al_path = p, al_wallets = w\<rparr>)"

definition is_paired :: "allowlist \<Rightarrow> string \<Rightarrow> bool" where
  "is_paired al pk \<longleftrightarrow> pk \<in> set (al_wallets al)"

definition al_add ::
    "string list codec \<Rightarrow> io_env \<Rightarrow> string \<Rightarrow> allowlist \<Rightarrow> fs \<Rightarrow> (io_error + unit) \<times> allowlist \<times> fs" where
  "al_add c io pk al d =
     (let w = insort_insert pk (al_wallets al)
      in case write_json_atomic c io (al_path al) w d of
           (r, d') \<Rightarrow> (r, al\<lparr>al_wallets := w\<rparr>, d'))"

definition al_remove ::
    "string list codec \<Rightarrow> io_env \<Rightarrow> string \<Rightarrow> allowlist \<Rightarrow> fs \<Rightarrow> (io_error + bool) \<times> allowlist \<times> fs" where
  "al_remove c io pk al d =
     (let removed = pk \<in> set (al_wallets al);
          w = remove1 pk (al_wallets al)
      in if removed then
           (case write_json_atomic c io (al_path al) w d of
              (Inl e, d') \<Rightarrow> (Inl e, al\<lparr>al_wallets := w\<rparr>, d')
            | (Inr _, d') \<Rightarrow> (Inr True, al\<lparr>al_wallets := w\<rparr>, d'))
         else (Inr False, al\<lparr>al_wallets := w\<rparr>, d))"

definition al_list :: "allowlist \<Rightarrow> string list" where
  "al_list al = al_wallets al"

definition al_ok :: "allowlist \<Rightarrow> bool" where
  "al_ok al \<longleftrightarrow> bts_ok (al_wallets al)"

section \<open>The watch sets\<close>

record watch_store =
  ws_path :: path
  ws_sets :: "(string, string list) btree_map"

definition ws_load ::
    "(string, string list) btree_map codec \<Rightarrow> io_env \<Rightarrow> string \<Rightarrow> fs \<Rightarrow> io_error + watch_store" where
  "ws_load c io dir d =
     (let p = (dir, WATCHSETS_FILE)
      in case load_json c [] io p d of
           Inl e \<Rightarrow> Inl e
         | Inr s \<Rightarrow> Inr \<lparr>ws_path = p, ws_sets = s\<rparr>)"

definition ws_replace ::
    "(string, string list) btree_map codec \<Rightarrow> io_env \<Rightarrow> string \<Rightarrow> string list \<Rightarrow> watch_store \<Rightarrow> fs
       \<Rightarrow> (io_error + nat) \<times> watch_store \<times> fs" where
  "ws_replace c io pk addresses ws d =
     (let len = length addresses;
          s = (if addresses = [] then btm_remove pk (ws_sets ws)
               else btm_insert pk addresses (ws_sets ws))
      in case write_json_atomic c io (ws_path ws) s d of
           (Inl e, d') \<Rightarrow> (Inl e, ws\<lparr>ws_sets := s\<rparr>, d')
         | (Inr _, d') \<Rightarrow> (Inr len, ws\<lparr>ws_sets := s\<rparr>, d'))"

definition ws_remove_wallet ::
    "(string, string list) btree_map codec \<Rightarrow> io_env \<Rightarrow> string \<Rightarrow> watch_store \<Rightarrow> fs
       \<Rightarrow> (io_error + unit) \<times> watch_store \<times> fs" where
  "ws_remove_wallet c io pk ws d =
     (let s = btm_remove pk (ws_sets ws)
      in if map_of (ws_sets ws) pk \<noteq> None then
           (case write_json_atomic c io (ws_path ws) s d of
              (r, d') \<Rightarrow> (r, ws\<lparr>ws_sets := s\<rparr>, d'))
         else (Inr (), ws\<lparr>ws_sets := s\<rparr>, d))"

definition ws_snapshot :: "watch_store \<Rightarrow> (string, string list) btree_map" where
  "ws_snapshot ws = ws_sets ws"

text \<open>Sorted keys without duplicates. (A file may list a wallet with no addresses; \<open>replace\<close> never writes that.)\<close>

definition ws_ok :: "watch_store \<Rightarrow> bool" where
  "ws_ok ws \<longleftrightarrow> btm_ok (ws_sets ws)"

section \<open>The contract the transport relies on\<close>

text \<open>
  What a registry of wallets promises to its client, whatever its storage does: membership after
  each operation, and a truthful answer of \<open>remove\<close>. From it, once: after any sequence of
  operations the members are those of the abstract set.
\<close>

datatype reg_op = RegAdd io_env string | RegRemove io_env string

fun reg_spec :: "string set \<Rightarrow> reg_op \<Rightarrow> string set" where
  "reg_spec S (RegAdd io k) = insert k S"
| "reg_spec S (RegRemove io k) = S - {k}"

fun reg_step ::
    "(io_env \<Rightarrow> string \<Rightarrow> 'r \<Rightarrow> fs \<Rightarrow> (io_error + unit) \<times> 'r \<times> fs)
       \<Rightarrow> (io_env \<Rightarrow> string \<Rightarrow> 'r \<Rightarrow> fs \<Rightarrow> (io_error + bool) \<times> 'r \<times> fs)
       \<Rightarrow> 'r \<times> fs \<Rightarrow> reg_op \<Rightarrow> bool \<times> 'r \<times> fs" where
  "reg_step add remove (r, d) (RegAdd io k) =
     (case add io k r d of (Inl e, s) \<Rightarrow> (False, s) | (Inr x, s) \<Rightarrow> (True, s))"
| "reg_step add remove (r, d) (RegRemove io k) =
     (case remove io k r d of (Inl e, s) \<Rightarrow> (False, s) | (Inr x, s) \<Rightarrow> (True, s))"

lemma reg_step_state:
  "snd (reg_step add remove (r, d) (RegAdd io k)) = snd (add io k r d)"
  "snd (reg_step add remove (r, d) (RegRemove io k)) = snd (remove io k r d)"
  by (simp_all split: prod.splits sum.splits)

locale registry =
  fixes member :: "'r \<Rightarrow> string \<Rightarrow> bool"
    and add :: "io_env \<Rightarrow> string \<Rightarrow> 'r \<Rightarrow> fs \<Rightarrow> (io_error + unit) \<times> 'r \<times> fs"
    and remove :: "io_env \<Rightarrow> string \<Rightarrow> 'r \<Rightarrow> fs \<Rightarrow> (io_error + bool) \<times> 'r \<times> fs"
    and ok :: "'r \<Rightarrow> bool"
  assumes member_add: "ok r \<Longrightarrow> member (fst (snd (add io k r d))) q \<longleftrightarrow> q = k \<or> member r q"
    and member_remove: "ok r \<Longrightarrow> member (fst (snd (remove io k r d))) q \<longleftrightarrow> q \<noteq> k \<and> member r q"
    and remove_answer: "ok r \<Longrightarrow> fst (remove io k r d) = Inr b \<Longrightarrow> b = member r k"
    and remove_error: "ok r \<Longrightarrow> fst (remove io k r d) = Inl e \<Longrightarrow> member r k"
    and ok_add: "ok r \<Longrightarrow> ok (fst (snd (add io k r d)))"
    and ok_remove: "ok r \<Longrightarrow> ok (fst (snd (remove io k r d)))"
begin

lemma reg_step_spec:
  assumes "ok (fst s)"
  shows "ok (fst (snd (reg_step add remove s e))) \<and>
    Collect (member (fst (snd (reg_step add remove s e)))) = reg_spec (Collect (member (fst s))) e"
proof (cases s)
  case (Pair r d)
  show ?thesis
  proof (cases e)
    case (RegAdd io k)
    show ?thesis
      using assms unfolding Pair RegAdd reg_step_state
      by (simp add: ok_add) (auto simp: member_add)
  next
    case (RegRemove io k)
    show ?thesis
      using assms unfolding Pair RegRemove reg_step_state
      by (simp add: ok_remove) (auto simp: member_remove)
  qed
qed

lemma run_spec:
  "ok (fst s) \<Longrightarrow>
     ok (fst (snd (exec (reg_step add remove) s es))) \<and>
     Collect (member (fst (snd (exec (reg_step add remove) s es)))) =
       foldl reg_spec (Collect (member (fst s))) es"
proof (induction es arbitrary: s)
  case Nil
  then show ?case by simp
next
  case (Cons e es)
  then show ?case
    using reg_step_spec [of s e] Cons.IH [of "snd (reg_step add remove s e)"]
    by (simp only: exec_Cons foldl_Cons snd_conv)
qed

end

interpretation al: registry is_paired "al_add c" "al_remove c" al_ok for c
  by unfold_locales
    (auto simp: al_add_def al_remove_def is_paired_def al_ok_def Let_def set_insort_insert
      bts_set_remove split: prod.splits sum.splits if_splits)

definition al_step :: "string list codec \<Rightarrow> allowlist \<times> fs \<Rightarrow> reg_op \<Rightarrow> bool \<times> allowlist \<times> fs" where
  "al_step c = reg_step (al_add c) (al_remove c)"

section \<open>Laws\<close>

lemma allowlist_path_proper: "proper_target (dir, ALLOWLIST_FILE)"
  by (simp add: proper_target_def with_extension_def ALLOWLIST_FILE_def file_stem_def)

lemma watchsets_path_proper: "proper_target (dir, WATCHSETS_FILE)"
  by (simp add: proper_target_def with_extension_def WATCHSETS_FILE_def file_stem_def)

lemma al_load_Inr:
  "al_load c io dir d = Inr al \<longleftrightarrow>
     load_json c [] io (dir, ALLOWLIST_FILE) d = Inr (al_wallets al) \<and> al_path al = (dir, ALLOWLIST_FILE)"
  by (auto simp: al_load_def Let_def split: sum.splits)

lemma al_load_ok: "typed_codec bts_ok c \<Longrightarrow> al_load c io dir d = Inr al \<Longrightarrow> al_ok al"
  unfolding al_load_Inr al_ok_def by (blast intro: load_json_wf [where good = bts_ok, OF _ bts_ok_Nil])

text \<open>What a successful and a failed write leave on disk, for the write of either store.\<close>

lemma written_loads:
  assumes "typed_codec good c" "proper_target p" "io_read rio" "write_json_atomic c io p v d = (Inr u, d')"
  shows "load_json c v0 rio p d' = Inr v"
proof -
  from assms(2,4) obtain s where "enc c v = Some s" "d' p = Some \<lparr>content = s, mode = 384\<rparr>"
    by (auto elim: write_json_ok)
  with assms(1,3) show ?thesis
    by (auto simp: typed_codec_def intro: load_json_stored)
qed

lemma unwritten_loads:
  "proper_target p \<Longrightarrow> write_json_atomic c io p v d = (Inl e, d') \<Longrightarrow>
     load_json c v0 rio p d' = load_json c v0 rio p d"
  by (blast intro: load_json_cong write_json_err)

lemma al_step_synced:
  assumes "typed_codec bts_ok c" "io_read rio" "al_load c rio dir (snd s) = Inr (fst s)"
    and "fst (al_step c s e)"
  shows "al_load c rio dir (snd (snd (al_step c s e))) = Inr (fst (snd (al_step c s e)))"
  using assms
  by (cases s; cases e)
    (auto simp: al_step_def al_load_Inr al_add_def al_remove_def Let_def allowlist_path_proper
      remove1_idem split: prod.splits sum.splits if_splits
      intro: written_loads)

text \<open>What the two changing operations of the watch store leave in memory.\<close>

lemma ws_replace_memory:
  assumes "ws_ok ws" "ws_replace c io pk addrs ws d = (r, ws', d')"
  shows "ws_ok ws' \<and> ws_path ws' = ws_path ws \<and>
    map_of (ws_sets ws') = (map_of (ws_sets ws))(pk := (if addrs = [] then None else Some addrs))"
proof -
  have "ws' = ws\<lparr>ws_sets := (if addrs = [] then btm_remove pk (ws_sets ws) else btm_insert pk addrs (ws_sets ws))\<rparr>"
    using assms(2) by (auto simp: ws_replace_def Let_def split: prod.splits sum.splits)
  then show ?thesis
    using assms(1) by (auto simp: ws_ok_def)
qed

lemma ws_remove_memory:
  assumes "ws_ok ws" "ws_remove_wallet c io pk ws d = (r, ws', d')"
  shows "ws_ok ws' \<and> ws_path ws' = ws_path ws \<and> map_of (ws_sets ws') = (map_of (ws_sets ws))(pk := None)"
proof -
  have "ws' = ws\<lparr>ws_sets := btm_remove pk (ws_sets ws)\<rparr>"
    using assms(2) by (auto simp: ws_remove_wallet_def Let_def split: prod.splits if_splits)
  then show ?thesis
    using assms(1) by (auto simp: ws_ok_def)
qed

section \<open>Properties\<close>

text \<open>
  The allowlist refines a set: after any sequence of pairings and removals, started from a
  well-formed list, with any of their file writes failing, \<open>is_paired\<close> answers exactly membership in
  the set obtained by the abstract insertions and deletions.
\<close>

theorem allowlist_refines_set:
  assumes "al_ok al"
  shows "{q. is_paired (fst (snd (exec (al_step c) (al, d) ops))) q}
           = foldl reg_spec {q. is_paired al q} ops"
  using al.run_spec [of "(al, d)" c ops] assms by (simp add: al_step_def)

definition sample_al :: allowlist where
  "sample_al = \<lparr>al_path = (''/data'', ALLOWLIST_FILE), al_wallets = [''aa'']\<rparr>"


text \<open>
  Pairings survive a restart: start from the allowlist as loaded from disk and run any sequence
  of pairings and removals each of which reports success; loading the file again gives exactly the
  allowlist in memory.
\<close>

theorem allowlist_survives_restart:
  assumes "typed_codec bts_ok c" "io_read rio" "al_load c rio dir d = Inr al"
    and "exec (al_step c) (al, d) ops = (oks, al', d')" "set oks \<subseteq> {True}"
  shows "al_load c rio dir d' = Inr al'"
  using assms(3-)
proof (induction ops arbitrary: al d oks)
  case Nil
  then show ?case by simp
next
  case (Cons e ops)
  obtain b al1 d1 where step: "al_step c (al, d) e = (b, al1, d1)" by (metis prod_cases3)
  obtain bs where rest: "exec (al_step c) (al1, d1) ops = (bs, al', d')" and oks: "oks = b # bs"
    using Cons.prems(2) step by (auto simp: Let_def split: prod.splits)
  from oks Cons.prems(3) have b: "b" and bs: "set bs \<subseteq> {True}" by auto
  have "al_load c rio dir d1 = Inr al1"
    using al_step_synced [OF assms(1,2), of dir "(al, d)" e] Cons.prems(1) step b by simp
  from Cons.IH [OF this rest bs] show ?case .
qed

definition sample_codec :: "'v \<Rightarrow> 'v codec" where
  "sample_codec v = \<lparr>enc = (\<lambda>x. if x = v then Some ''v'' else None),
     dec = (\<lambda>s. if s = ''v'' then Some v else None)\<rparr>"

lemma sample_codec_typed: "good v \<Longrightarrow> typed_codec good (sample_codec v)"
  by (simp add: typed_codec_def codec_ok_def sample_codec_def)

theorem allowlist_refines_set_witness:
  "{q. is_paired (fst (snd (exec (al_step (sample_codec [''aa''])) (sample_al, Map.empty)
      [RegAdd (io_fine\<lparr>io_write := OpenFails\<rparr>) ''bb'', RegRemove io_fine ''aa'']))) q} = {''bb''}"
proof -
  have "al_ok sample_al" by (simp add: al_ok_def sample_al_def bts_ok_def)
  from allowlist_refines_set [OF this,
      of "sample_codec [''aa'']" Map.empty "[RegAdd (io_fine\<lparr>io_write := OpenFails\<rparr>) ''bb'', RegRemove io_fine ''aa'']"]
  show ?thesis by (auto simp: sample_al_def is_paired_def)
qed

theorem allowlist_survives_restart_witness:
  "\<exists>d'. al_load (sample_codec [''aa'']) io_fine ''/data'' d' =
     Inr \<lparr>al_path = (''/data'', ALLOWLIST_FILE), al_wallets = [''aa'']\<rparr>"
proof -
  let ?c = "sample_codec [''aa'']" and ?p = "(''/data'', ALLOWLIST_FILE)"
  let ?al = "\<lparr>al_path = ?p, al_wallets = []\<rparr>"
  have t: "typed_codec bts_ok ?c" by (rule sample_codec_typed) (simp add: bts_ok_def)
  have r: "io_read io_fine" by (simp add: io_fine_def)
  have l: "al_load ?c io_fine ''/data'' Map.empty = Inr ?al"
    by (simp add: al_load_def load_json_def read_to_string_def)
  have "\<exists>d'. al_step ?c (?al, Map.empty) (RegAdd io_fine ''aa'') = (True, \<lparr>al_path = ?p, al_wallets = [''aa'']\<rparr>, d')"
    by (simp add: al_step_def al_add_def write_json_atomic_def write_json_calls_def io_fine_def sample_codec_def
        Let_def insort_insert_key_def)
  then obtain d' where e: "exec (al_step ?c) (?al, Map.empty) [RegAdd io_fine ''aa'']
      = ([True], \<lparr>al_path = ?p, al_wallets = [''aa'']\<rparr>, d')"
    by auto
  show ?thesis using allowlist_survives_restart [OF t r l e] by auto
qed

text \<open>
  A pairing whose file write fails is a pairing of this process only: \<open>add\<close> returns the error,
  the wallet is paired in memory from then on, and what a restart would load is unchanged.
\<close>

theorem failed_add_only_in_memory:
  assumes "al_path al = (dir, ALLOWLIST_FILE)" "al_add c io pk al d = (Inl e, al', d')"
  shows "is_paired al' pk \<and> al_load c rio dir d' = al_load c rio dir d"
proof -
  from assms(2) obtain w where w: "write_json_atomic c io (al_path al) w d = (Inl e, d')"
    and "al' = al\<lparr>al_wallets := w\<rparr>" "w = insort_insert pk (al_wallets al)"
    by (auto simp: al_add_def Let_def split: prod.splits)
  moreover from w assms(1) have "load_json c [] rio (dir, ALLOWLIST_FILE) d' =
      load_json c [] rio (dir, ALLOWLIST_FILE) d"
    by (metis unwritten_loads allowlist_path_proper)
  ultimately show ?thesis
    by (simp add: is_paired_def set_insort_insert al_load_def)
qed

theorem failed_add_only_in_memory_witness:
  "\<exists>al' d'. is_paired al' ''bb'' \<and>
     al_load (sample_codec [''aa'']) io_fine ''/data'' d' =
     al_load (sample_codec [''aa'']) io_fine ''/data'' Map.empty"
proof -
  obtain al' d' where "al_add (sample_codec [''aa'']) (io_fine\<lparr>io_rename := False\<rparr>) ''bb'' sample_al Map.empty
      = (Inl JsonError, al', d')"
    by (simp add: al_add_def write_json_atomic_def sample_codec_def sample_al_def insort_insert_key_def)
  with failed_add_only_in_memory [of sample_al "''/data''"] show ?thesis
    by (metis sample_al_def allowlist.select_convs(1))
qed

text \<open>
  Replace semantics of a watch set (PROTOCOL 5.8): on a well-formed store, whether or not the
  write succeeds, the sender's set becomes exactly the given list (absent when empty), every other
  wallet's set is untouched and the store stays well formed; a success reports the length of the
  list, and a restart then loads exactly the new sets.
\<close>

theorem ws_replace_correct:
  assumes "ws_ok ws" "ws_path ws = (dir, WATCHSETS_FILE)" "typed_codec btm_ok c" "io_read rio"
    and "ws_replace c io pk addrs ws d = (r, ws', d')"
  shows "ws_ok ws' \<and>
     map_of (ws_snapshot ws') = (map_of (ws_snapshot ws))(pk := (if addrs = [] then None else Some addrs)) \<and>
     (case r of Inr n \<Rightarrow> n = length addrs \<and> ws_load c rio dir d' = Inr ws'
      | Inl e \<Rightarrow> ws_load c rio dir d' = ws_load c rio dir d)"
proof -
  define s where "s = (if addrs = [] then btm_remove pk (ws_sets ws) else btm_insert pk addrs (ws_sets ws))"
  have ws': "ws' = ws\<lparr>ws_sets := s\<rparr>"
    using assms(5) by (auto simp: ws_replace_def s_def Let_def split: prod.splits sum.splits)
  obtain x where x: "write_json_atomic c io (dir, WATCHSETS_FILE) s d = (x, d')"
    and r: "r = (case x of Inl e \<Rightarrow> Inl e | Inr _ \<Rightarrow> Inr (length addrs))"
    using assms(2,5) by (auto simp: ws_replace_def s_def [symmetric] Let_def split: prod.splits sum.splits)
  have "case r of Inr n \<Rightarrow> n = length addrs \<and> ws_load c rio dir d' = Inr ws'
      | Inl e \<Rightarrow> ws_load c rio dir d' = ws_load c rio dir d"
  proof (cases x)
    case (Inl e)
    then show ?thesis
      using x r unwritten_loads [OF watchsets_path_proper, of c io dir s d e d' "[]" rio]
      by (simp add: ws_load_def)
  next
    case (Inr u)
    then show ?thesis
      using x r written_loads [OF assms(3) watchsets_path_proper assms(4)] assms(2)
      by (simp add: ws_load_def ws')
  qed
  then show ?thesis
    using ws_replace_memory [OF assms(1,5)] by (simp add: ws_snapshot_def)
qed

definition sample_ws :: watch_store where
  "sample_ws = \<lparr>ws_path = (''/data'', WATCHSETS_FILE), ws_sets = [(''aa'', [''bc1q''])]\<rparr>"

theorem ws_replace_correct_witness:
  "map_of (ws_snapshot (fst (snd (ws_replace (sample_codec [(''aa'', [''bc1p''])]) io_fine ''aa'' [''bc1p'']
     sample_ws Map.empty)))) = [''aa'' \<mapsto> [''bc1p'']]"
proof -
  let ?c = "sample_codec [(''aa'', [''bc1p''])]"
  have h: "ws_ok sample_ws" "ws_path sample_ws = (''/data'', WATCHSETS_FILE)" "typed_codec btm_ok ?c"
    "io_read io_fine"
    by (auto simp: ws_ok_def sample_ws_def btm_ok_def bts_ok_def io_fine_def intro: sample_codec_typed)
  obtain r ws' d' where "ws_replace ?c io_fine ''aa'' [''bc1p''] sample_ws Map.empty = (r, ws', d')"
    by (metis prod_cases3)
  from ws_replace_correct [OF h this] this show ?thesis
    by (simp add: ws_snapshot_def sample_ws_def)
qed

end
