(* ===== verification/Config.thy ===== *)
theory Config
  imports Prelude "HOL-Library.Sublist"
begin

text \<open>
  \<open>server/src/config.rs\<close>: the configuration read from environment variables, with the string
  operations of the standard library it uses (ASCII lower case, splitting at commas, trimming of
  Unicode white space in UTF-8, parsing of a \<open>u16\<close>). The environment is a partial map from names to
  values.
\<close>

section \<open>String operations\<close>

definition ascii_lower :: "char \<Rightarrow> char" where
  "ascii_lower c =
     (let n = of_char c :: nat in if 65 \<le> n \<and> n \<le> 90 then char_of (n + 32) else c)"

definition to_ascii_lowercase :: "string \<Rightarrow> string" where
  "to_ascii_lowercase s = map ascii_lower s"

fun split_at_char :: "char \<Rightarrow> string \<Rightarrow> string list" where
  "split_at_char c [] = [[]]"
| "split_at_char c (x # xs) =
     (if x = c then [] # split_at_char c xs
      else (case split_at_char c xs of [] \<Rightarrow> [[x]] | w # ws \<Rightarrow> (x # w) # ws))"

text \<open>The characters with the Unicode property \<open>White_Space\<close>, as their UTF-8 bytes.\<close>

definition utf8 :: "nat list \<Rightarrow> string" where
  "utf8 bs = map char_of bs"

definition white_space :: "string list" where
  "white_space = map utf8
     ([[9], [10], [11], [12], [13], [32], [194, 133], [194, 160], [225, 154, 128]]
      @ map (\<lambda>b. [226, 128, b]) [128, 129, 130, 131, 132, 133, 134, 135, 136, 137, 138, 168, 169, 175]
      @ [[226, 129, 159], [227, 128, 128]])"

definition drop_space :: "string list \<Rightarrow> string \<Rightarrow> string" where
  "drop_space ws s = (case find (\<lambda>w. prefix w s) ws of None \<Rightarrow> s | Some w \<Rightarrow> drop (length w) s)"

lemma drop_space_shorter: "drop_space ws s \<noteq> s \<Longrightarrow> length (drop_space ws s) < length s"
  by (auto simp: drop_space_def split: option.splits)
    (metis diff_less drop0 length_greater_0_conv list.size(3) length_0_conv drop_Nil)

function trim_with :: "string list \<Rightarrow> string \<Rightarrow> string" where
  "trim_with ws s = (if drop_space ws s = s then s else trim_with ws (drop_space ws s))"
  by pat_completeness auto
termination
  by (relation "measure (\<lambda>(ws, s). length s)") (auto intro: drop_space_shorter)

declare trim_with.simps [simp del]

text \<open>The end is trimmed by trimming the start of the reversed bytes.\<close>

definition trim_start :: "string \<Rightarrow> string" where
  "trim_start s = trim_with white_space s"

definition trim_end :: "string \<Rightarrow> string" where
  "trim_end s = rev (trim_with (map rev white_space) (rev s))"

definition str_trim :: "string \<Rightarrow> string" where
  "str_trim s = trim_end (trim_start s)"

definition digit_val :: "char \<Rightarrow> nat option" where
  "digit_val c = (let n = of_char c in if 48 \<le> n \<and> n \<le> 57 then Some (n - 48) else None)"

fun digits_val :: "nat \<Rightarrow> string \<Rightarrow> nat option" where
  "digits_val acc [] = Some acc"
| "digits_val acc (c # cs) =
     (case digit_val c of None \<Rightarrow> None | Some d \<Rightarrow> digits_val (10 * acc + d) cs)"

text \<open>\<open>str::parse\<close> into an unsigned integer below a bound: an optional plus sign and digits.\<close>

definition parse_uint :: "nat \<Rightarrow> string \<Rightarrow> nat option" where
  "parse_uint bound s =
     (let ds = (case s of c # cs \<Rightarrow> if c = CHR ''+'' then cs else s | [] \<Rightarrow> s)
      in if ds = [] then None
         else (case digits_val 0 ds of
                 None \<Rightarrow> None
               | Some n \<Rightarrow> if n < bound then Some n else None))"

section \<open>The configuration\<close>

definition DEFAULT_RELAYS :: "string list" where
  "DEFAULT_RELAYS =
     [''wss://relay.damus.io'', ''wss://nos.lol'', ''wss://nostr.mom'',
      ''wss://offchain.pub'', ''wss://relay.nostr.net'']"

definition DEFAULT_HTTP_PORT :: nat where
  "DEFAULT_HTTP_PORT = 3829"

definition DEFAULT_ELECTRS_ADDR :: string where
  "DEFAULT_ELECTRS_ADDR = ''electrs:50001''"

datatype network = Bitcoin | Testnet | Signet | Regtest

definition network_parse :: "string \<Rightarrow> string + network" where
  "network_parse s =
     (let t = to_ascii_lowercase s in
      if t = ''bitcoin'' \<or> t = ''mainnet'' then Inr Bitcoin
      else if t = ''testnet'' then Inr Testnet
      else if t = ''signet'' then Inr Signet
      else if t = ''regtest'' then Inr Regtest
      else Inl (''unknown NOMAD_NETWORK: '' @ t))"

record config =
  data_dir :: string
  electrs_addr :: string
  relays :: "string list"
  http_port :: nat
  network :: network

definition parse_relays :: "string \<Rightarrow> string list" where
  "parse_relays csv = filter (\<lambda>s. s \<noteq> []) (map str_trim (split_at_char CHR '','' csv))"

definition from_env :: "(string \<rightharpoonup> string) \<Rightarrow> string + config" where
  "from_env var =
     (let dir = (case var ''UMBREL_APP_DATA_DIR'' of
                   Some d \<Rightarrow> d
                 | None \<Rightarrow> (case var ''NOMAD_DATA_DIR'' of Some d \<Rightarrow> d | None \<Rightarrow> ''./data''));
          addr = (case var ''ELECTRS_ADDR'' of Some a \<Rightarrow> a | None \<Rightarrow> DEFAULT_ELECTRS_ADDR);
          rs = (case var ''NOSTR_RELAYS'' of Some csv \<Rightarrow> parse_relays csv | None \<Rightarrow> DEFAULT_RELAYS);
          port = (case Option.bind (var ''NOMAD_HTTP_PORT'') (parse_uint 65536) of
                    Some p \<Rightarrow> p | None \<Rightarrow> DEFAULT_HTTP_PORT)
      in case (case var ''NOMAD_NETWORK'' of Some s \<Rightarrow> network_parse s | None \<Rightarrow> Inr Bitcoin) of
           Inl e \<Rightarrow> Inl e
         | Inr n \<Rightarrow> Inr \<lparr>data_dir = dir, electrs_addr = addr, relays = rs,
                        http_port = port, network = n\<rparr>)"

section \<open>Laws of the string operations\<close>

lemma drop_space_id_iff:
  "[] \<notin> set ws \<Longrightarrow> drop_space ws s = s \<longleftrightarrow> \<not> (\<exists>w \<in> set ws. prefix w s)"
proof
  assume ne: "[] \<notin> set ws" and id: "drop_space ws s = s"
  show "\<not> (\<exists>w \<in> set ws. prefix w s)"
  proof (cases "find (\<lambda>w. prefix w s) ws")
    case None
    then show ?thesis by (simp add: find_None_iff)
  next
    case (Some w)
    then have "w \<in> set ws" "prefix w s" by (auto simp: find_Some_iff)
    with ne id Some have "w \<noteq> []" "drop (length w) s = s" by (auto simp: drop_space_def)
    then have "length s - length w = length s" by (metis length_drop)
    with prefix_length_le [OF \<open>prefix w s\<close>] have "length w = 0" by linarith
    with \<open>w \<noteq> []\<close> show ?thesis by simp
  qed
next
  assume "\<not> (\<exists>w \<in> set ws. prefix w s)"
  then have "find (\<lambda>w. prefix w s) ws = None" by (simp add: find_None_iff)
  then show "drop_space ws s = s" by (simp add: drop_space_def)
qed

lemma drop_space_suffix: "suffix (drop_space ws s) s"
  by (auto simp: drop_space_def suffix_drop split: option.splits)

lemma trim_with_fixed: "drop_space ws (trim_with ws s) = trim_with ws s"
proof (induction ws s rule: trim_with.induct)
  case (1 ws s)
  then show ?case by (cases "drop_space ws s = s") (simp_all add: trim_with.simps [of ws s])
qed

lemma trim_with_suffix: "suffix (trim_with ws s) s"
proof (induction ws s rule: trim_with.induct)
  case (1 ws s)
  then show ?case
    using drop_space_suffix [of ws s]
    by (cases "drop_space ws s = s")
      (auto simp: trim_with.simps [of ws s] intro: suffix_order.trans)
qed

lemma trim_with_id: "drop_space ws s = s \<Longrightarrow> trim_with ws s = s"
  by (simp add: trim_with.simps)

lemma white_space_nonempty: "[] \<notin> set white_space" "[] \<notin> set (map rev white_space)"
  by (auto simp: white_space_def utf8_def)

lemma str_trim_idem [simp]: "str_trim (str_trim s) = str_trim s"
proof -
  define t where "t = trim_start s"
  define u where "u = trim_end t"
  have pre: "prefix u t"
    using trim_with_suffix [of "map rev white_space" "rev t"]
    by (simp add: u_def trim_end_def suffix_to_prefix)
  have "\<not> (\<exists>w \<in> set white_space. prefix w t)"
    using trim_with_fixed [of white_space s] white_space_nonempty(1)
    by (simp add: drop_space_id_iff t_def trim_start_def)
  then have "\<not> (\<exists>w \<in> set white_space. prefix w u)"
    using pre prefix_order.trans by blast
  then have "trim_start u = u"
    using white_space_nonempty(1) by (simp add: trim_start_def trim_with_id drop_space_id_iff)
  moreover have "trim_end u = u"
    by (simp add: u_def trim_end_def trim_with_id trim_with_fixed)
  ultimately show ?thesis
    by (simp add: str_trim_def u_def t_def)
qed

lemma set_str_trim: "set (str_trim s) \<subseteq> set s"
proof -
  have "set (trim_end t) \<subseteq> set t" for t
    using set_mono_suffix [OF trim_with_suffix, of "map rev white_space" "rev t"]
    by (simp add: trim_end_def)
  moreover have "set (trim_start s) \<subseteq> set s"
    using set_mono_suffix [OF trim_with_suffix] by (simp add: trim_start_def)
  ultimately show ?thesis
    unfolding str_trim_def by blast
qed

lemma split_at_char_free: "w \<in> set (split_at_char c s) \<Longrightarrow> c \<notin> set w"
  by (induction s arbitrary: w) (auto split: if_splits list.splits)

lemma parse_uint_bound: "parse_uint b s = Some n \<Longrightarrow> n < b"
  by (auto simp: parse_uint_def Let_def split: if_splits option.splits list.splits)

definition relay_ok :: "string \<Rightarrow> bool" where
  "relay_ok r \<longleftrightarrow> r \<noteq> [] \<and> str_trim r = r \<and> CHR '','' \<notin> set r"

lemma parse_relays_ok: "r \<in> set (parse_relays csv) \<Longrightarrow> relay_ok r"
  using set_str_trim split_at_char_free by (fastforce simp: parse_relays_def relay_ok_def)

text \<open>No white space character begins or ends with a byte of the printable ASCII range from
  the digits on, so a string that begins and ends with such a byte is left alone.\<close>

definition plain_byte :: "char \<Rightarrow> bool" where
  "plain_byte c \<longleftrightarrow> (48::nat) \<le> of_char c \<and> of_char c < (128::nat)"

lemma white_space_bytes:
  "w \<in> set white_space \<Longrightarrow> \<not> plain_byte (hd w)"
  "w \<in> set white_space \<Longrightarrow> \<not> plain_byte (hd (rev w))"
  by (auto simp: white_space_def utf8_def plain_byte_def)

lemma str_trim_plain:
  assumes "s \<noteq> []" "plain_byte (hd s)" "plain_byte (hd (rev s))"
  shows "str_trim s = s"
proof -
  have no: "\<not> (\<exists>w \<in> set ws. prefix w t)"
    if "[] \<notin> set ws" "\<And>w. w \<in> set ws \<Longrightarrow> \<not> plain_byte (hd w)" "plain_byte (hd t)" for ws t
    using that by (metis hd_append2 prefix_def)
  have "drop_space white_space s = s"
    using no [OF white_space_nonempty(1) white_space_bytes(1) assms(2)] white_space_nonempty(1)
    by (simp add: drop_space_id_iff)
  moreover have "drop_space (map rev white_space) (rev s) = rev s"
    using no [OF white_space_nonempty(2) _ assms(3)] white_space_bytes(2) white_space_nonempty(2)
    by (auto simp: drop_space_id_iff)
  ultimately show ?thesis
    by (simp add: str_trim_def trim_start_def trim_end_def trim_with_id)
qed

lemma default_relays_ok: "r \<in> set DEFAULT_RELAYS \<Longrightarrow> relay_ok r"
  by (auto simp: DEFAULT_RELAYS_def relay_ok_def plain_byte_def intro!: str_trim_plain)

section \<open>Properties\<close>

text \<open>
  C40. A configuration that \<open>from_env\<close> returns is well formed whatever the environment holds:
  every relay is non-empty, has no white space at either end and no comma in it, the HTTP port fits
  a \<open>u16\<close> (an unparsable port falls back to the default), and start-up fails exactly when
  \<open>NOMAD_NETWORK\<close> is set to something that is not one of the five network names in any letter case.
\<close>

theorem from_env_wellformed:
  "case from_env var of
     Inr c \<Rightarrow> (\<forall>r \<in> set (relays c). relay_ok r) \<and> http_port c < 65536
   | Inl e \<Rightarrow> (\<exists>s. var ''NOMAD_NETWORK'' = Some s \<and>
        to_ascii_lowercase s \<notin> {''bitcoin'', ''mainnet'', ''testnet'', ''signet'', ''regtest''})"
  using parse_relays_ok default_relays_ok parse_uint_bound
  by (auto simp: from_env_def Let_def network_parse_def DEFAULT_HTTP_PORT_def bind_eq_Some_conv
      split: option.splits if_splits sum.splits)

theorem from_env_wellformed_witness:
  "case from_env (Map.empty(''NOMAD_NETWORK'' \<mapsto> ''dogecoin'')) of Inr c \<Rightarrow> False | Inl e \<Rightarrow> True"
  using from_env_wellformed [of "Map.empty(''NOMAD_NETWORK'' \<mapsto> ''dogecoin'')"]
  by (simp add: from_env_def network_parse_def to_ascii_lowercase_def ascii_lower_def)

end
