(* ===== verification/Json.thy ===== *)
theory Json
  imports Prelude
begin

text \<open>
  The JSON values the server reads and builds: the six variants of \<open>serde_json::Value\<close> and the
  accessors the handlers call on them. A number is an unsigned or a negative 64-bit integer or a
  float, kept as its bits; an object is the list of its members. Text is never parsed or printed
  here: that is \<open>serde_json\<close>'s work, a parameter of the components that need it.
\<close>

datatype json_number = PosInt u64 | NegInt i64 | Flt u64

datatype json =
    JNull
  | JBool bool
  | JNumber json_number
  | JString string
  | JArray "json list"
  | JObject "(string \<times> json) list"

fun json_get :: "json \<Rightarrow> string \<Rightarrow> json option" where
  "json_get (JObject ms) k = map_of ms k"
| "json_get _ k = None"

fun as_array :: "json \<Rightarrow> json list option" where
  "as_array (JArray xs) = Some xs"
| "as_array _ = None"

fun as_str :: "json \<Rightarrow> string option" where
  "as_str (JString s) = Some s"
| "as_str _ = None"

fun as_u64 :: "json \<Rightarrow> u64 option" where
  "as_u64 (JNumber (PosInt n)) = Some n"
| "as_u64 _ = None"

text \<open>\<open>payload.get(k).and_then(f)\<close>.\<close>

definition field :: "(json \<Rightarrow> 'a option) \<Rightarrow> json \<Rightarrow> string \<Rightarrow> 'a option" where
  "field f v k = Option.bind (json_get v k) f"

definition json_u64 :: "u64 \<Rightarrow> json" where
  "json_u64 n = JNumber (PosInt n)"

definition json_u32 :: "u32 \<Rightarrow> json" where
  "json_u32 n = JNumber (PosInt (ucast n))"

definition json_i64 :: "i64 \<Rightarrow> json" where
  "json_i64 n = JNumber (if sint n < 0 then NegInt n else PosInt n)"

lemma json_u64_inj [simp]: "json_u64 m = json_u64 n \<longleftrightarrow> m = n"
  by (simp add: json_u64_def)

lemma json_i64_inj [simp]: "json_i64 m = json_i64 n \<longleftrightarrow> m = n"
  by (auto simp: json_i64_def)

lemma as_u64_json_u64 [simp]: "as_u64 (json_u64 n) = Some n"
  by (simp add: json_u64_def)

text \<open>\<open>v[k]\<close>: an absent member reads as null.\<close>

definition json_index :: "json \<Rightarrow> string \<Rightarrow> json" where
  "json_index v k = (case json_get v k of None \<Rightarrow> JNull | Some x \<Rightarrow> x)"

fun as_bool :: "json \<Rightarrow> bool option" where
  "as_bool (JBool b) = Some b"
| "as_bool _ = None"

section \<open>Printing and parsing\<close>

text \<open>
  A value that is printed and parsed again has its members in the order of their names, because
  \<open>serde_json\<close> keeps objects in a \<open>BTreeMap\<close>; \<open>json_norm\<close> is that value. It has distinct names to begin with.
\<close>

primrec json_norm :: "json \<Rightarrow> json" where
  "json_norm JNull = JNull"
| "json_norm (JBool b) = JBool b"
| "json_norm (JNumber n) = JNumber n"
| "json_norm (JString s) = JString s"
| "json_norm (JArray xs) = JArray (map json_norm xs)"
| "json_norm (JObject ms) = JObject (sort_key fst (map (map_prod id json_norm) ms))"

primrec json_ok :: "json \<Rightarrow> bool" where
  "json_ok JNull = True"
| "json_ok (JBool b) = True"
| "json_ok (JNumber n) = True"
| "json_ok (JString s) = True"
| "json_ok (JArray xs) = list_all id (map json_ok xs)"
| "json_ok (JObject ms) = (distinct (map fst ms) \<and> list_all snd (map (map_prod id json_ok) ms))"

lemma map_of_insort_key: "fst p \<notin> fst ` set ms \<Longrightarrow> map_of (insort_key fst p ms) = (map_of ms)(fst p \<mapsto> snd p)"
  by (induction ms) (auto simp: fun_eq_iff)

lemma map_of_sort_key: "distinct (map fst ms) \<Longrightarrow> map_of (sort_key fst ms) = map_of ms"
  by (induction ms) (simp_all add: map_of_insort_key)

lemma map_of_values: "map_of (map (map_prod id f) ms) k = map_option f (map_of ms k)"
  by (induction ms) auto

lemma json_get_norm: "json_ok v \<Longrightarrow> json_get (json_norm v) k = map_option json_norm (json_get v k)"
  by (cases v) (simp_all add: map_of_sort_key map_of_values)

lemma json_ok_get: "json_ok v \<Longrightarrow> json_get v k = Some x \<Longrightarrow> json_ok x"
  by (cases v) (auto simp: list_all_iff dest!: map_of_SomeD)

lemma as_norm [simp]:
  "as_str (json_norm v) = as_str v" "as_u64 (json_norm v) = as_u64 v" "as_bool (json_norm v) = as_bool v"
  by (cases v; simp)+

lemma json_index_norm: "json_ok v \<Longrightarrow> json_index (json_norm v) k = json_norm (json_index v k)"
  by (simp add: json_index_def json_get_norm split: option.split)

end
