(* ===== verification/Protocol.thy ===== *)
theory Protocol
  imports Json
begin

text \<open>
  \<open>server/src/protocol.rs\<close>: the request and response envelopes, the error codes, and the parsing of
  a request with its minimal validation. Reading the request's JSON text (\<open>serde_json::from_str\<close>)
  and the UUID syntax check (\<open>uuid::Uuid::parse_str\<close>) are parameters. The JSON value of a response
  follows the serde attributes of the source: absent options are skipped, codes are in snake case.
\<close>

section \<open>Envelopes\<close>

definition PROTOCOL_VERSION :: u8 where
  "PROTOCOL_VERSION = 1"

definition KIND_REQUEST :: "16 word" where
  "KIND_REQUEST = 25078"

definition KIND_RESPONSE :: "16 word" where
  "KIND_RESPONSE = 25079"

definition KIND_NOTIFY :: "16 word" where
  "KIND_NOTIFY = 25080"

definition KNOWN_TYPES :: "string list" where
  "KNOWN_TYPES =
     [''pair'', ''unpair'', ''ping'', ''get_balance'', ''get_utxos'', ''get_history'',
      ''get_transactions'', ''get_fee_estimates'', ''broadcast_tx'', ''watch_addresses'']"

record request_envelope =
  env_v :: u8
  env_id :: string
  env_ts :: u64
  msg_type :: string
  payload :: json

datatype error_code =
    UnsupportedVersion
  | UnknownType
  | NotPaired
  | PairingFailed
  | InvalidRequest
  | InvalidTx
  | BroadcastFailed
  | BackendUnavailable
  | RateLimited
  | Internal

record error_body =
  err_code :: error_code
  err_message :: string

record response_envelope =
  resp_v :: u8
  resp_id :: string
  resp_ok :: bool
  resp_result :: "json option"
  resp_error :: "error_body option"

definition response_ok :: "string \<Rightarrow> json \<Rightarrow> response_envelope" where
  "response_ok i r =
     \<lparr>resp_v = PROTOCOL_VERSION, resp_id = i, resp_ok = True,
      resp_result = Some r, resp_error = None\<rparr>"

definition response_err :: "string \<Rightarrow> error_code \<Rightarrow> string \<Rightarrow> response_envelope" where
  "response_err i c m =
     \<lparr>resp_v = PROTOCOL_VERSION, resp_id = i, resp_ok = False,
      resp_result = None, resp_error = Some \<lparr>err_code = c, err_message = m\<rparr>\<rparr>"

text \<open>The error code of a response, if it is an error.\<close>

definition code_of :: "response_envelope \<Rightarrow> error_code option" where
  "code_of r = map_option err_code (resp_error r)"

lemma response_simps [simp]:
  "resp_v (response_ok i r) = 1" "resp_v (response_err i c m) = 1"
  "resp_id (response_ok i r) = i" "resp_id (response_err i c m) = i"
  "resp_ok (response_ok i r)" "\<not> resp_ok (response_err i c m)"
  "resp_result (response_ok i r) = Some r" "resp_result (response_err i c m) = None"
  "resp_error (response_ok i r) = None"
  "code_of (response_ok i r) = None" "code_of (response_err i c m) = Some c"
  by (simp_all add: response_ok_def response_err_def PROTOCOL_VERSION_def code_of_def)

section \<open>Parsing a request\<close>

text \<open>
  \<open>Err(None)\<close> drops the message, \<open>Err(Some(r))\<close> answers it with \<open>r\<close>. The length is in bytes.
\<close>

definition MAX_CONTENT :: nat where
  "MAX_CONTENT = 256 * 1024"

definition nil_uuid :: string where
  "nil_uuid = ''00000000-0000-0000-0000-000000000000''"

definition parse_request ::
    "(string \<Rightarrow> request_envelope option) \<Rightarrow> (string \<Rightarrow> bool) \<Rightarrow> string
       \<Rightarrow> response_envelope option + request_envelope" where
  "parse_request from_str uuid_ok content =
     (if MAX_CONTENT < length content then Inl None
      else (case from_str content of
              None \<Rightarrow> Inl None
            | Some env \<Rightarrow>
                if env_v env \<noteq> PROTOCOL_VERSION then
                  Inl (Some (response_err (env_id env) UnsupportedVersion
                    ''unsupported protocol version''))
                else if env_id env = [] \<or> 64 < length (env_id env) \<or> \<not> uuid_ok (env_id env) then
                  Inl (Some (response_err nil_uuid InvalidRequest ''id must be a UUID''))
                else Inr env))"

section \<open>The response on the wire\<close>

fun code_str :: "error_code \<Rightarrow> string" where
  "code_str UnsupportedVersion = ''unsupported_version''"
| "code_str UnknownType = ''unknown_type''"
| "code_str NotPaired = ''not_paired''"
| "code_str PairingFailed = ''pairing_failed''"
| "code_str InvalidRequest = ''invalid_request''"
| "code_str InvalidTx = ''invalid_tx''"
| "code_str BroadcastFailed = ''broadcast_failed''"
| "code_str BackendUnavailable = ''backend_unavailable''"
| "code_str RateLimited = ''rate_limited''"
| "code_str Internal = ''internal''"

definition all_codes :: "error_code list" where
  "all_codes =
     [UnsupportedVersion, UnknownType, NotPaired, PairingFailed, InvalidRequest, InvalidTx,
      BroadcastFailed, BackendUnavailable, RateLimited, Internal]"

definition code_of_str :: "string \<Rightarrow> error_code option" where
  "code_of_str s = find (\<lambda>c. code_str c = s) all_codes"

definition error_to_json :: "error_body \<Rightarrow> json" where
  "error_to_json e =
     JObject [(''code'', JString (code_str (err_code e))), (''message'', JString (err_message e))]"

definition skip_none :: "string \<Rightarrow> json option \<Rightarrow> (string \<times> json) list" where
  "skip_none k v = (case v of None \<Rightarrow> [] | Some x \<Rightarrow> [(k, x)])"

definition response_to_json :: "response_envelope \<Rightarrow> json" where
  "response_to_json r =
     JObject ([(''v'', JNumber (PosInt (ucast (resp_v r)))),
               (''id'', JString (resp_id r)),
               (''ok'', JBool (resp_ok r))]
              @ skip_none ''result'' (resp_result r)
              @ skip_none ''error'' (map_option error_to_json (resp_error r)))"

text \<open>
  The derived \<open>Deserialize\<close> of the same struct, used by the clients: an absent or null member is
  \<open>None\<close> for an option, unknown members are ignored.
\<close>

definition as_u8 :: "json \<Rightarrow> u8 option" where
  "as_u8 v = Option.bind (as_u64 v) (\<lambda>n. if unat n < 256 then Some (ucast n) else None)"

definition error_of_json :: "json \<Rightarrow> error_body option" where
  "error_of_json v =
     (case (Option.bind (field as_str v ''code'') code_of_str, field as_str v ''message'') of
        (Some c, Some m) \<Rightarrow> Some \<lparr>err_code = c, err_message = m\<rparr>
      | _ \<Rightarrow> None)"

definition option_member :: "(json \<Rightarrow> 'a option) \<Rightarrow> json \<Rightarrow> string \<Rightarrow> 'a option option" where
  "option_member f v k =
     (case json_get v k of
        None \<Rightarrow> Some None
      | Some JNull \<Rightarrow> Some None
      | Some x \<Rightarrow> map_option Some (f x))"

definition response_of_json :: "json \<Rightarrow> response_envelope option" where
  "response_of_json j =
     (case (field as_u8 j ''v'', field as_str j ''id'', field as_bool j ''ok'',
            option_member Some j ''result'', option_member error_of_json j ''error'') of
        (Some v, Some i, Some ok, Some res, Some err) \<Rightarrow>
          Some \<lparr>resp_v = v, resp_id = i, resp_ok = ok, resp_result = res, resp_error = err\<rparr>
      | _ \<Rightarrow> None)"

section \<open>The request on the wire\<close>

text \<open>
  The derived \<open>Deserialize\<close> of a request: from an object (unknown members are ignored, an absent payload is
  null) or, as \<open>serde\<close> also accepts, from the array of the fields in their order.
\<close>

definition request_of_parts :: "json \<Rightarrow> json \<Rightarrow> json \<Rightarrow> json \<Rightarrow> json \<Rightarrow> request_envelope option" where
  "request_of_parts v i ts t p =
     (case (as_u8 v, as_str i, as_u64 ts, as_str t) of
        (Some v, Some i, Some ts, Some t) \<Rightarrow>
          Some \<lparr>env_v = v, env_id = i, env_ts = ts, msg_type = t, payload = p\<rparr>
      | _ \<Rightarrow> None)"

definition request_of_json :: "json \<Rightarrow> request_envelope option" where
  "request_of_json j =
     (case j of
        JArray [v, i, ts, t] \<Rightarrow> request_of_parts v i ts t JNull
      | JArray [v, i, ts, t, p] \<Rightarrow> request_of_parts v i ts t p
      | JObject ms \<Rightarrow>
          (case (map_of ms ''v'', map_of ms ''id'', map_of ms ''ts'', map_of ms ''type'') of
             (Some v, Some i, Some ts, Some t) \<Rightarrow> request_of_parts v i ts t (json_index j ''payload'')
           | _ \<Rightarrow> None)
      | _ \<Rightarrow> None)"

section \<open>Laws\<close>

lemma code_of_str_code_str [simp]: "code_of_str (code_str c) = Some c"
  by (cases c) (simp_all add: code_of_str_def all_codes_def)

lemma as_u8_u64 [simp]: "as_u8 (JNumber (PosInt (ucast (n :: u8)))) = Some n"
proof -
  have n: "unat n < 256" using unsigned_less [of n, where 'a = nat] by simp
  then have "unat (ucast n :: u64) = unat n" by (simp add: unsigned_ucast_eq take_bit_nat_eq_self)
  moreover have "ucast (ucast n :: u64) = n" by transfer (simp add: min_def)
  moreover note n
  ultimately show ?thesis by (simp add: as_u8_def)
qed

lemma error_of_json_to_json [simp]: "error_of_json (error_to_json e) = Some e"
  by (simp add: error_of_json_def error_to_json_def field_def)

lemma error_to_json_not_null [simp]: "error_to_json e \<noteq> JNull" "JNull \<noteq> error_to_json e"
  by (simp_all add: error_to_json_def)

lemma option_member_null: "option_member f v k =
    (case json_get v k of None \<Rightarrow> Some None | Some x \<Rightarrow> if x = JNull then Some None else map_option Some (f x))"
  by (auto simp: option_member_def split: option.splits json.splits)

text \<open>The shape every response of the server has.\<close>

definition resp_wf :: "response_envelope \<Rightarrow> bool" where
  "resp_wf r \<longleftrightarrow> resp_v r = 1 \<and> resp_result r \<noteq> Some JNull \<and>
     (if resp_ok r then resp_result r \<noteq> None \<and> resp_error r = None
      else resp_result r = None \<and> resp_error r \<noteq> None)"

lemma resp_wf_built [simp, nomad_resp]: "resp_wf (response_ok i (JObject ms))" "resp_wf (response_err i c m)"
  by (simp_all add: resp_wf_def response_err_def PROTOCOL_VERSION_def response_ok_def)

lemma resp_wf_id [simp]: "resp_wf (r\<lparr>resp_id := i\<rparr>) = resp_wf r"
  by (simp add: resp_wf_def)

lemma response_reads_back:
  "resp_result r \<noteq> Some JNull \<Longrightarrow> response_of_json (response_to_json r) = Some r"
  by (cases r; cases "resp_result r"; cases "resp_error r")
    (simp_all add: response_of_json_def response_to_json_def field_def skip_none_def option_member_null)

lemma resp_wf_reads_back: "resp_wf r \<Longrightarrow> response_of_json (response_to_json r) = Some r"
  by (simp add: resp_wf_def response_reads_back)

section \<open>Properties\<close>

text \<open>
  Wire round trip: a response envelope serialised with the source's serde attributes and
  deserialised again is the same envelope, whether it carries a result or an error, provided the
  result is not the JSON null (a null member reads back as an absent option).
\<close>

theorem response_roundtrip:
  assumes "resp_result r \<noteq> Some JNull"
  shows "response_of_json (response_to_json r) = Some r"
  using assms by (rule response_reads_back)

theorem response_roundtrip_witness:
  "response_of_json (response_to_json (response_ok ''id1'' (JObject [(''watching'', json_u64 3)])))
     = Some (response_ok ''id1'' (JObject [(''watching'', json_u64 3)]))"
  using response_roundtrip [of "response_ok ''id1'' (JObject [(''watching'', json_u64 3)])"] by simp

text \<open>
  What \<open>parse_request\<close> can do with any content: accept an envelope of version 1 whose id is a
  UUID of 1 to 64 bytes, exactly as it was read; drop what is oversized or unreadable; or answer with
  a well-formed error that echoes the id only for an unsupported version and otherwise carries the
  nil UUID, so an id that is not a UUID never comes back under version 1.
\<close>

theorem parse_request_outcomes:
  "case parse_request from_str uuid_ok content of
     Inr env \<Rightarrow> length content \<le> 262144 \<and> from_str content = Some env \<and> env_v env = 1 \<and>
       uuid_ok (env_id env) \<and> length (env_id env) \<in> {1..64}
   | Inl None \<Rightarrow> 262144 < length content \<or> from_str content = None
   | Inl (Some r) \<Rightarrow> resp_wf r \<and> (\<exists>env. from_str content = Some env \<and>
       (if env_v env = 1
        then code_of r = Some InvalidRequest \<and> resp_id r = nil_uuid \<and>
          \<not> (uuid_ok (env_id env) \<and> length (env_id env) \<in> {1..64})
        else code_of r = Some UnsupportedVersion \<and> resp_id r = env_id env))"
proof (cases "262144 < length content \<or> from_str content = None")
  case True
  then show ?thesis by (auto simp: parse_request_def MAX_CONTENT_def)
next
  case False
  then obtain env where env: "from_str content = Some env" and len: "\<not> 262144 < length content"
    by auto
  have "(env_id env = [] \<or> 64 < length (env_id env) \<or> \<not> uuid_ok (env_id env))
      \<longleftrightarrow> \<not> (uuid_ok (env_id env) \<and> length (env_id env) \<in> {1..64})"
    by (cases "env_id env") auto
  with env len show ?thesis
    by (simp add: parse_request_def MAX_CONTENT_def PROTOCOL_VERSION_def)
qed

definition sample_env :: "string \<Rightarrow> json \<Rightarrow> request_envelope" where
  "sample_env t p = \<lparr>env_v = 1, env_id = ''nope'', env_ts = 1, msg_type = t, payload = p\<rparr>"

theorem parse_request_outcomes_witness:
  "case parse_request (\<lambda>_. Some (sample_env ''ping'' JNull)) (\<lambda>_. False) ''{}'' of
     Inl (Some r) \<Rightarrow> code_of r = Some InvalidRequest | _ \<Rightarrow> False"
  using parse_request_outcomes [of "''{}''" "\<lambda>_. Some (sample_env ''ping'' JNull)" "\<lambda>_. False"]
  by (simp add: parse_request_def MAX_CONTENT_def sample_env_def PROTOCOL_VERSION_def)

end
