(* ===== verification/Handlers.thy ===== *)
theory Handlers
  imports Electrs Stores Config Protocol "HOL-Library.Multiset"
begin

text \<open>
  \<open>server/src/handlers.rs\<close>: the chain-data request handlers. A handler takes the request and the
  state it may change (the backend's state, the watch sets and the file system) and returns a
  response and the new state; indexing the anchors' table without a check is the one place that can
  panic. Addresses, transactions, hexadecimal text and the printing of hashes are the work of other
  crates, gathered in a \<open>chain_lib\<close>; so are the orders in which hash tables iterate, gathered in a
  \<open>hash_order\<close>. Transaction ids are compared bytewise.
\<close>

section \<open>Parameters\<close>

datatype btc_network = BtcBitcoin | BtcTestnet | BtcSignet | BtcRegtest

fun bitcoin_network :: "network \<Rightarrow> btc_network" where
  "bitcoin_network Bitcoin = BtcBitcoin"
| "bitcoin_network Testnet = BtcTestnet"
| "bitcoin_network Signet = BtcSignet"
| "bitcoin_network Regtest = BtcRegtest"

record ('a, 't) chain_lib =
  addr_from_str :: "string \<Rightarrow> 'a option"
  require_network :: "btc_network \<Rightarrow> 'a \<Rightarrow> 'a option"
  script_pubkey :: "'a \<Rightarrow> script"
  txid_parse :: "string \<Rightarrow> txid option"
  hash_str :: "bytes \<Rightarrow> string"
  to_hex :: "bytes \<Rightarrow> string"
  from_hex :: "string \<Rightarrow> bytes option"
  tx_decode :: "bytes \<Rightarrow> 't option"
  compute_txid :: "'t \<Rightarrow> txid"

record hash_order =
  ho_txs :: "(txid \<times> usize) list \<Rightarrow> (txid \<times> usize) list"
  ho_heights :: "usize list \<Rightarrow> usize list"

definition order_ok :: "hash_order \<Rightarrow> bool" where
  "order_ok ho \<longleftrightarrow> (\<forall>m. mset (ho_txs ho m) = mset m) \<and> (\<forall>hs. mset (ho_heights ho hs) = mset hs)"

record ('a, 't, 's) handlers =
  hd_electrs :: "'s backend"
  hd_network :: network
  hd_lib :: "('a, 't) chain_lib"
  hd_order :: hash_order
  hd_codec :: "(string, string list) btree_map codec"

definition txid_of :: "('a, 't) chain_lib \<Rightarrow> bytes \<Rightarrow> txid option" where
  "txid_of L raw = map_option (compute_txid L) (tx_decode L raw)"

definition SERVER_VERSION :: string where
  "SERVER_VERSION = ''nomad-server/0.1.0''"

definition MAX_QUERY_ADDRESSES :: nat where "MAX_QUERY_ADDRESSES = 200"
definition MAX_WATCH_ADDRESSES :: nat where "MAX_WATCH_ADDRESSES = 5000"
definition MAX_TXIDS :: nat where "MAX_TXIDS = 25"
definition MAX_TXHEX_LEN :: nat where "MAX_TXHEX_LEN = 200000"
definition DEFAULT_HISTORY_LIMIT :: usize where "DEFAULT_HISTORY_LIMIT = 50"
definition MAX_HISTORY_LIMIT :: usize where "MAX_HISTORY_LIMIT = 200"

section \<open>Validation\<close>

text \<open>One address of the list: its text and its script, or the error.\<close>

definition parse_address :: "('a, 't) chain_lib \<Rightarrow> network \<Rightarrow> string \<Rightarrow> script option" where
  "parse_address L net s =
     map_option (script_pubkey L) (Option.bind (addr_from_str L s) (require_network L (bitcoin_network net)))"

definition validate_addresses ::
    "('a, 't) chain_lib \<Rightarrow> json \<Rightarrow> network \<Rightarrow> nat \<Rightarrow> response_envelope + (string \<times> script) list" where
  "validate_addresses L v net mx =
     (let invalid = response_err [] InvalidRequest ''invalid addresses''
      in case field as_array v ''addresses'' of
           None \<Rightarrow> Inl invalid
         | Some xs \<Rightarrow>
             if mx < length xs then
               Inl (response_err [] InvalidRequest (''too many addresses (max '' @ dec_str mx @ '')''))
             else
               map_result
                 (\<lambda>a. case as_str a of
                        None \<Rightarrow> Inl invalid
                      | Some s \<Rightarrow>
                          (case parse_address L net s of
                             None \<Rightarrow> Inl invalid
                           | Some sc \<Rightarrow> Inr (s, sc)))
                 xs)"

definition backend_err :: "string \<Rightarrow> backend_error \<Rightarrow> response_envelope" where
  "backend_err i e =
     (case e of
        Cooldown \<Rightarrow> response_err i BackendUnavailable ''backend temporarily unavailable''
      | Timeout \<Rightarrow> response_err i BackendUnavailable ''backend temporarily unavailable''
      | Electrum msg \<Rightarrow> response_err i BackendUnavailable ''backend error'')"

text \<open>The opening of the three queries by address: validate, patch the id, refuse an empty list.\<close>

definition query_addresses ::
    "('a, 't, 's) handlers \<Rightarrow> request_envelope \<Rightarrow> response_envelope + (string \<times> script) list" where
  "query_addresses H env =
     (case validate_addresses (hd_lib H) (payload env) (hd_network H) MAX_QUERY_ADDRESSES of
        Inl e \<Rightarrow> Inl (e\<lparr>resp_id := env_id env\<rparr>)
      | Inr addrs \<Rightarrow>
          if addrs = [] then Inl (response_err (env_id env) InvalidRequest ''addresses must be non-empty'')
          else Inr addrs)"

section \<open>The handlers\<close>

definition ping :: "('a, 't, 's) handlers \<Rightarrow> request_envelope \<Rightarrow> 's \<Rightarrow> response_envelope \<times> 's" where
  "ping H env s =
     (case be_tip (hd_electrs H) s of
        (Inr (height, hash, time), s') \<Rightarrow>
          (response_ok (env_id env)
             (JObject
                [(''server'', JString SERVER_VERSION),
                 (''tip'', JObject [(''height'', json_u64 height),
                                    (''hash'', JString (hash_str (hd_lib H) hash)),
                                    (''time'', json_u32 time)])]), s')
      | (Inl e, s') \<Rightarrow> (backend_err (env_id env) e, s'))"

definition get_balance :: "('a, 't, 's) handlers \<Rightarrow> request_envelope \<Rightarrow> 's \<Rightarrow> response_envelope \<times> 's" where
  "get_balance H env s =
     (case query_addresses H env of
        Inl e \<Rightarrow> (e, s)
      | Inr addrs \<Rightarrow>
          (case be_balances (hd_electrs H) (map snd addrs) s of
             (Inr res, s') \<Rightarrow>
               (let confirmed = sum_list (map bal_confirmed res);
                    unconfirmed = sum_list (map bal_unconfirmed res)
                in (response_ok (env_id env)
                      (JObject [(''confirmed'', json_u64 confirmed), (''unconfirmed'', json_i64 unconfirmed)]), s'))
           | (Inl e, s') \<Rightarrow> (backend_err (env_id env) e, s')))"

definition confirmations :: "usize \<Rightarrow> usize \<Rightarrow> usize" where
  "confirmations tip height = (if height = 0 then 0 else saturating_sub tip height + 1)"

definition utxo_json :: "('a, 't) chain_lib \<Rightarrow> usize \<Rightarrow> string \<Rightarrow> unspent_res \<Rightarrow> json" where
  "utxo_json L tip addr u =
     JObject
       [(''txid'', JString (hash_str L (uns_tx_hash u))), (''vout'', json_u64 (uns_tx_pos u)),
        (''value'', json_u64 (uns_value u)), (''address'', JString addr),
        (''confirmations'', json_u64 (confirmations tip (uns_height u)))]"

definition get_utxos :: "('a, 't, 's) handlers \<Rightarrow> request_envelope \<Rightarrow> 's \<Rightarrow> response_envelope \<times> 's" where
  "get_utxos H env s =
     (case query_addresses H env of
        Inl e \<Rightarrow> (e, s)
      | Inr addrs \<Rightarrow>
          (case be_tip (hd_electrs H) s of
             (Inl e, s1) \<Rightarrow> (backend_err (env_id env) e, s1)
           | (Inr (tip, hash, time), s1) \<Rightarrow>
               (case be_unspents (hd_electrs H) (map snd addrs) s1 of
                  (Inr per_addr, s2) \<Rightarrow>
                    (let utxos = concat (map (\<lambda>((addr, _), unsp). map (utxo_json (hd_lib H) tip addr) unsp)
                                   (zip addrs per_addr))
                     in (response_ok (env_id env) (JObject [(''utxos'', JArray utxos)]), s2))
                | (Inl e, s2) \<Rightarrow> (backend_err (env_id env) e, s2))))"

text \<open>The newest first: by height downwards, then by transaction id; the order of \<open>sort_by\<close>.\<close>

datatype hist_tx = HistTx (ht_txid: txid) (ht_height: usize)

instantiation hist_tx :: linorder
begin

definition less_eq_hist_tx :: "hist_tx \<Rightarrow> hist_tx \<Rightarrow> bool" where
  "less_eq_hist_tx a b \<longleftrightarrow>
     ht_height b < ht_height a \<or> (ht_height a = ht_height b \<and> ht_txid a \<le> ht_txid b)"

definition less_hist_tx :: "hist_tx \<Rightarrow> hist_tx \<Rightarrow> bool" where
  "less_hist_tx a b \<longleftrightarrow>
     ht_height b < ht_height a \<or> (ht_height a = ht_height b \<and> ht_txid a < ht_txid b)"

instance
  by standard (auto simp: less_eq_hist_tx_def less_hist_tx_def intro: hist_tx.expand)

end

definition history_limit :: "json \<Rightarrow> usize" where
  "history_limit p =
     (case field as_u64 p ''limit'' of
        Some l \<Rightarrow> max 1 (min l MAX_HISTORY_LIMIT)
      | None \<Rightarrow> DEFAULT_HISTORY_LIMIT)"

definition merged_history :: "history_res list list \<Rightarrow> (txid, usize) hash_map" where
  "merged_history hists = hm_maxes (map (\<lambda>h. (his_tx_hash h, i32_max0 (his_height h))) (concat hists))"

definition newest_first :: "hash_order \<Rightarrow> usize \<Rightarrow> (txid, usize) hash_map \<Rightarrow> hist_tx list" where
  "newest_first ho limit seen = take (unat limit) (sort (map (\<lambda>(t, h). HistTx t h) (ho_txs ho seen)))"

definition anchor_heights :: "hash_order \<Rightarrow> hist_tx list \<Rightarrow> usize list" where
  "anchor_heights ho txs = ho_heights ho (remdups (filter (\<lambda>h. 0 < h) (map ht_height txs)))"

definition history_json ::
    "('a, 't) chain_lib \<Rightarrow> (usize \<rightharpoonup> block_hash \<times> u32) \<Rightarrow> hist_tx \<Rightarrow> json option" where
  "history_json L anchors tx =
     (let t = (''txid'', JString (hash_str L (ht_txid tx)))
      in if ht_height tx = 0 then Some (JObject [t, (''height'', json_u64 0)])
         else case anchors (ht_height tx) of
                None \<Rightarrow> None
              | Some (hash, time) \<Rightarrow>
                  Some (JObject [t, (''height'', json_u64 (ht_height tx)),
                                 (''block_hash'', JString (hash_str L hash)),
                                 (''block_time'', json_u32 time)]))"

definition get_history :: "('a, 't, 's) handlers \<Rightarrow> request_envelope \<Rightarrow> 's \<Rightarrow> response_envelope run \<times> 's" where
  "get_history H env s =
     (case query_addresses H env of
        Inl e \<Rightarrow> (Ret e, s)
      | Inr addrs \<Rightarrow>
          (case be_histories (hd_electrs H) (map snd addrs) s of
             (Inl e, s1) \<Rightarrow> (Ret (backend_err (env_id env) e), s1)
           | (Inr hists, s1) \<Rightarrow>
               (let limit = history_limit (payload env);
                    txs = newest_first (hd_order H) limit (merged_history hists);
                    heights = anchor_heights (hd_order H) txs
                in case be_anchors (hd_electrs H) heights s1 of
                     (Inl e, s2) \<Rightarrow> (Ret (backend_err (env_id env) e), s2)
                   | (Inr anchors, s2) \<Rightarrow>
                       (case those (map (history_json (hd_lib H) anchors) txs) of
                          None \<Rightarrow> (Panic, s2)
                        | Some out \<Rightarrow> (Ret (response_ok (env_id env) (JObject [(''txs'', JArray out)])), s2)))))"

fun parse_txids :: "('a, 't) chain_lib \<Rightarrow> json list \<Rightarrow> txid list option" where
  "parse_txids L [] = Some []"
| "parse_txids L (v # vs) =
     (case Option.bind (as_str v) (txid_parse L) of
        None \<Rightarrow> None
      | Some t \<Rightarrow> map_option (Cons t) (parse_txids L vs))"

fun fetch_txs ::
    "('a, 't, 's) handlers \<Rightarrow> txid list \<Rightarrow> json list \<Rightarrow> 's \<Rightarrow> (backend_error + json list) \<times> 's" where
  "fetch_txs H [] acc s = (Inr acc, s)"
| "fetch_txs H (t # ts) acc s =
     (case be_raw_tx (hd_electrs H) t s of
        (Inl e, s') \<Rightarrow> (Inl e, s')
      | (Inr raw, s') \<Rightarrow>
          fetch_txs H ts
            (acc @ [JObject [(''txid'', JString (hash_str (hd_lib H) t)),
                             (''hex'', JString (to_hex (hd_lib H) raw))]]) s')"

definition get_transactions ::
    "('a, 't, 's) handlers \<Rightarrow> request_envelope \<Rightarrow> 's \<Rightarrow> response_envelope \<times> 's" where
  "get_transactions H env s =
     (case field as_array (payload env) ''txids'' of
        None \<Rightarrow> (response_err (env_id env) InvalidRequest (''txids must be 1..='' @ dec_str MAX_TXIDS), s)
      | Some xs \<Rightarrow>
          if xs = [] \<or> MAX_TXIDS < length xs then
            (response_err (env_id env) InvalidRequest (''txids must be 1..='' @ dec_str MAX_TXIDS), s)
          else
            (case parse_txids (hd_lib H) xs of
               None \<Rightarrow> (response_err (env_id env) InvalidRequest ''invalid txid'', s)
             | Some txids \<Rightarrow>
                 (case fetch_txs H txids [] s of
                    (Inl e, s') \<Rightarrow> (backend_err (env_id env) e, s')
                  | (Inr txs, s') \<Rightarrow> (response_ok (env_id env) (JObject [(''txs'', JArray txs)]), s'))))"

definition get_fee_estimates ::
    "('a, 't, 's) handlers \<Rightarrow> request_envelope \<Rightarrow> 's \<Rightarrow> response_envelope \<times> 's" where
  "get_fee_estimates H env s =
     (case be_estimate (hd_electrs H) 1 s of
        (Inl e, s1) \<Rightarrow> (backend_err (env_id env) e, s1)
      | (Inr fast, s1) \<Rightarrow>
          (case be_estimate (hd_electrs H) 6 s1 of
             (Inl e, s2) \<Rightarrow> (backend_err (env_id env) e, s2)
           | (Inr medium, s2) \<Rightarrow>
               (case be_estimate (hd_electrs H) 12 s2 of
                  (Inl e, s3) \<Rightarrow> (backend_err (env_id env) e, s3)
                | (Inr slow, s3) \<Rightarrow>
                    (response_ok (env_id env)
                       (JObject [(''fast'', json_u64 (btc_kb_to_sat_vb fast)),
                                 (''medium'', json_u64 (btc_kb_to_sat_vb medium)),
                                 (''slow'', json_u64 (btc_kb_to_sat_vb slow))]), s3))))"

definition broadcast_err :: "string \<Rightarrow> backend_error \<Rightarrow> response_envelope" where
  "broadcast_err i e =
     (case e of
        Electrum msg \<Rightarrow> response_err i BroadcastFailed (''broadcast failed: '' @ msg)
      | _ \<Rightarrow> backend_err i e)"

definition broadcast_tx :: "('a, 't, 's) handlers \<Rightarrow> request_envelope \<Rightarrow> 's \<Rightarrow> response_envelope \<times> 's" where
  "broadcast_tx H env s =
     (let bad = response_err (env_id env) InvalidRequest (''txHex must be 1..='' @ dec_str MAX_TXHEX_LEN @ '' hex chars'')
      in case field as_str (payload env) ''txHex'' of
           None \<Rightarrow> (bad, s)
         | Some h \<Rightarrow>
             if h = [] \<or> MAX_TXHEX_LEN < length h then (bad, s)
             else
               (case from_hex (hd_lib H) h of
                  None \<Rightarrow> (response_err (env_id env) InvalidTx ''invalid hex'', s)
                | Some raw \<Rightarrow>
                    if txid_of (hd_lib H) raw = None then
                      (response_err (env_id env) InvalidTx ''invalid transaction'', s)
                    else
                      (case be_broadcast (hd_electrs H) raw s of
                         (Inr t, s') \<Rightarrow>
                           (response_ok (env_id env) (JObject [(''txid'', JString (hash_str (hd_lib H) t))]), s')
                       | (Inl e, s') \<Rightarrow> (broadcast_err (env_id env) e, s'))))"

definition watch_addresses ::
    "('a, 't, 's) handlers \<Rightarrow> io_env \<Rightarrow> string \<Rightarrow> request_envelope \<Rightarrow> watch_store \<times> fs
       \<Rightarrow> response_envelope \<times> watch_store \<times> fs" where
  "watch_addresses H io sender env wd =
     (case validate_addresses (hd_lib H) (payload env) (hd_network H) MAX_WATCH_ADDRESSES of
        Inl e \<Rightarrow> (e\<lparr>resp_id := env_id env\<rparr>, wd)
      | Inr addrs \<Rightarrow>
          (case ws_replace (hd_codec H) io sender (map fst addrs) (fst wd) (snd wd) of
             (Inr n, wd') \<Rightarrow> (response_ok (env_id env) (JObject [(''watching'', json_u64 (of_nat n))]), wd')
           | (Inl e, wd') \<Rightarrow> (response_err (env_id env) Internal ''internal error'', wd')))"

text \<open>The dispatch: every handler lifted to the whole state.\<close>

type_synonym 's handler_state = "'s \<times> watch_store \<times> fs"

definition on_backend ::
    "('s \<Rightarrow> response_envelope \<times> 's) \<Rightarrow> 's handler_state \<Rightarrow> response_envelope run \<times> 's handler_state" where
  "on_backend f st = (case st of (s, wd) \<Rightarrow> (case f s of (r, s') \<Rightarrow> (Ret r, s', wd)))"

definition handle ::
    "('a, 't, 's) handlers \<Rightarrow> io_env \<Rightarrow> string \<Rightarrow> request_envelope \<Rightarrow> 's handler_state
       \<Rightarrow> response_envelope run \<times> 's handler_state" where
  "handle H io sender env st =
     (if msg_type env = ''ping'' then on_backend (ping H env) st
      else if msg_type env = ''get_balance'' then on_backend (get_balance H env) st
      else if msg_type env = ''get_utxos'' then on_backend (get_utxos H env) st
      else if msg_type env = ''get_history'' then
        (case get_history H env (fst st) of (r, s') \<Rightarrow> (r, s', snd st))
      else if msg_type env = ''get_transactions'' then on_backend (get_transactions H env) st
      else if msg_type env = ''get_fee_estimates'' then on_backend (get_fee_estimates H env) st
      else if msg_type env = ''broadcast_tx'' then on_backend (broadcast_tx H env) st
      else if msg_type env = ''watch_addresses'' then
        (case watch_addresses H io sender env (snd st) of (r, wd') \<Rightarrow> (Ret r, fst st, wd'))
      else (Ret (response_err (env_id env) UnknownType ''unknown type''), st))"

section \<open>Every answer echoes the request\<close>

text \<open>A response to the request: its id, and the shape of a response.\<close>

definition answers :: "request_envelope \<Rightarrow> response_envelope \<Rightarrow> bool" where
  "answers env r \<longleftrightarrow> resp_id r = env_id env \<and> resp_wf r"

lemma answers_built [simp, nomad_resp]:
  "answers env (response_ok (env_id env) (JObject ms))" "answers env (response_err (env_id env) c m)"
  by (simp_all add: answers_def)

lemma answers_backend_err [simp, nomad_resp]: "answers env (backend_err (env_id env) e)"
  by (cases e) (simp_all add: backend_err_def)

lemma answers_broadcast_err [simp, nomad_resp]: "answers env (broadcast_err (env_id env) e)"
  by (cases e) (simp_all add: broadcast_err_def)

text \<open>What a failed validation is: an error built with an empty id, patched afterwards.\<close>

lemma validate_error:
  assumes "validate_addresses L v net mx = Inl e"
  shows "\<exists>m. e = response_err [] InvalidRequest m"
proof (cases "field as_array v ''addresses''")
  case None
  then show ?thesis using assms by (auto simp: validate_addresses_def)
next
  case (Some xs)
  show ?thesis
  proof (cases "mx < length xs")
    case True
    then show ?thesis using assms Some by (auto simp: validate_addresses_def)
  next
    case False
    then show ?thesis
      using assms Some
      by (auto simp: validate_addresses_def Let_def dest!: map_result_Inl split: option.splits)
  qed
qed

lemma validate_error_answers:
  "validate_addresses L v net mx = Inl e \<Longrightarrow>
     answers env (e\<lparr>resp_id := env_id env\<rparr>) \<and> code_of (e\<lparr>resp_id := env_id env\<rparr>) = Some InvalidRequest"
  using validate_error [of L v net mx e] by (auto simp: answers_def code_of_def response_err_def resp_wf_def PROTOCOL_VERSION_def)

lemma query_error:
  "query_addresses H env = Inl e \<Longrightarrow> answers env e \<and> code_of e = Some InvalidRequest"
  by (auto simp: query_addresses_def split: sum.splits if_splits dest: validate_error_answers)

lemma ping_answers: "answers env (fst (ping H env s))"
  by (auto simp: ping_def split: prod.splits sum.splits)

lemma get_balance_answers: "answers env (fst (get_balance H env s))"
  by (auto simp: get_balance_def Let_def dest: query_error split: prod.splits sum.splits)

lemma get_utxos_answers: "answers env (fst (get_utxos H env s))"
  by (auto simp: get_utxos_def Let_def dest: query_error split: prod.splits sum.splits)

lemma get_transactions_answers: "answers env (fst (get_transactions H env s))"
  by (auto simp: get_transactions_def split: prod.splits sum.splits option.splits)

lemma get_fee_estimates_answers: "answers env (fst (get_fee_estimates H env s))"
  by (auto simp: get_fee_estimates_def split: prod.splits sum.splits)

lemma broadcast_tx_answers: "answers env (fst (broadcast_tx H env s))"
  by (auto simp: broadcast_tx_def Let_def split: prod.splits sum.splits option.splits)

lemma watch_addresses_answers: "answers env (fst (watch_addresses H io sender env wd))"
  by (auto simp: watch_addresses_def dest: validate_error_answers split: prod.splits sum.splits)

lemma get_history_answers: "fst (get_history H env s) = Ret r \<Longrightarrow> answers env r"
  by (auto simp: get_history_def Let_def dest: query_error split: prod.splits sum.splits option.splits)

lemma on_backend_result [simp]: "fst (on_backend f st) = Ret (fst (f (fst st)))"
  by (simp add: on_backend_def split: prod.splits)

lemmas handler_answers = ping_answers get_balance_answers get_utxos_answers get_transactions_answers
  get_fee_estimates_answers broadcast_tx_answers watch_addresses_answers

section \<open>No panic on an answering chain backend\<close>

lemma order_ok_sets:
  assumes "order_ok ho"
  shows "set (ho_heights ho hs) = set hs" "set (ho_txs ho m) = set m" "mset (ho_txs ho m) = mset m"
  using assms mset_eq_setD unfolding order_ok_def by blast+

lemma anchor_heights_covers:
  "order_ok ho \<Longrightarrow> tx \<in> set txs \<Longrightarrow> ht_height tx \<noteq> 0 \<Longrightarrow> ht_height tx \<in> set (anchor_heights ho txs)"
  by (auto simp: anchor_heights_def order_ok_sets word_neq_0_conv [symmetric])

lemma history_json_defined:
  "(ht_height tx \<noteq> 0 \<Longrightarrow> \<exists>a. anchors (ht_height tx) = Some a) \<Longrightarrow> \<exists>j. history_json L anchors tx = Some j"
  by (cases "ht_height tx = 0") (fastforce simp: history_json_def Let_def)+

lemma those_map_defined: "(\<And>x. x \<in> set xs \<Longrightarrow> \<exists>y. f x = Some y) \<Longrightarrow> \<exists>ys. those (map f xs) = Some ys"
  by (induction xs) fastforce+

context chain_backend
begin

lemma history_no_panic:
  assumes "order_ok ho" "anchors (anchor_heights ho txs) s = (Inr m, s')"
  shows "\<exists>out. those (map (history_json L m) txs) = Some out"
proof (rule those_map_defined)
  fix tx assume tx: "tx \<in> set txs"
  show "\<exists>j. history_json L m tx = Some j"
  proof (rule history_json_defined)
    assume "ht_height tx \<noteq> 0"
    with assms tx show "\<exists>a. m (ht_height tx) = Some a"
      by (blast intro: anchor_found anchor_heights_covers)
  qed
qed

lemma get_history_returns:
  assumes "be_anchors (hd_electrs H) = anchors" "order_ok (hd_order H)"
  shows "\<exists>r. fst (get_history H env s) = Ret r"
proof (cases "query_addresses H env")
  case (Inl e)
  then show ?thesis by (simp add: get_history_def)
next
  case (Inr addrs)
  obtain r1 s1 where h: "be_histories (hd_electrs H) (map snd addrs) s = (r1, s1)"
    by (cases "be_histories (hd_electrs H) (map snd addrs) s")
  show ?thesis
  proof (cases r1)
    case (Inl e)
    then show ?thesis using Inr h by (simp add: get_history_def)
  next
    case r1: (Inr hists)
    let ?txs = "newest_first (hd_order H) (history_limit (payload env)) (merged_history hists)"
    obtain r2 s2 where a: "anchors (anchor_heights (hd_order H) ?txs) s1 = (r2, s2)"
      by (cases "anchors (anchor_heights (hd_order H) ?txs) s1")
    show ?thesis
    proof (cases r2)
      case (Inl e)
      then show ?thesis using Inr h r1 a by (simp add: get_history_def assms(1))
    next
      case r2: (Inr m)
      obtain out where "those (map (history_json (hd_lib H) m) ?txs) = Some out"
        using history_no_panic [OF assms(2) a [unfolded r2]] by blast
      then show ?thesis using Inr h r1 a r2 by (simp add: get_history_def assms(1))
    qed
  qed
qed

end

text \<open>The handlers on the Electrum adapter.\<close>

definition handlers_new ::
    "('a, 't) chain_lib \<Rightarrow> hash_order \<Rightarrow> (string, string list) btree_map codec \<Rightarrow> 's backend
       \<Rightarrow> network \<Rightarrow> ('a, 't, 's) handlers" where
  "handlers_new L ho c B net =
     \<lparr>hd_electrs = B, hd_network = net, hd_lib = L, hd_order = ho, hd_codec = c\<rparr>"

lemma handlers_new_simps [simp]:
  "hd_electrs (handlers_new L ho c B net) = B" "hd_order (handlers_new L ho c B net) = ho"
  "hd_lib (handlers_new L ho c B net) = L" "hd_network (handlers_new L ho c B net) = net"
  "hd_codec (handlers_new L ho c B net) = c"
  by (simp_all add: handlers_new_def)

section \<open>Properties\<close>

text \<open>
  Every request is answered: on the Electrum adapter, whatever the node, the libraries and the
  file system do, \<open>handle\<close> returns, without a panic, a response that carries the request's id and
  exactly one of a result and an error, under protocol version 1.
\<close>

theorem handle_always_answers:
  assumes "order_ok ho"
  shows "\<exists>r. fst (handle (handlers_new L ho c (electrs_backend R C) net) io sender env st) = Ret r \<and>
    resp_id r = env_id env \<and> resp_wf r"
proof -
  let ?H = "handlers_new L ho c (electrs_backend R C) net"
  obtain r where "fst (get_history ?H env (fst st)) = Ret r"
    using electrs.get_history_returns [of ?H R C] assms by fastforce
  with get_history_answers [OF this]
  have h: "\<exists>r. fst (get_history ?H env (fst st)) = Ret r \<and> answers env r" by simp
  have w: "fst (case watch_addresses ?H io sender env (snd st) of (r, wd') \<Rightarrow> (Ret r, fst st, wd'))
      = Ret (fst (watch_addresses ?H io sender env (snd st)))"
    by (simp split: prod.splits)
  have "\<exists>r. fst (handle ?H io sender env st) = Ret r \<and> answers env r"
    using h by (auto simp: handle_def w handler_answers split: prod.splits)
  then show ?thesis by (simp add: answers_def)
qed

definition id_order :: hash_order where
  "id_order = \<lparr>ho_txs = id, ho_heights = id\<rparr>"

lemma id_order_ok: "order_ok id_order"
  by (simp add: order_ok_def id_order_def)

theorem handle_always_answers_witness:
  "\<exists>r. fst (handle (handlers_new \<lparr>addr_from_str = Some, require_network = (\<lambda>_. Some), script_pubkey = (\<lambda>_. []),
        txid_parse = (\<lambda>_. None), hash_str = (\<lambda>_. []), to_hex = (\<lambda>_. []), from_hex = (\<lambda>_. None),
        tx_decode = (\<lambda>_. None :: unit option), compute_txid = (\<lambda>_. [])\<rparr> id_order (sample_codec [])
        (electrs_backend clock_runtime silent_client) Bitcoin)
      io_fine ''aa'' (sample_env ''ping'' JNull) ((electrs_new ''h:1'', 7), sample_ws, Map.empty)) = Ret r \<and>
    resp_id r = ''nope'' \<and> resp_wf r"
  using handle_always_answers [OF id_order_ok, where env = "sample_env ''ping'' JNull"]
  by (simp add: sample_env_def)

end
