(* ===== verification/Replay.thy ===== *)
theory Replay
  imports Stores
begin

text \<open>
  \<open>server/src/replay.rs\<close>: the cache of seen envelope ids. A check first drops every entry older than
  the retention, then rejects a known id or records a new one with the current time and writes the
  whole cache out, ignoring errors of the write. Times are 64-bit seconds; differences saturate at 0,
  so an entry from the future is never dropped.
\<close>

section \<open>The cache\<close>

definition SEEN_FILE :: string where
  "SEEN_FILE = ''seen_ids.json''"

definition RETENTION_SECS :: u64 where
  "RETENTION_SECS = 10 * 24 * 3600"

record replay_cache =
  rc_path :: path
  rc_seen :: "(string, u64) btree_map"

definition rc_load :: "(string, u64) btree_map codec \<Rightarrow> io_env \<Rightarrow> string \<Rightarrow> fs \<Rightarrow> io_error + replay_cache" where
  "rc_load c io dir d =
     (let p = (dir, SEEN_FILE)
      in case load_json c [] io p d of
           Inl e \<Rightarrow> Inl e
         | Inr s \<Rightarrow> Inr \<lparr>rc_path = p, rc_seen = s\<rparr>)"

definition check_and_insert ::
    "(string, u64) btree_map codec \<Rightarrow> io_env \<Rightarrow> string \<Rightarrow> u64 \<Rightarrow> replay_cache \<Rightarrow> fs
       \<Rightarrow> bool \<times> replay_cache \<times> fs" where
  "check_and_insert c io i now rc d =
     (let seen = btm_retain (\<lambda>_ ts. saturating_sub now ts < RETENTION_SECS) (rc_seen rc)
      in if map_of seen i \<noteq> None then (False, rc\<lparr>rc_seen := seen\<rparr>, d)
         else let seen' = btm_insert i now seen
              in (True, rc\<lparr>rc_seen := seen'\<rparr>, snd (persist_best_effort c io (rc_path rc) seen' d)))"

definition rc_ok :: "replay_cache \<Rightarrow> bool" where
  "rc_ok rc \<longleftrightarrow> btm_ok (rc_seen rc)"

text \<open>A request as the cache sees it, and the cache as a machine.\<close>

type_synonym rc_event = "io_env \<times> string \<times> u64"

definition rc_step :: "(string, u64) btree_map codec \<Rightarrow> replay_cache \<times> fs \<Rightarrow> rc_event \<Rightarrow> bool \<times> replay_cache \<times> fs" where
  "rc_step c s e = (case e of (io, i, now) \<Rightarrow> check_and_insert c io i now (fst s) (snd s))"

section \<open>Laws\<close>

text \<open>An entry is live at a time when it would not be dropped then.\<close>

definition live_at :: "u64 \<Rightarrow> u64 \<Rightarrow> bool" where
  "live_at ts now \<longleftrightarrow> saturating_sub now ts < RETENTION_SECS"

lemma live_at_nat: "live_at ts now \<longleftrightarrow> unat now - unat ts < 864000"
  by (simp add: live_at_def RETENTION_SECS_def word_less_nat_alt nomad_word)

lemma seen_path_proper: "proper_target (dir, SEEN_FILE)"
  by (simp add: proper_target_def with_extension_def SEEN_FILE_def file_stem_def)

definition live_entry :: "replay_cache \<Rightarrow> string \<Rightarrow> u64 \<Rightarrow> u64 option" where
  "live_entry rc i now =
     (case map_of (rc_seen rc) i of None \<Rightarrow> None | Some ts \<Rightarrow> if live_at ts now then Some ts else None)"

lemma retained_entry:
  "rc_ok rc \<Longrightarrow>
     map_of (btm_retain (\<lambda>_ ts. saturating_sub now ts < RETENTION_SECS) (rc_seen rc)) i = live_entry rc i now"
  by (simp add: rc_ok_def map_of_btm_retain live_entry_def live_at_def split: option.splits)

lemma check_result: "rc_ok rc \<Longrightarrow> fst (check_and_insert c io i now rc d) \<longleftrightarrow> live_entry rc i now = None"
  by (simp add: check_and_insert_def Let_def retained_entry)

lemma check_keeps_ok:
  "rc_ok rc \<Longrightarrow> check_and_insert c io i now rc d = (b, rc', d') \<Longrightarrow> rc_ok rc' \<and> rc_path rc' = rc_path rc"
  by (auto simp: check_and_insert_def Let_def rc_ok_def split: if_splits)

lemma check_entries:
  assumes "rc_ok rc" "check_and_insert c io i now rc d = (b, rc', d')"
  shows "map_of (rc_seen rc') j = (if b \<and> j = i then Some now else live_entry rc j now)"
  using assms by (auto simp: check_and_insert_def Let_def retained_entry split: if_splits)

text \<open>What is on disk after a check: the new cache or what was there before.\<close>

lemma check_disk:
  assumes "typed_codec btm_ok c" "rc_path rc = (dir, SEEN_FILE)" "io_read rio"
    and "check_and_insert c io i now rc d = (b, rc', d')"
  shows "rc_load c rio dir d' \<in> {Inr rc', rc_load c rio dir d}"
proof (cases b)
  case False
  with assms(4) show ?thesis by (auto simp: check_and_insert_def Let_def split: if_splits)
next
  case True
  let ?p = "(dir, SEEN_FILE)"
  have usable: "usable_store c ?p"
    using assms(1) by (simp add: usable_store_def typed_codec_def seen_path_proper)
  from True assms(2,4) have d': "d' = snd (persist_best_effort c io ?p (rc_seen rc') d)"
    by (auto simp: check_and_insert_def Let_def split: if_splits)
  have rc': "rc' = \<lparr>rc_path = ?p, rc_seen = rc_seen rc'\<rparr>"
    using assms(2,4) by (cases rc) (auto simp: check_and_insert_def Let_def split: if_splits)
  show ?thesis
  proof (cases "fst (persist_best_effort c io ?p (rc_seen rc') d)")
    case True
    have "load_json c [] rio ?p d' = Inr (rc_seen rc')"
      unfolding d' by (rule best_effort_file.save_ok [OF usable assms(3) True])
    then have "rc_load c rio dir d' = Inr \<lparr>rc_path = ?p, rc_seen = rc_seen rc'\<rparr>"
      by (simp add: rc_load_def)
    then show ?thesis using rc' by simp
  next
    case False
    have "load_json c [] rio ?p d' = load_json c [] rio ?p d"
      unfolding d' by (rule best_effort_file.save_err [OF usable False])
    then show ?thesis by (simp add: rc_load_def)
  qed
qed

section \<open>Properties\<close>

text \<open>
  Acceptance is decided by the age of the id's entry alone: on a well-formed cache an id is new
  exactly when it has no entry or its entry is at least ten days (864000 s) old at the time of the
  check; an accepted id is recorded with that time, and every other entry that is not too old stays.
\<close>

theorem check_and_insert_correct:
  assumes "rc_ok rc" "check_and_insert c io i now rc d = (b, rc', d')"
  shows "(b \<longleftrightarrow> (\<forall>ts. map_of (rc_seen rc) i = Some ts \<longrightarrow> 864000 \<le> unat now - unat ts)) \<and>
    rc_ok rc' \<and>
    map_of (rc_seen rc') j =
      (if b \<and> j = i then Some now
       else case map_of (rc_seen rc) j of
              None \<Rightarrow> None
            | Some ts \<Rightarrow> if unat now - unat ts < 864000 then Some ts else None)"
proof -
  have "b = fst (check_and_insert c io i now rc d)" using assms(2) by simp
  then have "b \<longleftrightarrow> live_entry rc i now = None" using check_result [OF assms(1)] by simp
  moreover note check_keeps_ok [OF assms] check_entries [OF assms, of j]
  ultimately show ?thesis
    by (auto simp: live_entry_def live_at_nat split: option.splits if_splits)
qed

definition sample_rc :: replay_cache where
  "sample_rc = \<lparr>rc_path = (''/data'', SEEN_FILE), rc_seen = [(''id-a'', 1000000)]\<rparr>"

theorem check_and_insert_correct_witness:
  "fst (check_and_insert (sample_codec []) io_fine ''id-a'' 1863999 sample_rc Map.empty) = False \<and>
   fst (check_and_insert (sample_codec []) io_fine ''id-a'' 1864000 sample_rc Map.empty) = True"
proof -
  have ok: "rc_ok sample_rc" by (simp add: rc_ok_def sample_rc_def btm_ok_def bts_ok_def)
  have "fst (check_and_insert (sample_codec []) io_fine ''id-a'' t sample_rc Map.empty) \<longleftrightarrow> 864000 \<le> unat t - 1000000" for t
    using check_and_insert_correct [OF ok, of "sample_codec []" io_fine "''id-a''" t Map.empty]
    by (cases "check_and_insert (sample_codec []) io_fine ''id-a'' t sample_rc Map.empty") (simp add: sample_rc_def)
  then show ?thesis by simp
qed

text \<open>
  No replay inside the retention window: once an id was accepted at time \<open>t\<close>, every later check
  of that id is rejected, whatever other requests come in between and whatever the clock does, as
  long as each of the intermediate checks and the last one happen less than ten days after \<open>t\<close>; and
  if the write at the acceptance reached the disk, a restart at any point in between changes nothing,
  even when later writes fail.
\<close>

theorem no_replay_within_retention:
  assumes "rc_ok rc" "rc_path rc = (dir, SEEN_FILE)" "typed_codec btm_ok c"
    and "check_and_insert c io i t rc d = (True, rc1, d1)"
    and "exec (rc_step c) (rc1, d1) es = (outs, rc2, d2)"
    and "\<forall>e \<in> set es. unat (snd (snd e)) - unat t < 864000" "unat now - unat t < 864000"
  shows "fst (check_and_insert c io' i now rc2 d2) = False \<and>
    (io_read rio \<longrightarrow> rc_load c rio dir d1 = Inr rc1 \<longrightarrow>
       (\<exists>rc3. rc_load c rio dir d2 = Inr rc3 \<and> fst (check_and_insert c io' i now rc3 d2) = False))"
proof -
  define has where "has r \<longleftrightarrow> rc_ok r \<and> rc_path r = (dir, SEEN_FILE) \<and> map_of (rc_seen r) i = Some t" for r
  have keep: "has (fst (snd (rc_step c (r, dd) e)))"
    if "has r" "unat (snd (snd e)) - unat t < 864000" for r dd e
  proof -
    obtain io0 j n where e: "e = (io0, j, n)" by (cases e)
    obtain b r' dd' where st: "check_and_insert c io0 j n r dd = (b, r', dd')" by (metis prod_cases3)
    have live: "live_entry r i n = Some t"
      using that by (simp add: has_def live_entry_def live_at_nat e)
    have "b \<longleftrightarrow> live_entry r j n = None"
      using check_result [of r c io0 j n dd] that(1) st by (simp add: has_def)
    with live have "\<not> (b \<and> i = j)" by auto
    with live show ?thesis
      using check_entries [OF _ st, of i] check_keeps_ok [OF _ st] that(1) st
      by (auto simp: has_def rc_step_def e)
  qed
  define disk where "disk dd \<longleftrightarrow> io_read rio \<longrightarrow> rc_load c rio dir d1 = Inr rc1 \<longrightarrow>
    (\<exists>r. rc_load c rio dir dd = Inr r \<and> has r)" for dd
  have run: "has r2 \<and> disk dd2"
    if "has r" "disk dd" "exec (rc_step c) (r, dd) fs = (os, r2, dd2)"
      "\<forall>e \<in> set fs. unat (snd (snd e)) - unat t < 864000" for fs r dd os r2 dd2
    using that
  proof (induction fs arbitrary: r dd os)
    case Nil
    then show ?case by simp
  next
    case (Cons e fs)
    obtain b r1 dd1 where st: "rc_step c (r, dd) e = (b, r1, dd1)" by (metis prod_cases3)
    have "has r1" using keep [OF Cons.prems(1), of e dd] Cons.prems(4) st by simp
    moreover have "disk dd1"
      using Cons.prems(1,2) check_disk [OF assms(3), of r dir rio] st \<open>has r1\<close>
      by (cases e) (fastforce simp: disk_def has_def rc_step_def)
    ultimately show ?case
      using Cons.IH [of r1 dd1] Cons.prems(3,4) st by (auto simp: Let_def split: prod.splits)
  qed
  have "has rc1"
    using check_keeps_ok [OF assms(1,4)] check_entries [OF assms(1,4), of i] assms(2) by (simp add: has_def)
  moreover from this have "disk d1" by (auto simp: disk_def)
  ultimately have "has rc2" "disk d2" using run assms(5,6) by blast+
  moreover have "fst (check_and_insert c io' i now r d2) = False" if "has r" for r
    using that assms(7) by (simp add: has_def check_result live_entry_def live_at_nat)
  ultimately show ?thesis by (auto simp: disk_def)
qed

theorem no_replay_within_retention_witness:
  "fst (check_and_insert (sample_codec []) io_fine ''id-b'' 1000600
     (fst (snd (exec (rc_step (sample_codec [])) (snd (check_and_insert (sample_codec []) io_fine ''id-b''
        1000000 sample_rc Map.empty)) [(io_fine, ''id-c'', 1000300)]))) Map.empty) = False"
proof -
  let ?c = "sample_codec []"
  have h: "rc_ok sample_rc" "rc_path sample_rc = (''/data'', SEEN_FILE)" "typed_codec btm_ok ?c"
    by (auto simp: rc_ok_def sample_rc_def btm_ok_def bts_ok_def intro: sample_codec_typed)
  obtain b rc1 d1 where s1: "check_and_insert ?c io_fine ''id-b'' 1000000 sample_rc Map.empty = (b, rc1, d1)"
    by (metis prod_cases3)
  then have b: "b = True"
    using check_result [OF h(1), of ?c io_fine "''id-b''" 1000000 Map.empty]
    by (simp add: live_entry_def sample_rc_def)
  obtain os rc2 d2 where s2: "exec (rc_step ?c) (rc1, d1) [(io_fine, ''id-c'', 1000300)] = (os, rc2, d2)"
    by (metis prod_cases3)
  have "fst (check_and_insert ?c io_fine ''id-b'' 1000600 rc2 d2) = False"
    using no_replay_within_retention [OF h s1 [unfolded b] s2, of 1000600 io_fine io_fine] by simp
  moreover have "fst (check_and_insert ?c io_fine ''id-b'' 1000600 rc2 d2) =
      fst (check_and_insert ?c io_fine ''id-b'' 1000600 rc2 Map.empty)"
    by (simp add: check_and_insert_def Let_def)
  ultimately show ?thesis using s1 s2 by simp
qed

end
