(* ===== verification/RateLimit.thy ===== *)
theory RateLimit
  imports Prelude Float64
begin

text \<open>
  \<open>server/src/ratelimit.rs\<close>: a token bucket per sender, its tokens a floating-point number. The
  lemmas show that the floating-point bucket computes exactly what a bucket of natural numbers does
  (even where the conversion of the elapsed time rounds), and the budget contract of the prelude
  then bounds how many requests any window of time lets through.
\<close>

section \<open>The limiter\<close>

definition TOKENS_PER_SEC :: f64 where
  "TOKENS_PER_SEC = Fin 1"

definition BURST :: f64 where
  "BURST = Fin 10"

record bucket =
  tokens :: f64
  last_refill :: u64

type_synonym rate_limiter = "string \<rightharpoonup> bucket"

definition rl_new :: rate_limiter where
  "rl_new = Map.empty"

declare rl_new_def [simp]

definition new_bucket :: "u64 \<Rightarrow> bucket" where
  "new_bucket now = \<lparr>tokens = BURST, last_refill = now\<rparr>"

definition refill :: "u64 \<Rightarrow> bucket \<Rightarrow> bucket" where
  "refill now b =
     (let elapsed = f64_of_u64 (saturating_sub now (last_refill b))
      in \<lparr>tokens = f64_min (f64_add (tokens b) (f64_mul elapsed TOKENS_PER_SEC)) BURST,
          last_refill = now\<rparr>)"

definition take_token :: "bucket \<Rightarrow> bool \<times> bucket" where
  "take_token b =
     (if f64_le (Fin 1) (tokens b) then (True, b\<lparr>tokens := f64_sub (tokens b) (Fin 1)\<rparr>)
      else (False, b))"

definition allow :: "string \<Rightarrow> u64 \<Rightarrow> rate_limiter \<Rightarrow> bool \<times> rate_limiter" where
  "allow k now rl =
     (let b = (case rl k of None \<Rightarrow> new_bucket now | Some b \<Rightarrow> b)
      in case take_token (refill now b) of (r, b') \<Rightarrow> (r, rl(k \<mapsto> b')))"

definition rl_step :: "rate_limiter \<Rightarrow> string \<times> u64 \<Rightarrow> bool \<times> rate_limiter" where
  "rl_step rl e = allow (fst e) (snd e) rl"

section \<open>The bucket of natural numbers\<close>

definition level :: "bucket \<Rightarrow> nat" where
  "level b = (case tokens b of Fin q \<Rightarrow> nat \<lfloor>q\<rfloor> | _ \<Rightarrow> 0)"

definition bucket_ok :: "bucket \<Rightarrow> bool" where
  "bucket_ok b \<longleftrightarrow> (\<exists>n \<le> 10. tokens b = Fin (of_nat n))"

lemma bucket_okE:
  assumes "bucket_ok b"
  obtains "tokens b = Fin (of_nat (level b))" "level b \<le> 10"
  using assms by (auto simp: bucket_ok_def level_def)

lemma level_upd [simp]: "level (b\<lparr>tokens := Fin (of_nat n)\<rparr>) = n"
  by (simp add: level_def)

definition age :: "u64 \<Rightarrow> bucket \<Rightarrow> nat" where
  "age now b = unat now - unat (last_refill b)"

lemma u64_small: "unat (n :: u64) < 2 ^ 64"
  using unsigned_less [of n, where 'a = nat] by simp

text \<open>Adding the elapsed seconds and capping: exact below \<open>2^53\<close>, at the cap beyond.\<close>

lemma f64_min_ge_burst: "f64_ge v 10 \<Longrightarrow> f64_min v BURST = BURST"
  by (auto simp: f64_ge_def f64_min_def BURST_def)

lemma f64_mul_one_ge: "f64_ge v x \<Longrightarrow> 1 \<le> x \<Longrightarrow> f64_ge (f64_mul v (Fin 1)) (x / 2)"
proof -
  assume v: "f64_ge v x" and x: "1 \<le> x"
  show ?thesis
  proof (cases "v = PInf")
    case True
    then show ?thesis by (simp add: f64_ge_def f64_signed_inf_def)
  next
    case False
    with v obtain a where a: "v = Fin a" "x \<le> a" by (auto simp: f64_ge_def)
    have "f64_ge (f64_of_rat a) (a / 2)" using a(2) x by (intro f64_of_rat_ge) simp
    then show ?thesis using a by (auto simp: f64_ge_def)
  qed
qed

lemma f64_add_nat_ge: "f64_ge v x \<Longrightarrow> 1 \<le> x \<Longrightarrow> f64_ge (f64_add (Fin (of_nat n)) v) (x / 2)"
proof -
  assume v: "f64_ge v x" and x: "1 \<le> x"
  show ?thesis
  proof (cases "v = PInf")
    case True
    then show ?thesis by (simp add: f64_ge_def)
  next
    case False
    with v obtain a where a: "v = Fin a" "x \<le> a" by (auto simp: f64_ge_def)
    have le: "x \<le> of_nat n + a" using a(2) by (simp add: add_increasing)
    have "f64_ge (f64_of_rat (of_nat n + a)) ((of_nat n + a) / 2)"
      using le x by (intro f64_of_rat_ge) simp
    then show ?thesis using a(1) le by (auto simp: f64_ge_def)
  qed
qed

lemma refill_tokens:
  assumes "n \<le> 10"
  shows "f64_min (f64_add (Fin (of_nat n)) (f64_mul (f64_of_rat (of_nat m)) TOKENS_PER_SEC)) BURST
    = Fin (of_nat (min (n + m) 10))"
proof (cases "m + 10 \<le> 2 ^ 53")
  case True
  then have m: "f64_of_rat (of_nat m) = Fin (of_nat m)"
    by (intro f64_of_rat_nat) simp
  from True assms have "f64_of_rat (of_nat (n + m)) = Fin (of_nat (n + m))"
    by (intro f64_of_rat_nat) simp
  with m show ?thesis
    by (auto simp: TOKENS_PER_SEC_def BURST_def f64_min_def min_def)
next
  case False
  then have k: "80 \<le> m" by simp
  then have big: "(of_nat 80 :: rat) \<le> of_nat m" by (simp only: of_nat_le_iff)
  then have "f64_ge (f64_of_rat (of_nat m)) (of_nat m / 2)"
    by (intro f64_of_rat_ge) simp
  with big have "f64_ge (f64_of_rat (of_nat m)) 40" by (auto simp: f64_ge_def)
  then have "f64_ge (f64_mul (f64_of_rat (of_nat m)) (Fin 1)) 20" using f64_mul_one_ge by fastforce
  then have "f64_ge (f64_add (Fin (of_nat n)) (f64_mul (f64_of_rat (of_nat m)) (Fin 1))) 10"
    using f64_add_nat_ge by fastforce
  then show ?thesis
    using k f64_min_ge_burst by (simp add: TOKENS_PER_SEC_def BURST_def)
qed

lemma refill_level:
  assumes "bucket_ok b"
  shows "refill now b = \<lparr>tokens = Fin (of_nat (min (level b + age now b) 10)), last_refill = now\<rparr>"
  using assms refill_tokens [of "level b" "age now b"]
  by (elim bucket_okE)
    (simp only: refill_def f64_of_u64_def unat_saturating_sub age_def [symmetric] Let_def)

lemma take_token_level:
  assumes "n \<le> 10"
  shows "take_token \<lparr>tokens = Fin (of_nat n), last_refill = t\<rparr> =
    (0 < n, \<lparr>tokens = Fin (of_nat (n - 1)), last_refill = t\<rparr>)"
proof (cases n)
  case 0
  then show ?thesis by (simp add: take_token_def)
next
  case (Suc m)
  then have "f64_of_rat (of_nat m) = Fin (of_nat m)"
    using assms by (intro f64_of_rat_nat) simp
  with Suc show ?thesis by (simp add: take_token_def f64_sub_def)
qed

section \<open>One sender's bucket as a budget machine\<close>

definition bucket_step :: "bucket \<Rightarrow> u64 \<Rightarrow> bool \<times> bucket" where
  "bucket_step b now = take_token (refill now b)"

definition refilled :: "bucket \<Rightarrow> u64 \<Rightarrow> nat" where
  "refilled b now = min (level b + age now b) 10"

lemma bucket_step_level:
  "bucket_ok b \<Longrightarrow> bucket_step b now =
     (0 < refilled b now, \<lparr>tokens = Fin (of_nat (refilled b now - 1)), last_refill = now\<rparr>)"
  by (simp add: bucket_step_def refill_level take_token_level refilled_def)

lemma bucket_ok_fin [simp]: "n \<le> 10 \<Longrightarrow> bucket_ok \<lparr>tokens = Fin (of_nat n), last_refill = t\<rparr>"
  by (auto simp: bucket_ok_def)

lemma refilled_le: "refilled b now \<le> 10"
  by (simp add: refilled_def)

lemma level_fin [simp]: "level \<lparr>tokens = Fin (of_nat n), last_refill = t\<rparr> = n"
  by (simp add: level_def)

definition answer_cost :: "bool \<Rightarrow> nat" where
  "answer_cost r = (if r then 1 else 0)"

interpretation limiter: budget_machine bucket_step bucket_ok level answer_cost "\<lambda>b now. age now b"
  by unfold_locales
    (auto simp: bucket_step_level answer_cost_def refilled_def intro!: bucket_ok_fin)

lemma gains_telescope:
  "bucket_ok b \<Longrightarrow> sorted (map unat (last_refill b # ts)) \<Longrightarrow>
     gains bucket_step (\<lambda>b now. age now b) b ts = unat (last (last_refill b # ts)) - unat (last_refill b)"
proof (induction ts arbitrary: b)
  case Nil
  then show ?case by simp
next
  case (Cons t ts)
  let ?b = "snd (bucket_step b t)"
  have b: "?b = \<lparr>tokens = Fin (of_nat (refilled b t - 1)), last_refill = t\<rparr>"
    using Cons.prems by (simp add: bucket_step_level)
  have ok: "bucket_ok ?b" using limiter.step_good Cons.prems(1) by blast
  have "unat t \<le> unat (last (t # ts))"
    using Cons.prems(2) by (cases ts rule: rev_cases) auto
  then show ?case
    using Cons.IH [OF ok] Cons.prems(2) by (auto simp: b age_def)
qed

lemma window_from_bucket:
  assumes "bucket_ok b" "sorted (map unat (t # ts))"
  shows "sum_list (map answer_cost (fst (exec bucket_step b (t # ts))))
           \<le> 10 + (unat (last (t # ts)) - unat t)"
proof -
  let ?b = "snd (bucket_step b t)"
  have ok: "bucket_ok ?b" using limiter.step_good assms(1) by blast
  have lr: "last_refill ?b = t" and first: "answer_cost (fst (bucket_step b t)) + level ?b \<le> 10"
    using assms(1) refilled_le [of b t] by (auto simp: bucket_step_level answer_cost_def)
  have "sum_list (map answer_cost (fst (exec bucket_step ?b ts))) \<le> level ?b + (unat (last (t # ts)) - unat t)"
    using limiter.run_cost [OF ok, of ts] gains_telescope [OF ok, of ts] assms(2) lr by simp
  with first show ?thesis by (simp only: exec_Cons) simp
qed

section \<open>The whole limiter, one sender at a time\<close>

definition rl_ok :: "rate_limiter \<Rightarrow> bool" where
  "rl_ok rl \<longleftrightarrow> (\<forall>k b. rl k = Some b \<longrightarrow> bucket_ok b)"

definition bucket_for :: "rate_limiter \<Rightarrow> string \<Rightarrow> u64 \<Rightarrow> bucket" where
  "bucket_for rl k now = (case rl k of None \<Rightarrow> new_bucket now | Some b \<Rightarrow> b)"

lemma new_bucket_ok [simp]: "bucket_ok (new_bucket now)"
  using bucket_ok_fin [of 10 now] by (simp add: new_bucket_def BURST_def)

lemma bucket_for_ok: "rl_ok rl \<Longrightarrow> bucket_ok (bucket_for rl k now)"
  by (auto simp: bucket_for_def rl_ok_def split: option.splits)

lemma allow_step:
  "allow k now rl = (fst (bucket_step (bucket_for rl k now) now),
     rl(k \<mapsto> snd (bucket_step (bucket_for rl k now) now)))"
  by (simp add: allow_def bucket_step_def bucket_for_def Let_def split: prod.splits)

text \<open>The times of one sender's requests in a run, and the answers they got.\<close>

definition times_of :: "string \<Rightarrow> (string \<times> u64) list \<Rightarrow> u64 list" where
  "times_of k es = map snd (filter (\<lambda>e. fst e = k) es)"

fun answers_of :: "string \<Rightarrow> (string \<times> u64) list \<Rightarrow> bool list \<Rightarrow> bool list" where
  "answers_of k (e # es) (r # rs) = (if fst e = k then r # answers_of k es rs else answers_of k es rs)"
| "answers_of k _ _ = []"

lemma answers_cons:
  "answers_of k (e # es) (fst (exec rl_step rl (e # es))) =
     (if fst e = k then [fst (rl_step rl e)] else [])
       @ answers_of k es (fst (exec rl_step (snd (rl_step rl e)) es))"
  by (simp only: exec_Cons) simp

lemma answers_tracked:
  "rl k = Some b \<Longrightarrow>
     answers_of k es (fst (exec rl_step rl es)) = fst (exec bucket_step b (times_of k es))"
proof (induction es arbitrary: rl b)
  case Nil
  then show ?case by (simp add: times_of_def)
next
  case (Cons e es)
  let ?rl = "snd (rl_step rl e)"
  show ?case
  proof (cases "fst e = k")
    case True
    then have "?rl k = Some (snd (bucket_step b (snd e)))" "fst (rl_step rl e) = fst (bucket_step b (snd e))"
      using Cons.prems by (simp_all add: rl_step_def allow_step bucket_for_def)
    with True show ?thesis
      using Cons.IH [of ?rl] unfolding answers_cons by (simp add: times_of_def case_prod_beta Let_def)
  next
    case False
    then have "?rl k = Some b"
      using Cons.prems by (simp add: rl_step_def allow_step)
    with False show ?thesis
      using Cons.IH [of ?rl b] unfolding answers_cons by (simp add: times_of_def)
  qed
qed

lemma answers_machine:
  assumes "rl_ok rl"
  shows "\<exists>b. bucket_ok b \<and> (\<forall>b'. rl k = Some b' \<longrightarrow> b = b') \<and>
    (rl k = None \<longrightarrow> times_of k es \<noteq> [] \<longrightarrow> b = new_bucket (hd (times_of k es))) \<and>
    answers_of k es (fst (exec rl_step rl es)) = fst (exec bucket_step b (times_of k es))"
  using assms
proof (induction es arbitrary: rl)
  case Nil
  then show ?case
    using bucket_for_ok [of rl k 0]
    by (intro exI [of _ "bucket_for rl k 0"]) (auto simp: times_of_def bucket_for_def)
next
  case (Cons e es)
  let ?rl = "snd (rl_step rl e)"
  show ?case
  proof (cases "fst e = k")
    case True
    let ?b = "bucket_for rl k (snd e)"
    have "?rl k = Some (snd (bucket_step ?b (snd e)))" "fst (rl_step rl e) = fst (bucket_step ?b (snd e))"
      using True by (simp_all add: rl_step_def allow_step)
    then show ?thesis
      using True bucket_for_ok [OF Cons.prems, of k "snd e"] answers_tracked [of ?rl k]
      unfolding answers_cons
      by (intro exI [of _ ?b]) (auto simp: times_of_def case_prod_beta Let_def bucket_for_def)
  next
    case False
    have ok: "rl_ok ?rl"
      using Cons.prems limiter.step_good bucket_for_ok [OF Cons.prems]
      by (auto simp: rl_step_def allow_step rl_ok_def)
    have same: "?rl k = rl k" using False by (simp add: rl_step_def allow_step)
    show ?thesis
      using False Cons.IH [OF ok] unfolding answers_cons same by (simp add: times_of_def)
  qed
qed

lemma sum_answer_cost: "sum_list (map answer_cost rs) = length (filter id rs)"
  by (induction rs) (auto simp: answer_cost_def)

section \<open>Properties\<close>

text \<open>
  C32. The floating-point bucket is exact: from any limiter whose buckets hold 0 to 10 whole tokens,
  one call for a sender with \<open>n\<close> tokens (10 if it has no bucket yet) after \<open>e\<close> whole seconds, for
  every 64-bit \<open>e\<close> whatever its conversion to a double rounds to, computes with \<open>min (n + e) 10\<close>
  tokens: it succeeds exactly when there is one, leaves one less (or none), remembers the time, and
  touches no other sender's bucket.
\<close>

theorem allow_exact:
  assumes "rl_ok rl" "allow k now rl = (r, rl')"
  shows "let m = (case rl k of None \<Rightarrow> 10 | Some b \<Rightarrow> min (level b + (unat now - unat (last_refill b))) 10)
    in (r \<longleftrightarrow> 0 < m) \<and> rl' = rl(k \<mapsto> \<lparr>tokens = Fin (of_nat (m - 1)), last_refill = now\<rparr>) \<and> rl_ok rl'"
proof -
  let ?b = "bucket_for rl k now"
  have "refilled ?b now = (case rl k of None \<Rightarrow> 10
      | Some b \<Rightarrow> min (level b + (unat now - unat (last_refill b))) 10)"
    by (simp add: refilled_def age_def bucket_for_def new_bucket_def BURST_def level_def split: option.splits)
  moreover have ok: "bucket_ok ?b" by (rule bucket_for_ok [OF assms(1)])
  moreover have rl': "rl' = rl(k \<mapsto> snd (bucket_step ?b now))" "r = fst (bucket_step ?b now)"
    using assms(2) by (simp_all add: allow_step)
  moreover have "rl_ok rl'"
    using assms(1) limiter.step_good [OF ok, of now] by (simp add: rl'(1) rl_ok_def)
  ultimately show ?thesis
    by (simp only: bucket_step_level fst_conv snd_conv Let_def simp_thms)
qed

theorem allow_exact_witness:
  "fst (allow ''pk'' 18446744073709551615
     [''pk'' \<mapsto> \<lparr>tokens = Fin 0, last_refill = 0\<rparr>, ''other'' \<mapsto> \<lparr>tokens = Fin 3, last_refill = 7\<rparr>])"
proof -
  let ?rl = "[''pk'' \<mapsto> \<lparr>tokens = Fin 0, last_refill = 0\<rparr>, ''other'' \<mapsto> \<lparr>tokens = Fin 3, last_refill = 7\<rparr>]"
    and ?now = "18446744073709551615"
  have "rl_ok ?rl"
    using bucket_ok_fin [of 0 0] bucket_ok_fin [of 3 7] by (simp add: rl_ok_def)
  from allow_exact [OF this, of "''pk''" ?now] show ?thesis
    by (cases "allow ''pk'' ?now ?rl") (simp add: level_def Let_def)
qed

text \<open>
  C33. The limit of PROTOCOL 7 (60 requests a minute, burst 10) holds in every window: take any run of
  requests of any senders from any state of the limiter and one sender whose requests in it carry
  non-decreasing times; at most ten plus the number of seconds between its first and its last
  request are allowed.
\<close>

theorem rate_window_bound:
  assumes "rl_ok rl" "times_of k es = t # ts" "sorted (map unat (t # ts))"
  shows "length (filter id (answers_of k es (fst (exec rl_step rl es))))
           \<le> 10 + (unat (last (t # ts)) - unat t)"
proof -
  obtain b where "bucket_ok b"
    and "answers_of k es (fst (exec rl_step rl es)) = fst (exec bucket_step b (t # ts))"
    using answers_machine [OF assms(1), of k es] assms(2) by auto
  then show ?thesis
    using window_from_bucket [of b t ts] assms(3) by (simp add: sum_answer_cost)
qed

theorem rate_window_bound_witness:
  "length (filter id (answers_of ''pk'' (replicate 12 (''pk'', 1000) @ [(''pk'', 1003)])
     (fst (exec rl_step Map.empty (replicate 12 (''pk'', 1000) @ [(''pk'', 1003)]))))) \<le> 13"
proof -
  have t: "times_of ''pk'' (replicate 12 (''pk'', 1000) @ [(''pk'', 1003)])
      = 1000 # replicate 11 1000 @ [1003]"
    by (simp add: times_of_def numeral_eq_Suc)
  show ?thesis
    using rate_window_bound [of Map.empty, OF _ t] by (simp add: rl_ok_def sorted_append)
qed

lemma burst_from_bucket:
  "bucket_ok b \<Longrightarrow> length ts \<le> level b \<Longrightarrow> set (fst (exec bucket_step b ts)) \<subseteq> {True}"
proof (induction ts arbitrary: b)
  case Nil
  then show ?case by simp
next
  case (Cons t ts)
  obtain m where "refilled b t = Suc m" "length ts \<le> m"
    using Cons.prems by (cases "refilled b t") (auto simp: refilled_def elim: bucket_okE)
  then show ?case
    using Cons.IH [OF limiter.step_good [OF Cons.prems(1)], of t] Cons.prems(1)
    by (simp add: bucket_step_level case_prod_beta Let_def)
qed

fun spaced :: "u64 \<Rightarrow> u64 list \<Rightarrow> bool" where
  "spaced t [] = True"
| "spaced t (u # us) = (unat t < unat u \<and> spaced u us)"

lemma spaced_from_bucket:
  "bucket_ok b \<Longrightarrow> spaced (last_refill b) ts \<Longrightarrow> set (fst (exec bucket_step b ts)) \<subseteq> {True}"
proof (induction ts arbitrary: b)
  case Nil
  then show ?case by simp
next
  case (Cons t ts)
  have "0 < refilled b t" using Cons.prems by (simp add: refilled_def age_def)
  then show ?case
    using Cons.IH [OF limiter.step_good [OF Cons.prems(1)], of t] Cons.prems
    by (simp add: bucket_step_level case_prod_beta Let_def)
qed

text \<open>
  The limiter never starves a well-behaved sender: a sender without a bucket gets its first ten
  requests answered whatever their times, and a sender whose every request comes at least a second
  after its previous one is never limited, however long the run.
\<close>

theorem well_behaved_never_limited:
  assumes "rl_ok rl" "rl k = None" "times_of k es = t # ts"
    and "length (t # ts) \<le> 10 \<or> spaced t ts"
  shows "set (answers_of k es (fst (exec rl_step rl es))) \<subseteq> {True}"
proof -
  have e: "answers_of k es (fst (exec rl_step rl es)) = fst (exec bucket_step (new_bucket t) (t # ts))"
    using answers_machine [OF assms(1), of k es] assms(2,3) by auto
  have lv: "level (new_bucket t) = 10" by (simp add: new_bucket_def BURST_def level_def)
  show ?thesis
  proof (cases "length (t # ts) \<le> 10")
    case True
    then show ?thesis using burst_from_bucket [of "new_bucket t" "t # ts"] e lv by simp
  next
    case False
    with assms(4) have "spaced t ts" by blast
    then show ?thesis
      using e lv spaced_from_bucket [OF limiter.step_good [of "new_bucket t" t], of ts]
      by (simp add: bucket_step_level refilled_def case_prod_beta Let_def)
  qed
qed

theorem well_behaved_never_limited_witness:
  "set (answers_of ''pk'' (replicate 10 (''pk'', 1000)) (fst (exec rl_step Map.empty (replicate 10 (''pk'', 1000)))))
     \<subseteq> {True}"
proof -
  have "times_of ''pk'' (replicate 10 (''pk'', 1000)) = 1000 # replicate 9 1000"
    by (simp add: times_of_def numeral_eq_Suc)
  from well_behaved_never_limited [of Map.empty, OF _ _ this] show ?thesis
    by (simp add: rl_ok_def)
qed

end
