(* ===== verification/Pairing.thy ===== *)
theory Pairing
  imports Prelude
begin

text \<open>
  \<open>server/src/pairing.rs\<close>: the one-time pairing secret. It is shown in the pairing payload, verified
  at most once, burned after five wrong proofs or on expiry. HMAC-SHA-256, hexadecimal and base64url
  coding come from other crates and are parameters; so are the random bytes of a new secret and the
  time. The constant-time comparison is equality (its timing is not modelled). The proof the wallet
  computes is that of \<open>server/examples/pair_client.rs\<close>.
\<close>

section \<open>The pairing manager\<close>

record crypto =
  hmac_sha256 :: "bytes \<Rightarrow> bytes \<Rightarrow> bytes"
  hex_encode :: "bytes \<Rightarrow> string"
  hex_decode :: "string \<Rightarrow> bytes option"
  b64url_encode :: "bytes \<Rightarrow> string"
  b64url_decode :: "string \<Rightarrow> bytes option"

definition as_bytes :: "string \<Rightarrow> bytes" where
  "as_bytes s = map of_char s"

definition SECRET_TTL_SECS :: u64 where
  "SECRET_TTL_SECS = 600"

definition MAX_ATTEMPTS :: u8 where
  "MAX_ATTEMPTS = 5"

record pairing_payload =
  pp_v :: u8
  pp_app :: string
  pp_node_pubkey :: string
  pp_relays :: "string list"
  pp_pair_secret :: string
  pp_exp :: u64

record secret_state =
  secret :: bytes
  expires_at :: u64
  used :: bool
  attempts :: u8

type_synonym pairing_manager = "secret_state option"

definition pm_new :: pairing_manager where
  "pm_new = None"

definition secret_live :: "u64 \<Rightarrow> pairing_manager \<Rightarrow> bool" where
  "secret_live now pm = (case pm of None \<Rightarrow> False | Some s \<Rightarrow> \<not> used s \<and> now < expires_at s)"

definition fresh_secret :: "u64 \<Rightarrow> bytes \<Rightarrow> secret_state" where
  "fresh_secret now rnd =
     \<lparr>secret = rnd, expires_at = now + SECRET_TTL_SECS, used = False, attempts = 0\<rparr>"

definition show_payload :: "crypto \<Rightarrow> string \<Rightarrow> string list \<Rightarrow> secret_state \<Rightarrow> pairing_payload" where
  "show_payload K node_pubkey relays s =
     \<lparr>pp_v = 1, pp_app = ''nomad-server'', pp_node_pubkey = node_pubkey, pp_relays = relays,
      pp_pair_secret = b64url_encode K (secret s), pp_exp = expires_at s\<rparr>"

definition payload_at ::
    "crypto \<Rightarrow> bytes \<Rightarrow> u64 \<Rightarrow> string \<Rightarrow> string list \<Rightarrow> pairing_manager \<Rightarrow> pairing_payload \<times> pairing_manager" where
  "payload_at K rnd now node_pubkey relays pm =
     (let s = (case pm of
                 None \<Rightarrow> fresh_secret now rnd
               | Some s \<Rightarrow> if secret_live now pm then s else fresh_secret now rnd)
      in (show_payload K node_pubkey relays s, Some s))"

definition verify_at ::
    "crypto \<Rightarrow> u64 \<Rightarrow> string \<Rightarrow> string \<Rightarrow> pairing_manager \<Rightarrow> bool \<times> pairing_manager" where
  "verify_at K now wallet_pubkey proof pm =
     (case pm of
        None \<Rightarrow> (False, None)
      | Some s \<Rightarrow>
          if used s \<or> expires_at s \<le> now \<or> MAX_ATTEMPTS \<le> attempts s then (False, Some s)
          else
            (let expected = hmac_sha256 K (secret s) (as_bytes wallet_pubkey);
                 ok = (case hex_decode K proof of None \<Rightarrow> False | Some p \<Rightarrow> p = expected)
             in if ok then (True, Some (s\<lparr>used := True\<rparr>))
                else
                  (let s' = s\<lparr>attempts := attempts s + 1\<rparr>
                   in (False, if MAX_ATTEMPTS \<le> attempts s' then None else Some s'))))"

text \<open>The proof a wallet derives from the payload (\<open>None\<close> if the secret does not decode).\<close>

definition client_proof :: "crypto \<Rightarrow> pairing_payload \<Rightarrow> string \<Rightarrow> string option" where
  "client_proof K p wallet_pubkey =
     map_option (\<lambda>sec. hex_encode K (hmac_sha256 K sec (as_bytes wallet_pubkey)))
       (b64url_decode K (pp_pair_secret p))"

text \<open>The coding libraries decode what they encode.\<close>

definition crypto_ok :: "crypto \<Rightarrow> bool" where
  "crypto_ok K \<longleftrightarrow> (\<forall>b. hex_decode K (hex_encode K b) = Some b) \<and>
     (\<forall>b. b64url_decode K (b64url_encode K b) = Some b)"

section \<open>The manager as a machine\<close>

text \<open>
  The server shows the payload on every visit of the pairing page and verifies a proof on every
  \<open>pair\<close> request. The answer to a proof also records whether it was compared with a secret at all.
\<close>

datatype pair_event =
    Show u64 bytes string "string list"
  | Verify u64 string string

datatype pair_out = Shown pairing_payload | Verdict bool bool

definition proof_compared :: "u64 \<Rightarrow> pairing_manager \<Rightarrow> bool" where
  "proof_compared now pm = (secret_live now pm \<and> (\<forall>s. pm = Some s \<longrightarrow> attempts s < MAX_ATTEMPTS))"

fun pm_step :: "crypto \<Rightarrow> pairing_manager \<Rightarrow> pair_event \<Rightarrow> pair_out \<times> pairing_manager" where
  "pm_step K pm (Show now rnd node relays) =
     (case payload_at K rnd now node relays pm of (p, pm') \<Rightarrow> (Shown p, pm'))"
| "pm_step K pm (Verify now pk proof) =
     (case verify_at K now pk proof pm of (ok, pm') \<Rightarrow> (Verdict (proof_compared now pm) ok, pm'))"

text \<open>Between requests a stored secret always has attempts left.\<close>

definition pm_ok :: "pairing_manager \<Rightarrow> bool" where
  "pm_ok pm \<longleftrightarrow> (\<forall>s. pm = Some s \<longrightarrow> unat (attempts s) < 5)"

lemma max_attempts_nat: "MAX_ATTEMPTS \<le> a \<longleftrightarrow> 5 \<le> unat a" "a < MAX_ATTEMPTS \<longleftrightarrow> unat a < 5"
  by (simp_all add: MAX_ATTEMPTS_def word_le_nat_alt word_less_nat_alt)

lemma unat_next_attempt: "unat a < 5 \<Longrightarrow> unat (a + 1 :: u8) = unat a + 1"
  by (simp add: unat_word_ariths)

lemma pm_ok_new [simp]: "pm_ok pm_new"
  by (simp add: pm_ok_def pm_new_def)

lemma payload_pm_ok: "pm_ok pm \<Longrightarrow> pm_ok (snd (payload_at K rnd now node relays pm))"
  by (auto simp: payload_at_def pm_ok_def fresh_secret_def Let_def split: option.splits)

lemma verify_pm_ok: "pm_ok pm \<Longrightarrow> pm_ok (snd (verify_at K now pk proof pm))"
  by (auto simp: verify_at_def pm_ok_def Let_def max_attempts_nat split: option.splits)

fun fresh_gain :: "pairing_manager \<Rightarrow> pair_event \<Rightarrow> nat" where
  "fresh_gain pm (Show now rnd node relays) = (if secret_live now pm then 0 else 1)"
| "fresh_gain pm (Verify now pk proof) = 0"

fun success_cost :: "pair_out \<Rightarrow> nat" where
  "success_cost (Verdict compared ok) = (if ok then 1 else 0)"
| "success_cost (Shown p) = 0"

fun guess_cost :: "pair_out \<Rightarrow> nat" where
  "guess_cost (Verdict compared ok) = (if compared then 1 else 0)"
| "guess_cost (Shown p) = 0"

definition unused_credit :: "pairing_manager \<Rightarrow> nat" where
  "unused_credit pm = (case pm of None \<Rightarrow> 0 | Some s \<Rightarrow> if used s then 0 else 1)"

definition guess_credit :: "pairing_manager \<Rightarrow> nat" where
  "guess_credit pm = (case pm of None \<Rightarrow> 0 | Some s \<Rightarrow> if used s then 0 else 5 - unat (attempts s))"

definition guess_gain :: "pairing_manager \<Rightarrow> pair_event \<Rightarrow> nat" where
  "guess_gain pm e = 5 * fresh_gain pm e"

lemma pm_step_ok: "pm_ok pm \<Longrightarrow> pm_ok (snd (pm_step K pm e))"
  using payload_pm_ok verify_pm_ok by (cases e) (auto split: prod.splits, metis snd_conv, metis snd_conv)

lemma pm_step_success:
  "success_cost (fst (pm_step K pm e)) + unused_credit (snd (pm_step K pm e))
     \<le> unused_credit pm + fresh_gain pm e"
  by (cases e)
    (auto simp: payload_at_def verify_at_def unused_credit_def secret_live_def fresh_secret_def Let_def
      split: option.splits if_splits)

lemma pm_step_guess:
  "pm_ok pm \<Longrightarrow> guess_cost (fst (pm_step K pm e)) + guess_credit (snd (pm_step K pm e))
     \<le> guess_credit pm + guess_gain pm e"
  by (cases e)
    (auto simp: payload_at_def verify_at_def guess_credit_def guess_gain_def secret_live_def
      fresh_secret_def proof_compared_def max_attempts_nat pm_ok_def unat_next_attempt Let_def
      split: option.splits if_splits)

interpretation pair_success: budget_machine "pm_step K" pm_ok unused_credit success_cost fresh_gain for K
  by unfold_locales (auto intro: pm_step_ok pm_step_success)

interpretation pair_guess: budget_machine "pm_step K" pm_ok guess_credit guess_cost guess_gain for K
  by unfold_locales (auto intro: pm_step_guess)

section \<open>Properties\<close>

definition secrets_generated :: "crypto \<Rightarrow> pairing_manager \<Rightarrow> pair_event list \<Rightarrow> nat" where
  "secrets_generated K pm es = gains (pm_step K) fresh_gain pm es"

lemma guess_gains: "gains (pm_step K) guess_gain pm es = 5 * secrets_generated K pm es"
  by (induction es arbitrary: pm) (simp_all add: secrets_generated_def guess_gain_def)

text \<open>
  A secret pairs at most once: in every life of the pairing manager from start-up, with any
  interleaving of page loads and \<open>pair\<close> requests at any times, the number of proofs accepted is at
  most the number of secrets generated.
\<close>

theorem pairings_at_most_secrets:
  "sum_list (map success_cost (fst (exec (pm_step K) pm_new es))) \<le> secrets_generated K pm_new es"
  using pair_success.run_cost [of pm_new K es]
  by (simp add: secrets_generated_def unused_credit_def pm_new_def pm_ok_def)

text \<open>
  At most five guesses per secret: in every life of the pairing manager, the number of proofs
  that are compared with a secret's HMAC, right or wrong, is at most five times the number of secrets
  generated (all other proofs are refused without looking at them).
\<close>

theorem guesses_at_most_five_per_secret:
  "sum_list (map guess_cost (fst (exec (pm_step K) pm_new es))) \<le> 5 * secrets_generated K pm_new es"
  using pair_guess.run_cost [of pm_new K es]
  by (simp add: guess_gains guess_credit_def pm_new_def pm_ok_def)

text \<open>A proof derived from the payload that is shown is accepted until the payload expires.\<close>

lemma shown_proof_accepted:
  assumes "crypto_ok K" "pm_ok pm" "payload_at K rnd now node relays pm = (p, pm1)"
    and "client_proof K p pk = Some proof" "t < pp_exp p"
  shows "\<exists>s. pm1 = Some s \<and> p = show_payload K node relays s \<and> \<not> used s \<and> t < expires_at s \<and>
    verify_at K t pk proof pm1 = (True, Some (s\<lparr>used := True\<rparr>))"
proof -
  from assms(3) obtain s where s: "pm1 = Some s" "p = show_payload K node relays s"
    by (auto simp: payload_at_def Let_def)
  have "pm_ok pm1" using payload_pm_ok [OF assms(2)] assms(3) by (metis snd_conv)
  then have a: "\<not> MAX_ATTEMPTS \<le> attempts s" by (simp add: pm_ok_def s max_attempts_nat)
  have u: "\<not> used s"
    using assms(3) s(1)
    by (auto simp: payload_at_def Let_def fresh_secret_def secret_live_def split: option.splits if_splits)
  have e: "t < expires_at s" using assms(5) by (simp add: s(2) show_payload_def)
  have d: "hex_decode K proof = Some (hmac_sha256 K (secret s) (as_bytes pk))"
    using assms(1,4) by (auto simp: client_proof_def crypto_ok_def s(2) show_payload_def)
  show ?thesis using a u e d by (simp add: verify_at_def s)
qed

text \<open>
  The handshake of PROTOCOL 4.2 works: whatever state the manager is in, a wallet that reads the
  payload shown on the page and sends the HMAC proof it derives from it before the payload's
  expiry is accepted; the secret is burned by that, so afterwards every proof of every wallet at any
  time is refused; and the page shows the same payload again while its secret is live.
\<close>

theorem honest_pairing_once:
  assumes "crypto_ok K" "pm_ok pm" "payload_at K rnd now node relays pm = (p, pm1)"
    and "client_proof K p pk = Some proof" "t < pp_exp p"
  shows "fst (verify_at K t pk proof pm1) \<and>
    \<not> fst (verify_at K t' pk' proof' (snd (verify_at K t pk proof pm1))) \<and>
    payload_at K rnd' t node relays pm1 = (p, pm1)"
proof -
  from shown_proof_accepted [OF assms] obtain s where s: "pm1 = Some s" "p = show_payload K node relays s" "\<not> used s"
      "t < expires_at s" and v: "verify_at K t pk proof pm1 = (True, Some (s\<lparr>used := True\<rparr>))" by blast
  have burned: "\<not> fst (verify_at K t' pk' proof' (Some (s\<lparr>used := True\<rparr>)))"
    by (simp add: verify_at_def)
  have "payload_at K rnd' t node relays pm1 = (p, pm1)"
    using s by (simp add: payload_at_def secret_live_def)
  then show ?thesis by (simp only: v fst_conv snd_conv burned simp_thms)
qed

definition toy_crypto :: crypto where
  "toy_crypto = \<lparr>hmac_sha256 = (\<lambda>k m. k @ m), hex_encode = map (\<lambda>b. char_of (unat b)),
     hex_decode = (\<lambda>s. Some (map (\<lambda>c. of_nat (of_char c)) s)),
     b64url_encode = map (\<lambda>b. char_of (unat b)),
     b64url_decode = (\<lambda>s. Some (map (\<lambda>c. of_nat (of_char c)) s))\<rparr>"

lemma toy_byte: "(of_nat (unat b mod 256) :: u8) = b"
proof -
  have "unat b < 256" using unsigned_less [of b, where 'a = nat] by simp
  then show ?thesis by simp
qed

lemma toy_crypto_ok: "crypto_ok toy_crypto"
  by (simp add: crypto_ok_def toy_crypto_def toy_byte comp_def)

theorem honest_pairing_once_witness:
  "fst (verify_at toy_crypto 1002 ''walletpk''
     (hex_encode toy_crypto (hmac_sha256 toy_crypto [7] (as_bytes ''walletpk'')))
     (snd (payload_at toy_crypto [7] 1000 ''nodepk'' [] pm_new)))"
proof -
  let ?p = "show_payload toy_crypto ''nodepk'' [] (fresh_secret 1000 [7])"
  have p: "payload_at toy_crypto [7] 1000 ''nodepk'' [] pm_new = (?p, Some (fresh_secret 1000 [7]))"
    by (simp add: payload_at_def pm_new_def Let_def)
  have c: "client_proof toy_crypto ?p ''walletpk'' =
      Some (hex_encode toy_crypto (hmac_sha256 toy_crypto [7] (as_bytes ''walletpk'')))"
    using toy_crypto_ok by (simp add: client_proof_def crypto_ok_def show_payload_def fresh_secret_def)
  have t: "1002 < pp_exp ?p"
    by (simp add: show_payload_def fresh_secret_def SECRET_TTL_SECS_def)
  show ?thesis
    using honest_pairing_once [OF toy_crypto_ok pm_ok_new p c t] p by simp
qed

text \<open>
  What an accepted proof means: the manager held an unused, unexpired secret with attempts left,
  and the proof decodes to exactly the HMAC of the sender's own key under that secret; any other
  proof compared with a live secret costs one attempt, the fifth wrong one erases the secret, and a
  proof that is not compared changes nothing.
\<close>

theorem verify_at_correct:
  assumes "pm_ok pm" "verify_at K now pk proof pm = (ok, pm')"
  shows "if proof_compared now pm
    then (\<exists>s. pm = Some s \<and> (ok \<longleftrightarrow> hex_decode K proof = Some (hmac_sha256 K (secret s) (as_bytes pk))) \<and>
      pm' = (if ok then Some (s\<lparr>used := True\<rparr>)
             else if unat (attempts s) = 4 then None else Some (s\<lparr>attempts := attempts s + 1\<rparr>)))
    else \<not> ok \<and> pm' = pm"
  using assms
  by (auto simp: verify_at_def proof_compared_def secret_live_def pm_ok_def Let_def max_attempts_nat
      unat_next_attempt split: option.splits if_splits)

theorem verify_at_correct_witness:
  "verify_at toy_crypto 1001 ''w'' ''00''
     (Some \<lparr>secret = [7], expires_at = 1600, used = False, attempts = 4\<rparr>) = (False, None)"
proof -
  let ?pm = "Some \<lparr>secret = [7], expires_at = 1600, used = False, attempts = 4\<rparr>"
  have ok: "pm_ok ?pm" by (simp add: pm_ok_def)
  obtain r pm' where v: "verify_at toy_crypto 1001 ''w'' ''00'' ?pm = (r, pm')" by fastforce
  show ?thesis
    using verify_at_correct [OF ok v] v
    by (simp add: proof_compared_def secret_live_def max_attempts_nat toy_crypto_def as_bytes_def split: if_splits)
qed

end
