(* ===== verification/Transport.thy ===== *)
theory Transport
  imports Handlers Replay RateLimit Pairing
begin

text \<open>
  \<open>server/src/transport.rs\<close>: from a received event to a response. The state the transport shares with
  the other tasks is the record \<open>server\<close>; what is fixed at start-up is a \<open>transport\<close>; the time of a
  request and the outcome of the system calls made for it are a \<open>req_env\<close>. NIP-59 unwrapping,
  \<open>serde_json\<close> and the UUID syntax are parameters; publishing the response is the output. Requests are
  handled one after the other, as the loop of \<open>run\<close> awaits each of them.
\<close>

section \<open>State\<close>

record 's server =
  sv_allowlist :: allowlist
  sv_watch :: watch_store
  sv_pairing :: pairing_manager
  sv_replay :: replay_cache
  sv_ratelimit :: rate_limiter
  sv_fs :: fs
  sv_backend :: 's

record ('a, 't, 's) transport =
  tr_handlers :: "('a, 't, 's) handlers"
  tr_crypto :: crypto
  tr_al_codec :: "string list codec"
  tr_rc_codec :: "(string, u64) btree_map codec"
  tr_from_str :: "string \<Rightarrow> request_envelope option"
  tr_uuid_ok :: "string \<Rightarrow> bool"

text \<open>The making of the transport: what stays as it is, and the shared state with a new rate limiter.\<close>

definition transport_new ::
    "('a, 't, 's) handlers \<Rightarrow> crypto \<Rightarrow> string list codec \<Rightarrow> (string, u64) btree_map codec
       \<Rightarrow> (string \<Rightarrow> request_envelope option) \<Rightarrow> (string \<Rightarrow> bool) \<Rightarrow> ('a, 't, 's) transport" where
  "transport_new H K ca cr from_str uuid_ok =
     \<lparr>tr_handlers = H, tr_crypto = K, tr_al_codec = ca, tr_rc_codec = cr, tr_from_str = from_str, tr_uuid_ok = uuid_ok\<rparr>"

definition server_new ::
    "allowlist \<Rightarrow> watch_store \<Rightarrow> pairing_manager \<Rightarrow> replay_cache \<Rightarrow> fs \<Rightarrow> 's \<Rightarrow> 's server" where
  "server_new al ws pm rc d b =
     \<lparr>sv_allowlist = al, sv_watch = ws, sv_pairing = pm, sv_replay = rc, sv_ratelimit = rl_new, sv_fs = d, sv_backend = b\<rparr>"

declare transport_new_def [simp] server_new_def [simp]

record req_env =
  rq_now :: u64
  rq_io_replay :: io_env
  rq_io_allowlist :: io_env
  rq_io_watch :: io_env

section \<open>Routing\<close>

definition pair_proof :: "request_envelope \<Rightarrow> string" where
  "pair_proof env = (case field as_str (payload env) ''proof'' of None \<Rightarrow> [] | Some p \<Rightarrow> p)"

definition handle_pair ::
    "('a, 't, 's) transport \<Rightarrow> req_env \<Rightarrow> string \<Rightarrow> request_envelope \<Rightarrow> 's server \<Rightarrow> response_envelope \<times> 's server" where
  "handle_pair T rq sender env st =
     (if is_paired (sv_allowlist st) sender then
        (response_err (env_id env) PairingFailed ''pairing failed'', st)
      else
        (case verify_at (tr_crypto T) (rq_now rq) sender (pair_proof env) (sv_pairing st) of
           (False, pm) \<Rightarrow>
             (response_err (env_id env) PairingFailed ''pairing failed'', st\<lparr>sv_pairing := pm\<rparr>)
         | (True, pm) \<Rightarrow>
             (case al_add (tr_al_codec T) (rq_io_allowlist rq) sender (sv_allowlist st) (sv_fs st) of
                (Inl e, al, d) \<Rightarrow>
                  (response_err (env_id env) Internal ''internal error'',
                   st\<lparr>sv_pairing := pm, sv_allowlist := al, sv_fs := d\<rparr>)
              | (Inr _, al, d) \<Rightarrow>
                  (response_ok (env_id env) (JObject [(''server'', JString SERVER_VERSION)]),
                   st\<lparr>sv_pairing := pm, sv_allowlist := al, sv_fs := d\<rparr>))))"

definition handle_unpair ::
    "('a, 't, 's) transport \<Rightarrow> req_env \<Rightarrow> string \<Rightarrow> request_envelope \<Rightarrow> 's server \<Rightarrow> response_envelope \<times> 's server" where
  "handle_unpair T rq sender env st =
     (case al_remove (tr_al_codec T) (rq_io_allowlist rq) sender (sv_allowlist st) (sv_fs st) of
        (Inr True, al, d) \<Rightarrow>
          (case ws_remove_wallet (hd_codec (tr_handlers T)) (rq_io_watch rq) sender (sv_watch st) d of
             (_, ws, d') \<Rightarrow>
               (response_ok (env_id env) (JObject []),
                st\<lparr>sv_allowlist := al, sv_watch := ws, sv_fs := d'\<rparr>))
      | (Inr False, al, d) \<Rightarrow>
          (response_err (env_id env) NotPaired ''not paired'', st\<lparr>sv_allowlist := al, sv_fs := d\<rparr>)
      | (Inl e, al, d) \<Rightarrow>
          (response_err (env_id env) Internal ''internal error'', st\<lparr>sv_allowlist := al, sv_fs := d\<rparr>))"

definition run_handler ::
    "('a, 't, 's) transport \<Rightarrow> req_env \<Rightarrow> string \<Rightarrow> request_envelope \<Rightarrow> 's server \<Rightarrow> response_envelope run \<times> 's server" where
  "run_handler T rq sender env st =
     (case handle (tr_handlers T) (rq_io_watch rq) sender env (sv_backend st, sv_watch st, sv_fs st) of
        (r, s, ws, d) \<Rightarrow> (r, st\<lparr>sv_backend := s, sv_watch := ws, sv_fs := d\<rparr>))"

definition dispatch ::
    "('a, 't, 's) transport \<Rightarrow> req_env \<Rightarrow> string \<Rightarrow> request_envelope \<Rightarrow> 's server \<Rightarrow> response_envelope run \<times> 's server" where
  "dispatch T rq sender env st =
     (if msg_type env = ''pair'' then
        (case handle_pair T rq sender env st of (r, st') \<Rightarrow> (Ret r, st'))
      else if \<not> is_paired (sv_allowlist st) sender then
        (Ret (response_err (env_id env) NotPaired ''not paired''), st)
      else if msg_type env = ''unpair'' then
        (case handle_unpair T rq sender env st of (r, st') \<Rightarrow> (Ret r, st'))
      else if msg_type env \<in> set KNOWN_TYPES then run_handler T rq sender env st
      else (Ret (response_err (env_id env) UnknownType ''unknown type''), st))"

definition route ::
    "('a, 't, 's) transport \<Rightarrow> req_env \<Rightarrow> string \<Rightarrow> request_envelope \<Rightarrow> 's server
       \<Rightarrow> response_envelope option run \<times> 's server" where
  "route T rq sender env st =
     (case check_and_insert (tr_rc_codec T) (rq_io_replay rq) (env_id env) (rq_now rq) (sv_replay st) (sv_fs st) of
        (False, rc, d) \<Rightarrow> (Ret None, st\<lparr>sv_replay := rc, sv_fs := d\<rparr>)
      | (True, rc, d) \<Rightarrow>
          (case allow sender (rq_now rq) (sv_ratelimit st) of
             (False, rl) \<Rightarrow>
               (Ret (Some (response_err (env_id env) RateLimited ''slow down'')),
                st\<lparr>sv_replay := rc, sv_fs := d, sv_ratelimit := rl\<rparr>)
           | (True, rl) \<Rightarrow>
               (case dispatch T rq sender env (st\<lparr>sv_replay := rc, sv_fs := d, sv_ratelimit := rl\<rparr>) of
                  (Panic, st') \<Rightarrow> (Panic, st')
                | (Ret r, st') \<Rightarrow> (Ret (Some r), st'))))"

section \<open>Events\<close>

record gift =
  gf_sender :: string
  gf_kind :: "16 word"
  gf_content :: string

text \<open>The output: the recipient and the content of the response to publish, if any.\<close>

definition handle_event ::
    "('a, 't, 's) transport \<Rightarrow> ('ev \<Rightarrow> gift option) \<Rightarrow> req_env \<Rightarrow> 'ev \<Rightarrow> 's server
       \<Rightarrow> (string \<times> json) option run \<times> 's server" where
  "handle_event T from_gift_wrap rq ev st =
     (case from_gift_wrap ev of
        None \<Rightarrow> (Ret None, st)
      | Some g \<Rightarrow>
          if gf_kind g \<noteq> KIND_REQUEST then (Ret None, st)
          else
            (case parse_request (tr_from_str T) (tr_uuid_ok T) (gf_content g) of
               Inr env \<Rightarrow>
                 (case route T rq (gf_sender g) env st of
                    (Panic, st') \<Rightarrow> (Panic, st')
                  | (Ret None, st') \<Rightarrow> (Ret None, st')
                  | (Ret (Some r), st') \<Rightarrow> (Ret (Some (gf_sender g, response_to_json r)), st'))
             | Inl (Some r) \<Rightarrow> (Ret (Some (gf_sender g, response_to_json r)), st)
             | Inl None \<Rightarrow> (Ret None, st)))"

section \<open>The invariant of the shared state\<close>

definition server_ok :: "'s server \<Rightarrow> bool" where
  "server_ok st \<longleftrightarrow> al_ok (sv_allowlist st) \<and> ws_ok (sv_watch st) \<and> pm_ok (sv_pairing st) \<and>
     rc_ok (sv_replay st) \<and> rl_ok (sv_ratelimit st)"

text \<open>Where the three files of the transport are.\<close>

definition in_dir :: "string \<Rightarrow> 's server \<Rightarrow> bool" where
  "in_dir dir st \<longleftrightarrow> al_path (sv_allowlist st) = (dir, ALLOWLIST_FILE) \<and>
     ws_path (sv_watch st) = (dir, WATCHSETS_FILE) \<and> rc_path (sv_replay st) = (dir, SEEN_FILE)"

end
