(* ===== verification/Http.thy ===== *)
theory Http
  imports Transport
begin

text \<open>
  \<open>server/src/http.rs\<close>: the LAN web interface. A page load shows the pairing payload (and makes a new
  secret when the old one is not live), the start page lists the paired wallets, the health check
  asks the backend for its tip, and \<open>revoke\<close> takes a wallet off the allowlist. How axum matches a request
  against the table of routes and decodes a form, and the drawing of the QR code, are parameters.
\<close>

section \<open>The pages\<close>

text \<open>What the pages share, the preflight of the node adapter among it.\<close>

record 's app_state =
  ap_config :: config
  ap_server_pubkey :: string
  ap_crypto :: crypto
  ap_al_codec :: "string list codec"
  ap_preflight :: "'s \<Rightarrow> (backend_error + unit) \<times> 's"

definition current_payload ::
    "'s app_state \<Rightarrow> u64 \<Rightarrow> bytes \<Rightarrow> 's server \<Rightarrow> pairing_payload \<times> 's server" where
  "current_payload A now rnd st =
     (case payload_at (ap_crypto A) rnd now (ap_server_pubkey A) (relays (ap_config A)) (sv_pairing st) of
        (p, pm) \<Rightarrow> (p, st\<lparr>sv_pairing := pm\<rparr>))"

definition payload_json :: "pairing_payload \<Rightarrow> json" where
  "payload_json p =
     JObject
       [(''v'', JNumber (PosInt (ucast (pp_v p)))), (''app'', JString (pp_app p)),
        (''nodePubkey'', JString (pp_node_pubkey p)), (''relays'', JArray (map JString (pp_relays p))),
        (''pairSecret'', JString (pp_pair_secret p)), (''exp'', json_u64 (pp_exp p))]"

definition pairing_json :: "'s app_state \<Rightarrow> u64 \<Rightarrow> bytes \<Rightarrow> 's server \<Rightarrow> json \<times> 's server" where
  "pairing_json A now rnd st = (case current_payload A now rnd st of (p, st') \<Rightarrow> (payload_json p, st'))"

text \<open>The image, or \<open>None\<close> for status 500; the drawing of the JSON text is a parameter.\<close>

definition pairing_qr_svg ::
    "'s app_state \<Rightarrow> (json \<Rightarrow> string option) \<Rightarrow> u64 \<Rightarrow> bytes \<Rightarrow> 's server \<Rightarrow> string option \<times> 's server" where
  "pairing_qr_svg A draw now rnd st =
     (case current_payload A now rnd st of (p, st') \<Rightarrow> (draw (payload_json p), st'))"

fun network_debug :: "network \<Rightarrow> string" where
  "network_debug Bitcoin = ''Bitcoin''"
| "network_debug Testnet = ''Testnet''"
| "network_debug Signet = ''Signet''"
| "network_debug Regtest = ''Regtest''"

definition wallet_row :: "string \<Rightarrow> string" where
  "wallet_row pk =
     ''<tr><td><code>'' @ pk @ ''</code></td>''
     @ ''<td><form method='post' action='/revoke' style='display:inline'>''
     @ ''<input type='hidden' name='pubkey' value='' @ [CHR 0x27] @ pk @ [CHR 0x27] @ ''>''
     @ ''<button type='submit'>revoke</button></form></td></tr>''"

definition relay_item :: "string \<Rightarrow> string" where
  "relay_item r = ''<li><code>'' @ r @ ''</code></li>''"

definition index_page :: "'s app_state \<Rightarrow> 's server \<Rightarrow> string" where
  "index_page A st =
     (let wallets = al_list (sv_allowlist st);
          wallet_rows = concat (map wallet_row wallets);
          relay_items = concat (map relay_item (relays (ap_config A)))
      in ''<!doctype html><html><head><meta charset='utf-8'>''
         @ ''<meta name='viewport' content='width=device-width, initial-scale=1'>''
         @ ''<title>Nomad Server</title>''
         @ ''<style>body{font-family:system-ui,sans-serif;max-width:44em;margin:2em auto;padding:0 1em}''
         @ ''code{word-break:break-all}img{max-width:280px}</style></head><body>''
         @ ''<h1>Nomad Server</h1>''
         @ ''<p>Pubkey: <code>'' @ ap_server_pubkey A @ ''</code><br>Network: ''
         @ network_debug (network (ap_config A)) @ '' '' @ utf8 [194, 183] @ '' Electrs: <code>''
         @ electrs_addr (ap_config A) @ ''</code></p>''
         @ ''<h2>Pair a wallet</h2>''
         @ ''<p>Scan with the Nomad wallet (valid for one pairing, 10 minutes):</p>''
         @ ''<p><img src='/qr' alt='pairing QR'></p>''
         @ ''<p><a href='/pairing'>pairing JSON</a> (manual fallback '' @ utf8 [226, 128, 148]
         @ '' treat it like a password)</p>''
         @ ''<h2>Relays</h2><ul>'' @ relay_items @ ''</ul>''
         @ ''<h2>Paired wallets ('' @ dec_str (length wallets) @ '')</h2>''
         @ ''<table>'' @ wallet_rows @ ''</table>''
         @ ''</body></html>'')"

text \<open>The answer of the health checks, with its status code.\<close>

definition health :: string where
  "health = ''ok''"

definition health_electrs :: "'s app_state \<Rightarrow> 's server \<Rightarrow> (nat \<times> string) \<times> 's server" where
  "health_electrs A st =
     (case ap_preflight A (sv_backend st) of
        (Inr _, s) \<Rightarrow> ((200, ''ok''), st\<lparr>sv_backend := s\<rparr>)
      | (Inl _, s) \<Rightarrow> ((503, ''electrs unreachable''), st\<lparr>sv_backend := s\<rparr>))"

text \<open>Revocation always redirects to the start page.\<close>

definition revoke_wallet :: "'s app_state \<Rightarrow> io_env \<Rightarrow> string \<Rightarrow> 's server \<Rightarrow> string \<times> 's server" where
  "revoke_wallet A io pubkey st =
     (case al_remove (ap_al_codec A) io pubkey (sv_allowlist st) (sv_fs st) of
        (_, al, d) \<Rightarrow> (''/'', st\<lparr>sv_allowlist := al, sv_fs := d\<rparr>))"

section \<open>The routes\<close>

datatype endpoint = Index | PairingJson | PairingQr | HealthPage | HealthElectrs | RevokeWallet

datatype http_method = GET | HEAD | POST | OtherMethod

definition router :: "(string \<times> http_method \<times> endpoint) list" where
  "router =
     [(''/'', GET, Index), (''/pairing'', GET, PairingJson), (''/qr'', GET, PairingQr), (''/health'', GET, HealthPage),
      (''/health/electrs'', GET, HealthElectrs), (''/revoke'', POST, RevokeWallet)]"

text \<open>
  What axum does: it matches a method and a path against a table of routes, and it decodes the body of a
  form with the field \<open>pubkey\<close>; or it answers with a status code itself. The second and third definitions are
  its documented behaviour on a table without repeated paths: the handler of a route is called for its
  method, that of \<open>get\<close> for \<open>HEAD\<close> too, and no other.
\<close>

record axum =
  ax_route :: "(string \<times> http_method \<times> endpoint) list \<Rightarrow> http_method \<Rightarrow> string \<Rightarrow> nat + endpoint"
  ax_form :: "string \<Rightarrow> nat + string"

definition serves :: "http_method \<Rightarrow> http_method \<Rightarrow> bool" where
  "serves m0 m \<longleftrightarrow> m = m0 \<or> (m0 = GET \<and> m = HEAD)"

definition axum_ok :: "axum \<Rightarrow> bool" where
  "axum_ok X \<longleftrightarrow> (\<forall>table m p e. distinct (map fst table) \<longrightarrow>
     (ax_route X table m p = Inr e \<longleftrightarrow> (\<exists>m'. (p, m', e) \<in> set table \<and> serves m' m)))"

record http_req =
  hq_method :: http_method
  hq_path :: string
  hq_body :: string

text \<open>The clock, the random bytes, the system calls and the drawing for one request.\<close>

record http_env =
  he_now :: u64
  he_rnd :: bytes
  he_io :: io_env
  he_draw :: "json \<Rightarrow> string option"

datatype http_reply = Html string | JsonDoc json | SvgDoc string | Status nat string | SeeOther string

definition http_serve ::
    "axum \<Rightarrow> 's app_state \<Rightarrow> http_env \<Rightarrow> http_req \<Rightarrow> 's server \<Rightarrow> http_reply \<times> 's server" where
  "http_serve X A he hq st =
     (case ax_route X router (hq_method hq) (hq_path hq) of
        Inl code \<Rightarrow> (Status code [], st)
      | Inr Index \<Rightarrow> (Html (index_page A st), st)
      | Inr PairingJson \<Rightarrow> (case pairing_json A (he_now he) (he_rnd he) st of (j, st') \<Rightarrow> (JsonDoc j, st'))
      | Inr PairingQr \<Rightarrow>
          (case pairing_qr_svg A (he_draw he) (he_now he) (he_rnd he) st of
             (None, st') \<Rightarrow> (Status 500 [], st')
           | (Some svg, st') \<Rightarrow> (SvgDoc svg, st'))
      | Inr HealthPage \<Rightarrow> (Status 200 health, st)
      | Inr HealthElectrs \<Rightarrow> (case health_electrs A st of ((code, t), st') \<Rightarrow> (Status code t, st'))
      | Inr RevokeWallet \<Rightarrow>
          (case ax_form X (hq_body hq) of
             Inl code \<Rightarrow> (Status code [], st)
           | Inr pubkey \<Rightarrow> (case revoke_wallet A (he_io he) pubkey st of (u, st') \<Rightarrow> (SeeOther u, st'))))"

end
