(* ===== verification/Watcher.thy ===== *)
theory Watcher
  imports Handlers
begin

text \<open>
  \<open>server/src/watcher.rs\<close>: the periodic check of every paired wallet's watch set. A tick takes a snapshot
  of the watch sets, asks the backend for the histories of each wallet's addresses in chunks of 200,
  compares the transactions found with those known from the last tick, stores the new ones in
  \<open>watcher_state.json\<close> (best effort) and sends a notification for each difference. What the rest of
  the server and the system do meanwhile is in a \<open>tick_env\<close>: whether a wallet is paired when its turn
  comes, which system calls fail, the fresh ids and times of the envelopes. Sending over the relays
  is an output.
\<close>

section \<open>Known transactions and differences\<close>

definition STATE_FILE :: string where
  "STATE_FILE = ''watcher_state.json''"

definition BATCH :: nat where
  "BATCH = 200"

type_synonym observation = "(string, u64) hash_map"
type_synonym wallet_state = "(string, observation) hash_map"

definition is_news :: "observation \<Rightarrow> string \<times> u64 \<Rightarrow> bool" where
  "is_news known p =
     (case map_of known (fst p) of
        None \<Rightarrow> True
      | Some h \<Rightarrow> h = 0 \<and> 0 < snd p)"

definition diff ::
    "((string \<times> u64) list \<Rightarrow> (string \<times> u64) list) \<Rightarrow> observation option \<Rightarrow> observation \<Rightarrow> (string \<times> u64) list" where
  "diff iter known current =
     (case known of
        None \<Rightarrow> []
      | Some k \<Rightarrow> filter (is_news k) (iter current))"

section \<open>The watcher\<close>

record ('a, 't, 's) watcher =
  w_electrs :: "'s backend"
  w_network :: network
  w_lib :: "('a, 't) chain_lib"
  w_iter :: "(string \<times> u64) list \<Rightarrow> (string \<times> u64) list"
  w_codec :: "wallet_state codec"
  w_state_path :: path
  w_from_hex :: "string \<Rightarrow> string option"
  w_interval :: nat

definition DEFAULT_INTERVAL :: nat where
  "DEFAULT_INTERVAL = 60"

text \<open>The state and the interval at start-up.\<close>

definition watcher_load :: "wallet_state codec \<Rightarrow> io_env \<Rightarrow> string \<Rightarrow> fs \<Rightarrow> io_error + wallet_state" where
  "watcher_load c io dir d = load_json c [] io (dir, STATE_FILE) d"

definition watcher_interval :: "(string \<rightharpoonup> string) \<Rightarrow> nat" where
  "watcher_interval var =
     (case Option.bind (var ''NOMAD_WATCH_INTERVAL_SECS'') (parse_uint (2 ^ 64)) of
        Some n \<Rightarrow> n
      | None \<Rightarrow> DEFAULT_INTERVAL)"

text \<open>The parts of a watcher that stay as they are, and its making.\<close>

definition watcher_made ::
    "'s backend \<Rightarrow> network \<Rightarrow> ('a, 't) chain_lib \<Rightarrow> ((string \<times> u64) list \<Rightarrow> (string \<times> u64) list) \<Rightarrow> wallet_state codec
       \<Rightarrow> (string \<Rightarrow> string option) \<Rightarrow> (string \<rightharpoonup> string) \<Rightarrow> string \<Rightarrow> ('a, 't, 's) watcher" where
  "watcher_made B net L iter c key_of var dir =
     \<lparr>w_electrs = B, w_network = net, w_lib = L, w_iter = iter, w_codec = c, w_state_path = (dir, STATE_FILE),
      w_from_hex = key_of, w_interval = watcher_interval var\<rparr>"

declare watcher_made_def [simp]

definition watcher_new ::
    "'s backend \<Rightarrow> network \<Rightarrow> ('a, 't) chain_lib \<Rightarrow> ((string \<times> u64) list \<Rightarrow> (string \<times> u64) list) \<Rightarrow> wallet_state codec
       \<Rightarrow> (string \<Rightarrow> string option) \<Rightarrow> (string \<rightharpoonup> string) \<Rightarrow> string \<Rightarrow> io_env \<Rightarrow> fs
       \<Rightarrow> io_error + ('a, 't, 's) watcher \<times> wallet_state" where
  "watcher_new B net L iter c key_of var dir io d =
     (case watcher_load c io dir d of
        Inl e \<Rightarrow> Inl e
      | Inr known \<Rightarrow> Inr (watcher_made B net L iter c key_of var dir, known))"

record notification =
  nt_wallet :: string
  nt_txid :: string
  nt_addresses :: "string list"
  nt_height :: u64
  nt_id :: string
  nt_ts :: u64

definition notify_json :: "notification \<Rightarrow> json" where
  "notify_json n =
     JObject
       [(''v'', json_u64 1), (''id'', JString (nt_id n)), (''ts'', json_u64 (nt_ts n)),
        (''type'', JString ''notify''),
        (''payload'', JObject
           [(''kind'', JString ''new_tx''), (''txid'', JString (nt_txid n)),
            (''addresses'', JArray (map JString (nt_addresses n))), (''height'', json_u64 (nt_height n))])]"

text \<open>The public key must parse; the notification is then sent to it.\<close>

definition notify ::
    "('a, 't, 's) watcher \<Rightarrow> string \<Rightarrow> string \<Rightarrow> string list \<Rightarrow> u64 \<Rightarrow> string \<times> u64 \<Rightarrow> notification option" where
  "notify W wallet txid addresses height fresh =
     (case w_from_hex W wallet of
        None \<Rightarrow> None
      | Some pk \<Rightarrow>
          Some \<lparr>nt_wallet = pk, nt_txid = txid, nt_addresses = addresses, nt_height = height,
                nt_id = fst fresh, nt_ts = snd fresh\<rparr>)"

record tick_env =
  te_paired :: "string \<Rightarrow> bool"
  te_fresh :: "string \<Rightarrow> nat \<Rightarrow> string \<times> u64"
  te_io :: "string \<Rightarrow> io_env"
  te_io_end :: io_env

text \<open>The two tables a scan fills: heights by transaction, and the addresses each one touches.\<close>

type_synonym scan = "observation \<times> (string, string list) hash_map"

definition scan_entry :: "('a, 't) chain_lib \<Rightarrow> string \<Rightarrow> scan \<Rightarrow> history_res \<Rightarrow> scan" where
  "scan_entry L addr ct h =
     (let txid = hash_str L (his_tx_hash h)
      in (hm_max txid (i32_max0 (his_height h)) (fst ct), hm_push txid addr (snd ct)))"

text \<open>The histories of one chunk, from index \<open>k\<close> of the address list on; indexing past it panics.\<close>

fun scan_chunk ::
    "('a, 't) chain_lib \<Rightarrow> string list \<Rightarrow> nat \<Rightarrow> history_res list list \<Rightarrow> scan \<Rightarrow> scan run" where
  "scan_chunk L addr_of k [] ct = Ret ct"
| "scan_chunk L addr_of k (hist # hists) ct =
     (if length addr_of \<le> k then Panic
      else scan_chunk L addr_of (Suc k) hists (foldl (scan_entry L (addr_of ! k)) ct hist))"

function chunks :: "nat \<Rightarrow> 'x list \<Rightarrow> 'x list list" where
  "chunks n xs = (if xs = [] \<or> n = 0 then [] else take n xs # chunks n (drop n xs))"
  by auto
termination
  by (relation "measure (length \<circ> snd)") auto

declare chunks.simps [simp del]

fun scan_chunks ::
    "('a, 't, 's) watcher \<Rightarrow> string list \<Rightarrow> nat \<Rightarrow> script list list \<Rightarrow> scan \<Rightarrow> 's
       \<Rightarrow> (backend_error + scan) run \<times> 's" where
  "scan_chunks W addr_of i [] ct s = (Ret (Inr ct), s)"
| "scan_chunks W addr_of i (c # cs) ct s =
     (case be_histories (w_electrs W) c s of
        (Inl e, s') \<Rightarrow> (Ret (Inl e), s')
      | (Inr hists, s') \<Rightarrow>
          (case scan_chunk (w_lib W) addr_of (i * BATCH) hists ct of
             Panic \<Rightarrow> (Panic, s')
           | Ret ct' \<Rightarrow> scan_chunks W addr_of (Suc i) cs ct' s'))"

text \<open>The addresses that parse, with their scripts.\<close>

definition watched :: "('a, 't, 's) watcher \<Rightarrow> string list \<Rightarrow> (string \<times> script) list" where
  "watched W addrs =
     List.map_filter (\<lambda>a. map_option (Pair a) (parse_address (w_lib W) (w_network W) a)) addrs"

type_synonym 's tick_state = "wallet_state \<times> fs \<times> 's"

definition persist_state :: "('a, 't, 's) watcher \<Rightarrow> io_env \<Rightarrow> wallet_state \<Rightarrow> fs \<Rightarrow> fs" where
  "persist_state W io state d = snd (persist_best_effort (w_codec W) io (w_state_path W) state d)"

text \<open>The loop that sends: the k-th difference, with its fresh id and time; failures are skipped.\<close>

definition send_deltas ::
    "('a, 't, 's) watcher \<Rightarrow> string \<Rightarrow> (nat \<Rightarrow> string \<times> u64) \<Rightarrow> (string, string list) hash_map
       \<Rightarrow> (string \<times> u64) list \<Rightarrow> notification list" where
  "send_deltas W wallet fresh touched deltas =
     List.map_filter
       (\<lambda>(k, txid, height).
          notify W wallet txid (case map_of touched txid of None \<Rightarrow> [] | Some as \<Rightarrow> as) height (fresh k))
       (enumerate 0 deltas)"

definition tick_wallet ::
    "('a, 't, 's) watcher \<Rightarrow> tick_env \<Rightarrow> string \<Rightarrow> string list \<Rightarrow> 's tick_state
       \<Rightarrow> ((backend_error + unit) run \<times> notification list) \<times> 's tick_state" where
  "tick_wallet W te wallet addrs st =
     (case st of (state, d, s) \<Rightarrow>
        if addrs = [] then ((Ret (Inr ()), []), st)
        else
          (let ws = watched W addrs
           in case scan_chunks W (map fst ws) 0 (chunks BATCH (map snd ws)) ([], []) s of
                (Panic, s') \<Rightarrow> ((Panic, []), (state, d, s'))
              | (Ret (Inl e), s') \<Rightarrow> ((Ret (Inl e), []), (state, d, s'))
              | (Ret (Inr (current, touched)), s') \<Rightarrow>
                  (let deltas = diff (w_iter W) (map_of state wallet) current;
                       state' = hm_insert wallet current state
                   in ((Ret (Inr ()), send_deltas W wallet (te_fresh te wallet) touched deltas),
                       (state', persist_state W (te_io te wallet) state' d, s')))))"

text \<open>The loop over the snapshot; an error of one wallet does not stop the others.\<close>

fun tick_wallets ::
    "('a, 't, 's) watcher \<Rightarrow> tick_env \<Rightarrow> (string \<times> string list) list \<Rightarrow> 's tick_state
       \<Rightarrow> (unit run \<times> notification list) \<times> 's tick_state" where
  "tick_wallets W te [] st = ((Ret (), []), st)"
| "tick_wallets W te ((wallet, addrs) # rest) st =
     (if \<not> te_paired te wallet then tick_wallets W te rest st
      else
        (case tick_wallet W te wallet addrs st of
           ((Panic, out), st') \<Rightarrow> ((Panic, out), st')
         | ((Ret _, out), st') \<Rightarrow>
             (case tick_wallets W te rest st' of ((r, out'), st'') \<Rightarrow> ((r, out @ out'), st''))))"

definition tick ::
    "('a, 't, 's) watcher \<Rightarrow> tick_env \<Rightarrow> (string, string list) btree_map \<Rightarrow> 's tick_state
       \<Rightarrow> (unit run \<times> notification list) \<times> 's tick_state" where
  "tick W te snapshot st =
     (case tick_wallets W te snapshot st of
        ((Panic, out), st') \<Rightarrow> ((Panic, out), st')
      | ((Ret _, out), (state, d, s)) \<Rightarrow>
          (let state' = filter (\<lambda>p. map_of snapshot (fst p) \<noteq> None) state
           in ((Ret (), out),
               (state', if length state' \<noteq> length state then persist_state W (te_io_end te) state' d else d, s))))"

end
