(* ===== verification/Identity.thy ===== *)
theory Identity
  imports Storage Config
begin

text \<open>
  \<open>server/src/identity.rs\<close> (on Unix): the server's key, loaded from \<open>nostr_secret.hex\<close> or generated on the
  first run. Besides the files, the state has the modes of the directories. Parsing and printing of
  keys are parameters; the generated key is an argument.
\<close>

section \<open>Loading and creating the key\<close>

definition KEY_FILE :: string where
  "KEY_FILE = ''nostr_secret.hex''"

record 'k key_lib =
  kl_parse :: "string \<Rightarrow> 'k option"
  kl_secret_hex :: "'k \<Rightarrow> string"

record id_io =
  id_mkdir :: bool
  id_chmod_dir :: bool
  id_file :: io_env

datatype id_error = DirError | KeyIoError | CorruptKey

type_synonym disk = "(string \<rightharpoonup> nat) \<times> fs"

text \<open>\<open>create_new\<close> refuses an existing file; the file is there as soon as it is open.\<close>

definition write_secret :: "'k key_lib \<Rightarrow> io_env \<Rightarrow> path \<Rightarrow> 'k \<Rightarrow> fs \<Rightarrow> bool \<times> fs" where
  "write_secret I io p keys d =
     (if d p \<noteq> None then (False, d)
      else
        (case io_write io of
           OpenFails \<Rightarrow> (False, d)
         | StopsAfter t \<Rightarrow> (False, d(p \<mapsto> \<lparr>content = t, mode = 384\<rparr>))
         | WriteOk \<Rightarrow> (True, d(p \<mapsto> \<lparr>content = kl_secret_hex I keys, mode = 384\<rparr>))))"

definition load_or_create ::
    "'k key_lib \<Rightarrow> id_io \<Rightarrow> string \<Rightarrow> 'k \<Rightarrow> disk \<Rightarrow> (id_error + 'k) \<times> disk" where
  "load_or_create I io dir fresh dd =
     (case dd of (dirs, d) \<Rightarrow>
        if \<not> id_mkdir io then (Inl DirError, dirs, d)
        else
          (let made = (case dirs dir of None \<Rightarrow> dirs(dir \<mapsto> 493) | Some m \<Rightarrow> dirs)
           in if \<not> id_chmod_dir io then (Inl DirError, made, d)
              else
                (let dirs' = made(dir \<mapsto> 448); p = (dir, KEY_FILE)
                 in case read_to_string (id_file io) p d of
                      Contents hex \<Rightarrow>
                        (case kl_parse I (str_trim hex) of
                           None \<Rightarrow> (Inl CorruptKey, dirs', d)
                         | Some keys \<Rightarrow> (Inr keys, dirs', d))
                    | NotFound \<Rightarrow>
                        (case write_secret I (id_file io) p fresh d of
                           (True, d') \<Rightarrow> (Inr fresh, dirs', d')
                         | (False, d') \<Rightarrow> (Inl KeyIoError, dirs', d'))
                    | ReadFails \<Rightarrow> (Inl KeyIoError, dirs', d))))"

text \<open>A printed key is hexadecimal text, which parses back; blanks around it do not matter.\<close>

definition key_lib_ok :: "'k key_lib \<Rightarrow> bool" where
  "key_lib_ok I \<longleftrightarrow> (\<forall>k. kl_parse I (kl_secret_hex I k) = Some k \<and> str_trim (kl_secret_hex I k) = kl_secret_hex I k)"

text \<open>What the key file holds after a start, and what a later start reads from it.\<close>

lemma key_file_only:
  "load_or_create I io dir fresh (dirs, d) = (r, dirs', d') \<Longrightarrow> q \<noteq> (dir, KEY_FILE) \<Longrightarrow> d' q = d q"
  by (auto simp: load_or_create_def Let_def read_to_string_def write_secret_def
      split: if_splits option.splits write_fault.splits)

lemma key_file_frame:
  assumes "load_or_create I io dir fresh (dirs, d) = (Inr k, dirs', d')"
  shows "(d (dir, KEY_FILE) = None \<longrightarrow> d' (dir, KEY_FILE) = Some \<lparr>content = kl_secret_hex I k, mode = 384\<rparr>) \<and>
    (d (dir, KEY_FILE) \<noteq> None \<longrightarrow> d' = d)"
  using assms
  by (auto simp: load_or_create_def Let_def read_to_string_def write_secret_def
      split: if_splits option.splits write_fault.splits)

lemma key_file_holds:
  assumes "key_lib_ok I" "load_or_create I io dir fresh (dirs, d) = (Inr k, dirs', d')"
  shows "\<exists>s m. d' (dir, KEY_FILE) = Some \<lparr>content = s, mode = m\<rparr> \<and> kl_parse I (str_trim s) = Some k"
proof (cases "d (dir, KEY_FILE)")
  case None
  with key_file_frame [OF assms(2)] assms(1) show ?thesis by (simp add: key_lib_ok_def)
next
  case (Some f)
  then show ?thesis
    using assms(2) key_file_frame [OF assms(2)]
    by (cases f) (auto simp: load_or_create_def Let_def read_to_string_def split: if_splits option.splits)
qed

lemma key_file_read:
  assumes "ld (dir, KEY_FILE) = Some \<lparr>content = s, mode = m\<rparr>" "kl_parse I (str_trim s) = Some k"
    and "load_or_create I lio dir other (ldirs, ld) = (Inr k', dirs3, ld')"
  shows "k' = k \<and> ld' = ld"
  using assms by (auto simp: load_or_create_def Let_def read_to_string_def split: if_splits option.splits)

section \<open>Properties\<close>

text \<open>
  One identity for life: when \<open>load_or_create\<close> succeeds, the data directory has mode 0700 and the key
  file is there (with mode 0600 if this call made it); from then on, as long as nobody else writes the
  file, every later start that can read it returns the same key, whatever key it would have generated,
  and leaves the file alone.
\<close>

theorem identity_stable:
  assumes "key_lib_ok I" "load_or_create I io dir fresh (dirs, d) = (Inr k, dirs', d')"
    and "id_mkdir lio" "id_chmod_dir lio" "io_read (id_file lio)" "ld (dir, KEY_FILE) = d' (dir, KEY_FILE)"
  shows "dirs' dir = Some 448 \<and>
    (d (dir, KEY_FILE) = None \<longrightarrow> d' (dir, KEY_FILE) = Some \<lparr>content = kl_secret_hex I k, mode = 384\<rparr>) \<and>
    (d (dir, KEY_FILE) \<noteq> None \<longrightarrow> d' = d) \<and>
    (\<exists>dirs3. load_or_create I lio dir other (ldirs, ld) = (Inr k, dirs3, ld))"
proof -
  have "dirs' dir = Some 448" using assms(2)
    by (auto simp: load_or_create_def Let_def split: if_splits read_result.splits option.splits prod.splits bool.splits)
  with key_file_frame [OF assms(2)] key_file_holds [OF assms(1,2)]
  show ?thesis
    using assms(3-) by (auto simp: load_or_create_def Let_def read_to_string_def)
qed

definition sample_keys :: "bool key_lib" where
  "sample_keys =
     \<lparr>kl_parse = (\<lambda>s. if s = ''a1'' then Some True else if s = ''b2'' then Some False else None),
      kl_secret_hex = (\<lambda>k. if k then ''a1'' else ''b2'')\<rparr>"

definition id_fine :: id_io where
  "id_fine = \<lparr>id_mkdir = True, id_chmod_dir = True, id_file = io_fine\<rparr>"

lemma sample_keys_ok: "key_lib_ok sample_keys"
  by (auto simp: key_lib_ok_def sample_keys_def plain_byte_def intro!: str_trim_plain)

lemma sample_trim: "str_trim ''a1'' = ''a1''"
  by (rule str_trim_plain) (simp_all add: plain_byte_def)

theorem identity_stable_witness:
  "\<exists>dirs3. load_or_create sample_keys id_fine ''/data'' False
     (Map.empty, [(''/data'', KEY_FILE) \<mapsto> \<lparr>content = ''a1'', mode = 384\<rparr>]) =
     (Inr True, dirs3, [(''/data'', KEY_FILE) \<mapsto> \<lparr>content = ''a1'', mode = 384\<rparr>])"
proof -
  let ?d = "[(''/data'', KEY_FILE) \<mapsto> \<lparr>content = ''a1'', mode = 384\<rparr>]"
  note k = sample_keys_ok
  have l: "load_or_create sample_keys id_fine ''/data'' True (Map.empty, Map.empty) = (Inr True, [''/data'' \<mapsto> 448], ?d)"
    by (simp add: load_or_create_def id_fine_def io_fine_def read_to_string_def write_secret_def sample_keys_def Let_def)
  have f: "id_mkdir id_fine" "id_chmod_dir id_fine" "io_read (id_file id_fine)" "?d (''/data'', KEY_FILE) = ?d (''/data'', KEY_FILE)"
    by (simp_all add: id_fine_def io_fine_def)
  from identity_stable [where ld = ?d, OF k l f(1-3) refl, where other = False and ldirs = Map.empty] show ?thesis by blast
qed

end
