(* ===== verification/System.thy ===== *)
theory System
  imports Transport Http Watcher Identity
begin

text \<open>
  \<open>server/src/main.rs\<close>: the boot sequence and the whole server as one machine. The transport, the watcher
  and the web interface are tasks over shared state; a step of the machine is one access of one task to what
  they share, and a run is any interleaving of such steps.
\<close>

section \<open>A request, step by step\<close>

text \<open>
  The transport handles one request at a time, but the other tasks run on other threads: between two
  accesses to what they share anything can happen. Every lock of the source is taken for one access, so a
  step is one access. The phases name the access that comes next: the replay cache, the rate limiter, the
  allowlist, the pairing secret, the allowlist for writing, the handler or the removal, the watch sets.
  A handler is one step: it reads nothing shared but the node's adapter and ends with at most one access,
  to the watch sets.
\<close>

datatype phase = Received | Accepted | Admitted | Unproved | Proved | Trusted | Unlisted

datatype job =
    Idle
  | Busy phase req_env string request_envelope
  | Replying string response_envelope
  | Dead

fun job_step :: "('a, 't, 's) transport \<Rightarrow> job \<times> 's server \<Rightarrow> job \<times> 's server" where
  "job_step T (Busy Received rq w env, st) =
     (case check_and_insert (tr_rc_codec T) (rq_io_replay rq) (env_id env) (rq_now rq) (sv_replay st) (sv_fs st) of
        (new, rc, d) \<Rightarrow> (if new then Busy Accepted rq w env else Idle, st\<lparr>sv_replay := rc, sv_fs := d\<rparr>))"
| "job_step T (Busy Accepted rq w env, st) =
     (case allow w (rq_now rq) (sv_ratelimit st) of
        (ok, rl) \<Rightarrow>
          (if ok then Busy Admitted rq w env
           else Replying w (response_err (env_id env) RateLimited ''slow down''), st\<lparr>sv_ratelimit := rl\<rparr>))"
| "job_step T (Busy Admitted rq w env, st) =
     (if msg_type env = ''pair'' then
        (if is_paired (sv_allowlist st) w then
           Replying w (response_err (env_id env) PairingFailed ''pairing failed'')
         else Busy Unproved rq w env, st)
      else if is_paired (sv_allowlist st) w then (Busy Trusted rq w env, st)
      else (Replying w (response_err (env_id env) NotPaired ''not paired''), st))"
| "job_step T (Busy Unproved rq w env, st) =
     (case verify_at (tr_crypto T) (rq_now rq) w (pair_proof env) (sv_pairing st) of
        (ok, pm) \<Rightarrow>
          (if ok then Busy Proved rq w env
           else Replying w (response_err (env_id env) PairingFailed ''pairing failed''), st\<lparr>sv_pairing := pm\<rparr>))"
| "job_step T (Busy Proved rq w env, st) =
     (case al_add (tr_al_codec T) (rq_io_allowlist rq) w (sv_allowlist st) (sv_fs st) of
        (r, al, d) \<Rightarrow>
          (Replying w (case r of
             Inl e \<Rightarrow> response_err (env_id env) Internal ''internal error''
           | Inr _ \<Rightarrow> response_ok (env_id env) (JObject [(''server'', JString SERVER_VERSION)])),
           st\<lparr>sv_allowlist := al, sv_fs := d\<rparr>))"
| "job_step T (Busy Trusted rq w env, st) =
     (if msg_type env = ''unpair'' then
        (case al_remove (tr_al_codec T) (rq_io_allowlist rq) w (sv_allowlist st) (sv_fs st) of
           (r, al, d) \<Rightarrow>
             (case r of
                Inl e \<Rightarrow> Replying w (response_err (env_id env) Internal ''internal error'')
              | Inr removed \<Rightarrow>
                  if removed then Busy Unlisted rq w env
                  else Replying w (response_err (env_id env) NotPaired ''not paired''),
              st\<lparr>sv_allowlist := al, sv_fs := d\<rparr>))
      else if msg_type env \<in> set KNOWN_TYPES then
        (case run_handler T rq w env st of
           (r, st') \<Rightarrow> (case r of Ret x \<Rightarrow> Replying w x | Panic \<Rightarrow> Dead, st'))
      else (Replying w (response_err (env_id env) UnknownType ''unknown type''), st))"
| "job_step T (Busy Unlisted rq w env, st) =
     (case ws_remove_wallet (hd_codec (tr_handlers T)) (rq_io_watch rq) w (sv_watch st) (sv_fs st) of
        (_, ws, d) \<Rightarrow> (Replying w (response_ok (env_id env) (JObject [])), st\<lparr>sv_watch := ws, sv_fs := d\<rparr>))"
| "job_step T (Idle, st) = (Idle, st)"
| "job_step T (Replying w r, st) = (Replying w r, st)"
| "job_step T (Dead, st) = (Dead, st)"

section \<open>A round of the watcher, step by step\<close>

text \<open>
  Resting between two ticks; about to look at the next wallet of the snapshot; scanning a wallet that was
  paired when its turn came.
\<close>

datatype round =
    Resting
  | Checking "(string, string list) btree_map" "(string \<times> string list) list"
  | Scanning "(string, string list) btree_map" string "string list" "(string \<times> string list) list"
  | Stopped

fun round_step ::
    "('a, 't, 's) watcher \<Rightarrow> tick_env \<Rightarrow> round \<times> wallet_state \<times> 's server
       \<Rightarrow> notification list \<times> round \<times> wallet_state \<times> 's server" where
  "round_step W te (Resting, known, st) =
     (let snapshot = ws_snapshot (sv_watch st) in ([], Checking snapshot snapshot, known, st))"
| "round_step W te (Checking snapshot [], known, st) =
     (let known' = filter (\<lambda>p. map_of snapshot (fst p) \<noteq> None) known;
          d = (if length known' \<noteq> length known then persist_state W (te_io_end te) known' (sv_fs st) else sv_fs st)
      in ([], Resting, known', st\<lparr>sv_fs := d\<rparr>))"
| "round_step W te (Checking snapshot ((wallet, addrs) # rest), known, st) =
     ([], if is_paired (sv_allowlist st) wallet then Scanning snapshot wallet addrs rest
          else Checking snapshot rest, known, st)"
| "round_step W te (Scanning snapshot wallet addrs rest, known, st) =
     (case tick_wallet W te wallet addrs (known, sv_fs st, sv_backend st) of
        ((r, out), known', d, b) \<Rightarrow>
          (out, case r of Panic \<Rightarrow> Stopped | Ret _ \<Rightarrow> Checking snapshot rest,
           known', st\<lparr>sv_fs := d, sv_backend := b\<rparr>))"
| "round_step W te (Stopped, known, st) = ([], Stopped, known, st)"

section \<open>State and boot\<close>

record 's system =
  sy_server :: "'s server"
  sy_job :: job
  sy_round :: round
  sy_known :: wallet_state

record ('a, 't, 's) installation =
  su_app :: "'s app_state"
  su_transport :: "('a, 't, 's) transport"
  su_watcher :: "('a, 't, 's) watcher"

text \<open>The parameters of the libraries that boot needs, and the codecs of the stored files.\<close>

record ('a, 't, 'k, 'w) libs =
  lb_keys :: "'k key_lib"
  lb_pubkey_hex :: "'k \<Rightarrow> string"
  lb_chain :: "('a, 't) chain_lib"
  lb_crypto :: crypto
  lb_order :: hash_order
  lb_iter :: "(string \<times> u64) list \<Rightarrow> (string \<times> u64) list"
  lb_from_str :: "string \<Rightarrow> request_envelope option"
  lb_uuid_ok :: "string \<Rightarrow> bool"
  lb_pk_from_hex :: "string \<Rightarrow> string option"
  lb_al_codec :: "string list codec"
  lb_ws_codec :: "(string, string list) btree_map codec"
  lb_rc_codec :: "(string, u64) btree_map codec"
  lb_state_codec :: "wallet_state codec"
  lb_runtime :: "'w runtime"
  lb_client :: "'w client"

datatype boot_error = BadConfig string | BadIdentity id_error | BadStore io_error

definition setup_of ::
    "('a, 't, 'k, 'w) libs \<Rightarrow> (string \<rightharpoonup> string) \<Rightarrow> config \<Rightarrow> 'k \<Rightarrow> ('a, 't, electrs \<times> 'w) installation" where
  "setup_of lb var cfg keys =
     (let B = electrs_backend (lb_runtime lb) (lb_client lb)
      in \<lparr>su_app = \<lparr>ap_config = cfg, ap_server_pubkey = lb_pubkey_hex lb keys, ap_crypto = lb_crypto lb,
                    ap_al_codec = lb_al_codec lb, ap_preflight = preflight (lb_runtime lb) (lb_client lb)\<rparr>,
          su_transport =
            transport_new (handlers_new (lb_chain lb) (lb_order lb) (lb_ws_codec lb) B (network cfg))
              (lb_crypto lb) (lb_al_codec lb) (lb_rc_codec lb) (lb_from_str lb) (lb_uuid_ok lb),
          su_watcher =
            watcher_made B (network cfg) (lb_chain lb) (lb_iter lb) (lb_state_codec lb) (lb_pk_from_hex lb) var
              (data_dir cfg)\<rparr>)"

definition boot ::
    "('a, 't, 'k, 'w) libs \<Rightarrow> (string \<rightharpoonup> string) \<Rightarrow> id_io \<Rightarrow> io_env \<Rightarrow> 'k \<Rightarrow> 'w \<Rightarrow> disk
       \<Rightarrow> boot_error + ('a, 't, electrs \<times> 'w) installation \<times> (electrs \<times> 'w) system" where
  "boot lb var idio io fresh w dd =
     (case from_env var of
        Inl e \<Rightarrow> Inl (BadConfig e)
      | Inr cfg \<Rightarrow>
          (case load_or_create (lb_keys lb) idio (data_dir cfg) fresh dd of
             (Inl e, _) \<Rightarrow> Inl (BadIdentity e)
           | (Inr keys, dirs, d) \<Rightarrow>
               (case al_load (lb_al_codec lb) io (data_dir cfg) d of
                  Inl e \<Rightarrow> Inl (BadStore e)
                | Inr al \<Rightarrow>
                    (case ws_load (lb_ws_codec lb) io (data_dir cfg) d of
                       Inl e \<Rightarrow> Inl (BadStore e)
                     | Inr ws \<Rightarrow>
                         (case rc_load (lb_rc_codec lb) io (data_dir cfg) d of
                            Inl e \<Rightarrow> Inl (BadStore e)
                          | Inr rc \<Rightarrow>
                              (case watcher_load (lb_state_codec lb) io (data_dir cfg) d of
                                 Inl e \<Rightarrow> Inl (BadStore e)
                               | Inr known \<Rightarrow>
                                   Inr (setup_of lb var cfg keys,
                                     \<lparr>sy_server = server_new al ws pm_new rc d (electrs_new (electrs_addr cfg), w),
                                      sy_job = Idle, sy_round = Resting, sy_known = known\<rparr>)))))))"

section \<open>The machine\<close>

text \<open>
  What can happen next: a request arrives (if the transport is idle), the transport makes its next step, it
  publishes its response; the pairing page or its image is loaded, the start page is loaded, the node is
  checked, a wallet is revoked; the watcher makes its next step.
  An arrival carries the time at which the request will be routed and the outcome of its system calls.
\<close>

datatype sys_event =
    Arrive req_env string request_envelope
  | Move
  | Send
  | Page u64 bytes
  | Visit
  | Check
  | Revoke io_env string
  | Watch tick_env

datatype sys_out =
    Quiet
  | Response string response_envelope
  | Payload pairing_payload
  | Shown string
  | Checked nat string
  | Redirected string
  | Notes "notification list"

fun sys_step ::
    "('a, 't, 's) installation \<Rightarrow> 's system \<Rightarrow> sys_event \<Rightarrow> sys_out \<times> 's system" where
  "sys_step S sy (Arrive rq sender env) =
     (Quiet, if sy_job sy = Idle then sy\<lparr>sy_job := Busy Received rq sender env\<rparr> else sy)"
| "sys_step S sy Move =
     (case job_step (su_transport S) (sy_job sy, sy_server sy) of
        (j, st) \<Rightarrow> (Quiet, sy\<lparr>sy_job := j, sy_server := st\<rparr>))"
| "sys_step S sy Send =
     (case sy_job sy of
        Replying w r \<Rightarrow> (Response w r, sy\<lparr>sy_job := Idle\<rparr>)
      | _ \<Rightarrow> (Quiet, sy))"
| "sys_step S sy (Page now rnd) =
     (case current_payload (su_app S) now rnd (sy_server sy) of
        (p, st) \<Rightarrow> (Payload p, sy\<lparr>sy_server := st\<rparr>))"
| "sys_step S sy Visit = (Shown (index_page (su_app S) (sy_server sy)), sy)"
| "sys_step S sy Check =
     (case health_electrs (su_app S) (sy_server sy) of
        ((code, t), st) \<Rightarrow> (Checked code t, sy\<lparr>sy_server := st\<rparr>))"
| "sys_step S sy (Revoke io pk) =
     (case revoke_wallet (su_app S) io pk (sy_server sy) of
        (u, st) \<Rightarrow> (Redirected u, sy\<lparr>sy_server := st\<rparr>))"
| "sys_step S sy (Watch te) =
     (case round_step (su_watcher S) te (sy_round sy, sy_known sy, sy_server sy) of
        (out, r, known, st) \<Rightarrow> (Notes out, sy\<lparr>sy_round := r, sy_known := known, sy_server := st\<rparr>))"

definition system_ok :: "string \<Rightarrow> 's system \<Rightarrow> bool" where
  "system_ok dir sy \<longleftrightarrow> server_ok (sy_server sy) \<and> in_dir dir (sy_server sy)"

end
