(* ===== verification/HandlerProps.thy ===== *)
theory HandlerProps
  imports Handlers
begin

text \<open>
  What the handlers of \<open>server/src/handlers.rs\<close> guarantee: which requests they refuse and that a refusal
  costs nothing, how much of the backend one request can use, and what the answers of \<open>get_history\<close>,
  \<open>get_balance\<close> and \<open>get_utxos\<close> say about the data the node returned.
\<close>

section \<open>Which requests are valid\<close>

definition address_ok :: "('a, 't) chain_lib \<Rightarrow> network \<Rightarrow> json \<Rightarrow> bool" where
  "address_ok L net v = (Option.bind (as_str v) (parse_address L net) \<noteq> None)"

definition address_list_ok :: "('a, 't) chain_lib \<Rightarrow> network \<Rightarrow> nat \<Rightarrow> nat \<Rightarrow> json \<Rightarrow> bool" where
  "address_list_ok L net lo hi p =
     (case field as_array p ''addresses'' of
        None \<Rightarrow> False
      | Some xs \<Rightarrow> lo \<le> length xs \<and> length xs \<le> hi \<and> list_all (address_ok L net) xs)"

definition txid_list_ok :: "('a, 't) chain_lib \<Rightarrow> json \<Rightarrow> bool" where
  "txid_list_ok L p =
     (case field as_array p ''txids'' of
        None \<Rightarrow> False
      | Some xs \<Rightarrow> 1 \<le> length xs \<and> length xs \<le> 25 \<and>
          list_all (\<lambda>v. Option.bind (as_str v) (txid_parse L) \<noteq> None) xs)"

definition tx_hex_ok :: "('a, 't) chain_lib \<Rightarrow> json \<Rightarrow> bool" where
  "tx_hex_ok L p =
     (case field as_str p ''txHex'' of
        None \<Rightarrow> False
      | Some h \<Rightarrow> 1 \<le> length h \<and> length h \<le> 200000 \<and>
          (case from_hex L h of None \<Rightarrow> False | Some raw \<Rightarrow> tx_decode L raw \<noteq> None))"

text \<open>The limits of PROTOCOL 7 on the request types the handlers serve.\<close>

definition valid_request :: "('a, 't) chain_lib \<Rightarrow> network \<Rightarrow> request_envelope \<Rightarrow> bool" where
  "valid_request L net env =
     (let t = msg_type env; p = payload env
      in if t \<in> {''get_balance'', ''get_utxos'', ''get_history''} then address_list_ok L net 1 200 p
         else if t = ''watch_addresses'' then address_list_ok L net 0 5000 p
         else if t = ''get_transactions'' then txid_list_ok L p
         else if t = ''broadcast_tx'' then tx_hex_ok L p
         else True)"

definition invalid_answer :: "response_envelope \<Rightarrow> bool" where
  "invalid_answer r \<longleftrightarrow> code_of r \<in> {Some InvalidRequest, Some InvalidTx}"

lemma validate_shape:
  "validate_addresses L p net hi = Inr addrs \<Longrightarrow>
     address_list_ok L net 0 hi p \<and> length addrs \<le> hi \<and>
     field as_array p ''addresses'' = Some (map (\<lambda>a. JString (fst a)) addrs) \<and>
     (\<forall>a \<in> set addrs. parse_address L net (fst a) = Some (snd a))"
proof -
  assume v: "validate_addresses L p net hi = Inr addrs"
  then obtain xs where xs: "field as_array p ''addresses'' = Some xs" "length xs \<le> hi"
    by (auto simp: validate_addresses_def Let_def split: option.splits if_splits)
  have each: "list_all2 (\<lambda>x a. x = JString (fst a) \<and> parse_address L net (fst a) = Some (snd a)) xs addrs"
  proof -
    have "(case as_str x of None \<Rightarrow> Inl e | Some s \<Rightarrow>
        (case parse_address L net s of None \<Rightarrow> Inl e | Some sc \<Rightarrow> Inr (s, sc))) = Inr a \<Longrightarrow>
        x = JString (fst a) \<and> parse_address L net (fst a) = Some (snd a)" for x a and e :: response_envelope
      by (cases x) (auto split: option.splits)
    then show ?thesis
      using v xs by (auto simp: validate_addresses_def Let_def map_result_Inr elim!: list_all2_mono)
  qed
  have "xs = map (\<lambda>a. JString (fst a)) addrs \<and> length xs = length addrs \<and>
      (\<forall>a \<in> set addrs. parse_address L net (fst a) = Some (snd a)) \<and> list_all (address_ok L net) xs"
    using each by (induction rule: list_all2_induct) (auto simp: address_ok_def)
  then show ?thesis using xs by (auto simp: address_list_ok_def)
qed

lemma validate_complete:
  assumes "validate_addresses L p net hi = Inl e"
  shows "\<not> address_list_ok L net 0 hi p"
proof
  assume ok: "address_list_ok L net 0 hi p"
  then obtain xs where xs: "field as_array p ''addresses'' = Some xs" "length xs \<le> hi" "list_all (address_ok L net) xs"
    by (auto simp: address_list_ok_def split: option.splits)
  with assms obtain x where "x \<in> set xs" "\<not> address_ok L net x"
    by (auto simp: validate_addresses_def Let_def address_ok_def dest!: map_result_Inl split: option.splits)
  with xs(3) show False by (auto simp: list_all_iff)
qed

lemma query_addresses_valid:
  "(\<exists>addrs. query_addresses H env = Inr addrs) \<longleftrightarrow> address_list_ok (hd_lib H) (hd_network H) 1 200 (payload env)"
proof (cases "validate_addresses (hd_lib H) (payload env) (hd_network H) MAX_QUERY_ADDRESSES")
  case (Inl e)
  then show ?thesis
    using validate_complete [OF Inl]
    by (auto simp: query_addresses_def address_list_ok_def MAX_QUERY_ADDRESSES_def split: option.splits)
next
  case (Inr addrs)
  then show ?thesis
    using validate_shape [OF Inr]
    by (auto simp: query_addresses_def address_list_ok_def MAX_QUERY_ADDRESSES_def Suc_le_eq split: option.splits)
qed

lemma parse_txids_valid:
  "(\<exists>ts. parse_txids L xs = Some ts) \<longleftrightarrow> list_all (\<lambda>v. Option.bind (as_str v) (txid_parse L) \<noteq> None) xs"
  by (induction xs) (auto split: option.splits)

lemma parse_txids_length: "parse_txids L xs = Some ts \<Longrightarrow> length ts = length xs"
  by (induction xs arbitrary: ts) (auto split: option.splits)

lemma invalid_answer_simps [simp]:
  "\<not> invalid_answer (response_ok i x)"
  "invalid_answer (response_err i c m) \<longleftrightarrow> c \<in> {InvalidRequest, InvalidTx}"
  "\<not> invalid_answer (backend_err i e)" "\<not> invalid_answer (broadcast_err i e)"
  by (cases e; simp add: invalid_answer_def backend_err_def broadcast_err_def)+

definition rejects_iff :: "bool \<Rightarrow> response_envelope \<times> 's \<Rightarrow> 's \<Rightarrow> bool" where
  "rejects_iff ok rs s \<longleftrightarrow> (invalid_answer (fst rs) \<longleftrightarrow> \<not> ok) \<and> (\<not> ok \<longrightarrow> snd rs = s)"

lemma rejectsI:
  "(\<not> ok \<Longrightarrow> invalid_answer (fst rs) \<and> snd rs = s) \<Longrightarrow> (ok \<Longrightarrow> \<not> invalid_answer (fst rs)) \<Longrightarrow> rejects_iff ok rs s"
  by (auto simp: rejects_iff_def)

lemma query_rejects:
  assumes "\<And>e. query_addresses H env = Inl e \<Longrightarrow> rs = (e, s)"
    and "\<And>addrs. query_addresses H env = Inr addrs \<Longrightarrow> \<not> invalid_answer (fst rs)"
  shows "rejects_iff (address_list_ok (hd_lib H) (hd_network H) 1 200 (payload env)) rs s"
proof (cases "query_addresses H env")
  case (Inl e)
  then have "\<not> address_list_ok (hd_lib H) (hd_network H) 1 200 (payload env)"
    using query_addresses_valid [of H env] by auto
  then show ?thesis using assms(1) [OF Inl] query_error [OF Inl] by (simp add: rejects_iff_def invalid_answer_def)
next
  case (Inr addrs)
  then have "address_list_ok (hd_lib H) (hd_network H) 1 200 (payload env)"
    using query_addresses_valid [of H env] by auto
  then show ?thesis using assms(2) [OF Inr] by (simp add: rejects_iff_def)
qed

lemma get_balance_rejects:
  "rejects_iff (address_list_ok (hd_lib H) (hd_network H) 1 200 (payload env)) (get_balance H env s) s"
  by (rule query_rejects) (auto simp: get_balance_def Let_def split: prod.splits sum.splits)

lemma get_utxos_rejects:
  "rejects_iff (address_list_ok (hd_lib H) (hd_network H) 1 200 (payload env)) (get_utxos H env s) s"
  by (rule query_rejects) (auto simp: get_utxos_def Let_def split: prod.splits sum.splits)

lemma get_history_rejects:
  assumes "get_history H env s = (Ret r, s')"
  shows "rejects_iff (address_list_ok (hd_lib H) (hd_network H) 1 200 (payload env)) (r, s') s"
  using assms
  by (intro query_rejects) (auto simp: get_history_def Let_def split: prod.splits sum.splits option.splits)

lemma get_transactions_rejects: "rejects_iff (txid_list_ok (hd_lib H) (payload env)) (get_transactions H env s) s"
proof (cases "field as_array (payload env) ''txids''")
  case None
  then show ?thesis by (simp add: get_transactions_def txid_list_ok_def rejects_iff_def)
next
  case (Some xs)
  show ?thesis
  proof (cases "parse_txids (hd_lib H) xs")
    case None
    then have "\<not> txid_list_ok (hd_lib H) (payload env)"
      using Some parse_txids_valid [of "hd_lib H" xs] by (auto simp: txid_list_ok_def)
    then show ?thesis using Some None by (simp add: get_transactions_def rejects_iff_def)
  next
    case ts: (Some ts)
    then have "txid_list_ok (hd_lib H) (payload env) \<longleftrightarrow> xs \<noteq> [] \<and> length xs \<le> 25"
      using Some parse_txids_valid [of "hd_lib H" xs] by (auto simp: txid_list_ok_def Suc_le_eq)
    then show ?thesis
      using Some ts
      by (auto simp: get_transactions_def rejects_iff_def MAX_TXIDS_def split: prod.splits sum.splits)
  qed
qed

lemma broadcast_tx_rejects: "rejects_iff (tx_hex_ok (hd_lib H) (payload env)) (broadcast_tx H env s) s"
proof (cases "field as_str (payload env) ''txHex''")
  case None
  then show ?thesis by (simp add: broadcast_tx_def tx_hex_ok_def rejects_iff_def Let_def)
next
  case (Some h)
  then show ?thesis
    by (auto simp: broadcast_tx_def tx_hex_ok_def rejects_iff_def Let_def MAX_TXHEX_LEN_def txid_of_def Suc_le_eq
        split: option.splits prod.splits sum.splits)
qed

lemma watch_addresses_rejects:
  "rejects_iff (address_list_ok (hd_lib H) (hd_network H) 0 5000 (payload env)) (watch_addresses H io sender env wd) wd"
proof (cases "validate_addresses (hd_lib H) (payload env) (hd_network H) 5000")
  case (Inl e)
  then show ?thesis
    using validate_complete [OF Inl] validate_error_answers [OF Inl, of env]
    by (simp add: watch_addresses_def rejects_iff_def MAX_WATCH_ADDRESSES_def invalid_answer_def)
next
  case (Inr addrs)
  then show ?thesis
    using validate_shape [OF Inr]
    by (auto simp: watch_addresses_def rejects_iff_def MAX_WATCH_ADDRESSES_def split: prod.splits sum.splits)
qed

lemmas handler_rejects = get_balance_rejects get_utxos_rejects get_transactions_rejects
  broadcast_tx_rejects watch_addresses_rejects

section \<open>A backend that logs its queries\<close>

datatype query =
    QTip
  | QBalances "script list"
  | QHistories "script list"
  | QUnspents "script list"
  | QAnchors "usize list"
  | QRawTx txid
  | QEstimate nat
  | QBroadcast bytes

definition log_query :: "query \<Rightarrow> ('s \<Rightarrow> 'r \<times> 's) \<Rightarrow> 's \<times> query list \<Rightarrow> 'r \<times> 's \<times> query list" where
  "log_query q f sl = (case f (fst sl) of (r, s') \<Rightarrow> (r, s', snd sl @ [q]))"

definition logged :: "'s backend \<Rightarrow> ('s \<times> query list) backend" where
  "logged B =
     \<lparr>be_tip = log_query QTip (be_tip B),
      be_balances = (\<lambda>ss. log_query (QBalances ss) (be_balances B ss)),
      be_histories = (\<lambda>ss. log_query (QHistories ss) (be_histories B ss)),
      be_unspents = (\<lambda>ss. log_query (QUnspents ss) (be_unspents B ss)),
      be_anchors = (\<lambda>hs. log_query (QAnchors hs) (be_anchors B hs)),
      be_raw_tx = (\<lambda>t. log_query (QRawTx t) (be_raw_tx B t)),
      be_estimate = (\<lambda>n. log_query (QEstimate n) (be_estimate B n)),
      be_broadcast = (\<lambda>raw. log_query (QBroadcast raw) (be_broadcast B raw))\<rparr>"

text \<open>The bounds a query keeps, and the number of calls of the node it takes.\<close>

fun query_ok :: "('a, 't) chain_lib \<Rightarrow> query \<Rightarrow> bool" where
  "query_ok L (QBalances ss) = (1 \<le> length ss \<and> length ss \<le> 200)"
| "query_ok L (QHistories ss) = (1 \<le> length ss \<and> length ss \<le> 200)"
| "query_ok L (QUnspents ss) = (1 \<le> length ss \<and> length ss \<le> 200)"
| "query_ok L (QAnchors hs) = (length hs \<le> 200 \<and> distinct hs \<and> 0 \<notin> set hs)"
| "query_ok L (QEstimate n) = (n \<in> {1, 6, 12})"
| "query_ok L (QBroadcast raw) = (tx_decode L raw \<noteq> None)"
| "query_ok L _ = True"

fun node_calls :: "query \<Rightarrow> nat" where
  "node_calls (QAnchors hs) = length hs"
| "node_calls q = 1"

definition spends :: "('a, 't) chain_lib \<Rightarrow> nat \<Rightarrow> query list \<Rightarrow> query list \<Rightarrow> bool" where
  "spends L n l l' \<longleftrightarrow> (\<exists>qs. l' = l @ qs \<and> list_all (query_ok L) qs \<and> sum_list (map node_calls qs) \<le> n)"

lemma spends_refl [simp]: "spends L n l l"
  by (auto simp: spends_def)

lemma spends_step: "query_ok L q \<Longrightarrow> node_calls q \<le> n \<Longrightarrow> spends L n l (l @ [q])"
  by (auto simp: spends_def)

lemma spends_trans: "spends L m l l1 \<Longrightarrow> spends L n l1 l2 \<Longrightarrow> m + n \<le> k \<Longrightarrow> spends L k l l2"
  by (force simp: spends_def)

lemma spends_mono: "spends L m l l1 \<Longrightarrow> m \<le> n \<Longrightarrow> spends L n l l1"
  by (auto simp: spends_def)

lemma log_of [simp]: "snd (snd (log_query q f sl)) = snd sl @ [q]"
  by (simp add: log_query_def split: prod.splits)

lemma log_queryD: "log_query q f sl = (r, sl') \<Longrightarrow> snd sl' = snd sl @ [q]"
  by (auto simp: log_query_def split: prod.splits)

lemma logged_simps [simp]:
  "be_tip (logged B) = log_query QTip (be_tip B)"
  "be_balances (logged B) ss = log_query (QBalances ss) (be_balances B ss)"
  "be_histories (logged B) ss = log_query (QHistories ss) (be_histories B ss)"
  "be_unspents (logged B) ss = log_query (QUnspents ss) (be_unspents B ss)"
  "be_anchors (logged B) hs = log_query (QAnchors hs) (be_anchors B hs)"
  "be_raw_tx (logged B) t = log_query (QRawTx t) (be_raw_tx B t)"
  "be_estimate (logged B) n = log_query (QEstimate n) (be_estimate B n)"
  "be_broadcast (logged B) raw = log_query (QBroadcast raw) (be_broadcast B raw)"
  by (simp_all add: logged_def)

text \<open>What each handler spends, on any handlers record whose backend is logged.\<close>

lemma query_length:
  "query_addresses H env = Inr addrs \<Longrightarrow> 1 \<le> length (map snd addrs) \<and> length (map snd addrs) \<le> 200"
  using query_addresses_valid [of H env]
  by (auto simp: query_addresses_def MAX_QUERY_ADDRESSES_def Suc_le_eq dest: validate_shape split: sum.splits if_splits)

lemma history_limit_range: "history_limit p \<in> {1..200}"
  by (auto simp: history_limit_def DEFAULT_HISTORY_LIMIT_def MAX_HISTORY_LIMIT_def word_le_nat_alt max_def min_def
      split: option.splits)

lemma anchor_heights_ok:
  assumes "order_ok ho"
  shows "query_ok L (QAnchors (anchor_heights ho (newest_first ho (history_limit p) m)))"
    and "length (anchor_heights ho (newest_first ho (history_limit p) m)) \<le> 200"
proof -
  let ?txs = "newest_first ho (history_limit p) m"
  let ?hs = "remdups (filter (\<lambda>h. 0 < h) (map ht_height ?txs))"
  have ms: "mset (ho_heights ho ?hs) = mset ?hs" using assms by (simp add: order_ok_def)
  have "unat (history_limit p) \<le> 200" using history_limit_range [of p] by (simp add: word_le_nat_alt)
  then have "length ?txs \<le> 200" by (simp add: newest_first_def)
  then have "length ?hs \<le> 200"
    using length_remdups_leq [of "filter (\<lambda>h. 0 < h) (map ht_height ?txs)"]
      length_filter_le [of "\<lambda>h. 0 < h" "map ht_height ?txs"] by (simp only: length_map)
  then have len: "length (ho_heights ho ?hs) \<le> 200" using ms by (metis mset_eq_length)
  moreover have "distinct (ho_heights ho ?hs)" using ms by (metis distinct_remdups mset_eq_imp_distinct_iff)
  moreover have "set (ho_heights ho ?hs) = set ?hs" using ms by (rule mset_eq_setD)
  ultimately show "query_ok L (QAnchors (anchor_heights ho ?txs))"
    by (auto simp: anchor_heights_def)
  show "length (anchor_heights ho ?txs) \<le> 200" using len by (simp add: anchor_heights_def)
qed

lemma ping_spends:
  "hd_electrs H = logged B \<Longrightarrow> ping H env s = (r, s') \<Longrightarrow> spends L 1 (snd s) (snd s')"
  by (auto simp: ping_def intro!: spends_step dest!: log_queryD split: prod.splits sum.splits)

lemma get_balance_spends:
  "hd_electrs H = logged B \<Longrightarrow> get_balance H env s = (r, s') \<Longrightarrow> spends L 1 (snd s) (snd s')"
  using query_length [of H env]
  by (auto simp: get_balance_def Let_def intro!: spends_step dest!: log_queryD split: prod.splits sum.splits)

lemma get_utxos_spends:
  assumes "hd_electrs H = logged B" "get_utxos H env s = (r, s')"
  shows "spends L 2 (snd s) (snd s')"
proof (cases "query_addresses H env")
  case (Inl e)
  then show ?thesis using assms by (simp add: get_utxos_def)
next
  case (Inr addrs)
  obtain t s1 where t: "log_query QTip (be_tip B) s = (t, s1)" by (cases "log_query QTip (be_tip B) s")
  have s1: "spends L 1 (snd s) (snd s1)" using log_queryD [OF t] by (simp add: spends_step)
  show ?thesis
  proof (cases t)
    case (Inl e)
    then show ?thesis using Inr t s1 assms by (auto simp: get_utxos_def intro: spends_mono)
  next
    case (Inr tip)
    let ?q = "QUnspents (map snd addrs)"
    obtain u s2 where u: "log_query ?q (be_unspents B (map snd addrs)) s1 = (u, s2)"
      by (cases "log_query ?q (be_unspents B (map snd addrs)) s1")
    have "query_ok L ?q" using query_length [OF \<open>query_addresses H env = Inr addrs\<close>] by simp
    then have "spends L 1 (snd s1) (snd s2)" using log_queryD [OF u] by (simp add: spends_step)
    moreover have "s' = s2"
      using assms \<open>query_addresses H env = Inr addrs\<close> t u Inr
      by (auto simp: get_utxos_def Let_def split: prod.splits sum.splits)
    ultimately show ?thesis using spends_trans [OF s1, of 1 "snd s2" 2] by simp
  qed
qed

lemma get_history_spends:
  assumes "hd_electrs H = logged B" "order_ok (hd_order H)" "get_history H env s = (r, s')"
  shows "spends L 201 (snd s) (snd s')"
proof (cases "query_addresses H env")
  case (Inl e)
  then show ?thesis using assms by (simp add: get_history_def)
next
  case (Inr addrs)
  let ?q = "QHistories (map snd addrs)"
  obtain t s1 where t: "log_query ?q (be_histories B (map snd addrs)) s = (t, s1)"
    by (cases "log_query ?q (be_histories B (map snd addrs)) s")
  have "query_ok L ?q" using query_length [OF Inr] by simp
  then have s1: "spends L 1 (snd s) (snd s1)" using log_queryD [OF t] by (simp add: spends_step)
  show ?thesis
  proof (cases t)
    case (Inl e)
    then show ?thesis using Inr t s1 assms by (auto simp: get_history_def intro: spends_mono)
  next
    case h: (Inr hists)
    let ?txs = "newest_first (hd_order H) (history_limit (payload env)) (merged_history hists)"
    let ?hs = "anchor_heights (hd_order H) ?txs"
    obtain u s2 where u: "log_query (QAnchors ?hs) (be_anchors B ?hs) s1 = (u, s2)"
      by (cases "log_query (QAnchors ?hs) (be_anchors B ?hs) s1")
    have "spends L 200 (snd s1) (snd s2)"
      unfolding log_queryD [OF u] using anchor_heights_ok [OF assms(2)] by (intro spends_step) simp_all
    moreover have "s' = s2"
      using assms Inr t u h by (auto simp: get_history_def Let_def split: sum.splits option.splits)
    ultimately show ?thesis using spends_trans [OF s1, of 200 "snd s2" 201] by simp
  qed
qed

lemma fetch_txs_spends:
  "hd_electrs H = logged B \<Longrightarrow> fetch_txs H ts acc s = (r, s') \<Longrightarrow> spends L (length ts) (snd s) (snd s')"
proof (induction ts arbitrary: acc s)
  case Nil
  then show ?case by simp
next
  case (Cons t ts)
  obtain x s1 where x: "log_query (QRawTx t) (be_raw_tx B t) s = (x, s1)"
    by (cases "log_query (QRawTx t) (be_raw_tx B t) s")
  have s1: "spends L 1 (snd s) (snd s1)" using log_queryD [OF x] by (simp add: spends_step)
  show ?case
  proof (cases x)
    case (Inl e)
    then show ?thesis using Cons.prems x s1 by (auto intro: spends_mono)
  next
    case (Inr raw)
    then have "spends L (length ts) (snd s1) (snd s')"
      using Cons.IH [OF Cons.prems(1)] Cons.prems x by simp
    with s1 show ?thesis by (rule spends_trans) simp
  qed
qed

lemma get_transactions_spends:
  assumes "hd_electrs H = logged B" "get_transactions H env s = (r, s')"
  shows "spends L 25 (snd s) (snd s')"
proof (cases "\<exists>xs ts. field as_array (payload env) ''txids'' = Some xs \<and> length xs \<le> 25 \<and> xs \<noteq> [] \<and>
    parse_txids (hd_lib H) xs = Some ts")
  case True
  then obtain xs ts where xs: "field as_array (payload env) ''txids'' = Some xs" "length xs \<le> 25" "xs \<noteq> []"
    "parse_txids (hd_lib H) xs = Some ts" by blast
  obtain x s1 where x: "fetch_txs H ts [] s = (x, s1)" by (cases "fetch_txs H ts [] s")
  then have "s' = s1" using assms(2) xs by (auto simp: get_transactions_def MAX_TXIDS_def split: sum.splits)
  then show ?thesis
    using spends_mono [OF fetch_txs_spends [OF assms(1) x], of 25] parse_txids_length [OF xs(4)] xs(2) by simp
next
  case False
  then have "s' = s"
    using assms(2) by (auto simp: get_transactions_def MAX_TXIDS_def not_less split: option.splits if_splits)
  then show ?thesis by simp
qed

lemma estimate_spends:
  "log_query (QEstimate n) f s = (r, s') \<Longrightarrow> n \<in> {1, 6, 12} \<Longrightarrow> spends L 1 (snd s) (snd s')"
  by (auto dest!: log_queryD intro!: spends_step)

lemma get_fee_estimates_spends:
  assumes "hd_electrs H = logged B" "get_fee_estimates H env s = (r, s')"
  shows "spends L 3 (snd s) (snd s')"
proof -
  define q where "q n = log_query (QEstimate n) (be_estimate B n)" for n
  obtain x1 s1 where e1: "q 1 s = (x1, s1)" by (cases "q 1 s")
  obtain x2 s2 where e2: "q 6 s1 = (x2, s2)" by (cases "q 6 s1")
  obtain x3 s3 where e3: "q 12 s2 = (x3, s3)" by (cases "q 12 s2")
  have s1: "spends L 1 (snd s) (snd s1)" using estimate_spends [OF e1 [unfolded q_def]] by simp
  have s2: "spends L 2 (snd s) (snd s2)"
    using estimate_spends [OF e2 [unfolded q_def], of L] spends_trans [OF s1, of 1 "snd s2" 2] by simp
  have s3: "spends L 3 (snd s) (snd s3)"
    using estimate_spends [OF e3 [unfolded q_def], of L] spends_trans [OF s2, of 1 "snd s3" 3] by simp
  have "s' \<in> {s1, s2, s3}"
    using assms e1 e2 e3 by (auto simp: get_fee_estimates_def q_def split: prod.splits sum.splits)
  then show ?thesis using s1 s2 s3 by (auto intro: spends_mono)
qed

lemma broadcast_tx_spends:
  assumes "hd_electrs H = logged B" "broadcast_tx H env s = (r, s')"
  shows "spends (hd_lib H) 1 (snd s) (snd s')"
proof (cases "\<exists>h raw. field as_str (payload env) ''txHex'' = Some h \<and> h \<noteq> [] \<and> length h \<le> MAX_TXHEX_LEN \<and>
    from_hex (hd_lib H) h = Some raw \<and> txid_of (hd_lib H) raw \<noteq> None")
  case True
  then obtain h raw where h: "field as_str (payload env) ''txHex'' = Some h" "h \<noteq> []" "length h \<le> MAX_TXHEX_LEN"
    "from_hex (hd_lib H) h = Some raw" "txid_of (hd_lib H) raw \<noteq> None" by blast
  obtain x s1 where x: "log_query (QBroadcast raw) (be_broadcast B raw) s = (x, s1)"
    by (cases "log_query (QBroadcast raw) (be_broadcast B raw) s")
  then have "s' = s1" using assms h by (auto simp: broadcast_tx_def Let_def split: sum.splits)
  moreover have "spends (hd_lib H) 1 (snd s) (snd s1)"
    unfolding log_queryD [OF x] using h(5) by (intro spends_step) (auto simp: txid_of_def)
  ultimately show ?thesis by simp
next
  case False
  then have "s' = s"
    using assms(2) by (auto simp: broadcast_tx_def Let_def not_less split: option.splits if_splits)
  then show ?thesis by simp
qed

lemma on_backend_spends:
  assumes "on_backend f st = (r, st')" and "spends L n (snd (fst st)) (snd (snd (f (fst st))))"
  shows "spends L n (snd (fst st)) (snd (fst st'))"
  using assms by (cases "f (fst st)") (auto simp: on_backend_def split: prod.splits)

text \<open>The calls of the node a request of each type may take.\<close>

definition call_budget :: "string \<Rightarrow> nat" where
  "call_budget t =
     (if t = ''get_history'' then 201
      else if t = ''get_transactions'' then 25
      else if t = ''get_fee_estimates'' then 3
      else if t = ''get_utxos'' then 2
      else if t \<in> {''ping'', ''get_balance'', ''broadcast_tx''} then 1
      else 0)"

lemma handle_spends:
  assumes B: "hd_electrs H = logged B" and O: "order_ok (hd_order H)"
    and h: "handle H io sender env st = (r, st')"
  shows "spends (hd_lib H) (call_budget (msg_type env)) (snd (fst st)) (snd (fst st'))"
proof -
  consider "msg_type env = ''get_history''" | "msg_type env = ''watch_addresses''"
    | "msg_type env \<noteq> ''get_history''" "msg_type env \<noteq> ''watch_addresses''" by blast
  then show ?thesis
  proof cases
    case 1
    then have "get_history H env (fst st) = (r, fst st')"
      using h by (auto simp: handle_def split: prod.splits)
    from get_history_spends [OF B O this] 1 show ?thesis by (simp add: call_budget_def)
  next
    case 2
    then show ?thesis using h by (auto simp: handle_def split: prod.splits)
  next
    case 3
    then show ?thesis
      using h by (auto simp: handle_def call_budget_def simp del: One_nat_def split: if_splits
        elim!: on_backend_spends intro: ping_spends [OF B surjective_pairing]
          get_balance_spends [OF B surjective_pairing] get_utxos_spends [OF B surjective_pairing]
          get_transactions_spends [OF B surjective_pairing] get_fee_estimates_spends [OF B surjective_pairing]
          broadcast_tx_spends [OF B surjective_pairing])
  qed
qed

section \<open>The history as a set of transactions\<close>

definition height_pairs :: "history_res list list \<Rightarrow> (txid \<times> usize) list" where
  "height_pairs hists = map (\<lambda>h. (his_tx_hash h, i32_max0 (his_height h))) (concat hists)"

text \<open>Each transaction once, at the largest height reported for it; the newest \<open>n\<close> of them.\<close>

definition history_set :: "history_res list list \<Rightarrow> hist_tx set" where
  "history_set hists =
     (\<lambda>t. HistTx t (Max (values_of t (height_pairs hists)))) ` fst ` set (height_pairs hists)"

definition history_spec :: "history_res list list \<Rightarrow> nat \<Rightarrow> hist_tx list" where
  "history_spec hists n = take n (sorted_list_of_set (history_set hists))"

lemma finite_history_set [simp]: "finite (history_set hists)"
  by (simp add: history_set_def)

lemma values_of_key: "values_of t ps \<noteq> {} \<longleftrightarrow> t \<in> fst ` set ps"
  by (force simp: values_of_def)

lemma merged_history_entries:
  "(t, h) \<in> set (merged_history hists) \<longleftrightarrow> HistTx t h \<in> history_set hists"
proof -
  have "(t, h) \<in> set (merged_history hists) \<longleftrightarrow> map_of (hm_maxes (height_pairs hists)) t = Some h"
    by (simp add: merged_history_def height_pairs_def [symmetric] hm_in_set)
  then show ?thesis
    using values_of_key [of t "height_pairs hists"] by (auto simp: map_of_hm_maxes history_set_def)
qed

lemma newest_first_spec:
  assumes "order_ok ho"
  shows "newest_first ho limit (merged_history hists) = history_spec hists (unat limit)"
proof -
  let ?m = "ho_txs ho (merged_history hists)" and ?f = "\<lambda>(t, h). HistTx t h"
  have "distinct (merged_history hists)"
    using hm_ok_maxes unfolding merged_history_def hm_ok_def distinct_map by blast
  then have "distinct ?m" using assms order_ok_sets(3) mset_eq_imp_distinct_iff by blast
  moreover have "inj_on ?f (set ?m)" by (auto simp: inj_on_def)
  ultimately have d: "distinct (map ?f ?m)" by (simp only: distinct_map simp_thms)
  have "set (map ?f ?m) = history_set hists"
  proof (rule set_eqI)
    fix tx
    show "tx \<in> set (map ?f ?m) \<longleftrightarrow> tx \<in> history_set hists"
      using merged_history_entries [of "ht_txid tx" "ht_height tx" hists] order_ok_sets(2) [OF assms]
      by (cases tx) (force simp: merged_history_entries)
  qed
  then have "sort (map ?f ?m) = sorted_list_of_set (history_set hists)"
    using d sorted_list_of_set_sort_remdups [of "map ?f ?m"] by (simp add: distinct_remdups_id)
  then show ?thesis by (simp add: newest_first_def history_spec_def)
qed

lemma history_spec_shape:
  "sorted (history_spec hists n)" "distinct (map ht_txid (history_spec hists n))"
  "length (history_spec hists n) = min n (card (fst ` set (height_pairs hists)))"
proof -
  have inj: "inj_on ht_txid (history_set hists)" by (auto simp: inj_on_def history_set_def)
  have c: "card (history_set hists) = card (fst ` set (height_pairs hists))"
    unfolding history_set_def by (intro card_image) (simp add: inj_on_def)
  show "sorted (history_spec hists n)" by (simp add: history_spec_def sorted_wrt_take)
  have "distinct (map ht_txid (sorted_list_of_set (history_set hists)))"
    using inj by (simp add: distinct_map)
  then show "distinct (map ht_txid (history_spec hists n))"
    unfolding history_spec_def take_map [symmetric] by (rule distinct_take)
  show "length (history_spec hists n) = min n (card (fst ` set (height_pairs hists)))"
    by (simp add: history_spec_def c min.commute)
qed

section \<open>Sums of amounts\<close>

lemma unat_sum_list: "unat (sum_list (xs :: u64 list)) = sum_list (map unat xs) mod 2 ^ 64"
proof (induction xs)
  case Nil
  then show ?case by simp
next
  case (Cons x xs)
  then show ?case by (simp add: unat_word_ariths mod_simps)
qed

lemma sint_eq_of_range:
  assumes "(of_int k :: i64) = w" "- (2 ^ 63) \<le> k" "k < 2 ^ 63"
  shows "sint w = k"
  using assms signed_take_bit_int_eq_self [of 63 k] by (auto simp: signed_of_int)

lemma of_int_sum_list: "of_int (sum_list (map sint xs)) = sum_list (xs :: i64 list)"
  by (induction xs) simp_all

section \<open>A sample of the parameters\<close>

definition sample_lib :: "(string, unit) chain_lib" where
  "sample_lib =
     \<lparr>addr_from_str = (\<lambda>s. if s \<in> {''bc1a'', ''bc1b'', ''tb1c''} then Some s else None),
      require_network = (\<lambda>n a. if (n = BtcBitcoin) = (a \<noteq> ''tb1c'') then Some a else None),
      script_pubkey = map of_char, txid_parse = (\<lambda>s. Some (map of_char s)), hash_str = map (\<lambda>b. char_of (unat b)),
      to_hex = map (\<lambda>b. char_of (unat b)), from_hex = (\<lambda>s. Some (map of_char s)),
      tx_decode = (\<lambda>raw. if raw = [] then None else Some ()), compute_txid = (\<lambda>_. [0])\<rparr>"

text \<open>A backend whose state is the height of its tip.\<close>

definition sample_backend :: "usize backend" where
  "sample_backend =
     \<lparr>be_tip = (\<lambda>s. (Inr (s, [98], 7), s)),
      be_balances = (\<lambda>ss s. (Inr (map (\<lambda>_. \<lparr>bal_confirmed = 50, bal_unconfirmed = - 20\<rparr>) ss), s)),
      be_histories = (\<lambda>ss s. (Inr (map (\<lambda>_. [\<lparr>his_tx_hash = [97], his_height = 90\<rparr>,
                                               \<lparr>his_tx_hash = [99], his_height = - 1\<rparr>]) ss), s)),
      be_unspents = (\<lambda>ss s. (Inr (map (\<lambda>_. [\<lparr>uns_tx_hash = [97], uns_tx_pos = 1, uns_value = 5, uns_height = 90\<rparr>]) ss), s)),
      be_anchors = (\<lambda>hs s. (Inr (\<lambda>h. if h \<in> set hs then Some ([98], 7) else None), s)),
      be_raw_tx = (\<lambda>t s. (Inr t, s)),
      be_estimate = (\<lambda>n s. (Inr (Fin 0), s)),
      be_broadcast = (\<lambda>raw s. (Inr [0], s))\<rparr>"

definition sample_handlers :: "(string, unit, usize) handlers" where
  "sample_handlers = handlers_new sample_lib id_order (sample_codec []) sample_backend Bitcoin"

definition addresses_payload :: "string list \<Rightarrow> json" where
  "addresses_payload xs = JObject [(''addresses'', JArray (map JString xs))]"

definition sample_state :: "usize handler_state" where
  "sample_state = (100, sample_ws, Map.empty)"

lemmas handlers_eval = sample_handlers_def handlers_new_def sample_lib_def sample_backend_def sample_env_def
  addresses_payload_def sample_state_def field_def id_order_def parse_address_def

section \<open>Properties\<close>

text \<open>
  C37. Validation comes first and costs nothing: a request is answered with \<open>invalid_request\<close> or
  \<open>invalid_tx\<close> exactly when it breaks the limits of PROTOCOL 7 for its type (1 to 200 addresses, at
  most 5000 watched ones, all of the server's network; 1 to 25 transaction ids; 1 to 200000 hex
  characters that decode to a transaction), and then nothing has changed: not the backend (it was not
  asked anything), not the watch sets, not the files.
\<close>

theorem invalid_requests_change_nothing:
  assumes "handle H io sender env st = (Ret r, st')"
  shows "(code_of r \<in> {Some InvalidRequest, Some InvalidTx} \<longleftrightarrow> \<not> valid_request (hd_lib H) (hd_network H) env) \<and>
    (\<not> valid_request (hd_lib H) (hd_network H) env \<longrightarrow> st' = st)"
proof -
  have plain: "rejects_iff True (ping H env s) s" "rejects_iff True (get_fee_estimates H env s) s" for s
    by (auto simp: ping_def get_fee_estimates_def rejects_iff_def split: prod.splits sum.splits)
  have lift: "rejects_iff ok (r, st') st"
    if "rejects_iff ok (f (fst st)) (fst st)" "on_backend f st = (Ret r, st')" for f ok
    using that by (cases "f (fst st)") (auto simp: on_backend_def rejects_iff_def split: prod.splits)
  have "rejects_iff (valid_request (hd_lib H) (hd_network H) env) (r, st') st"
  proof (cases "msg_type env \<in> {''get_history'', ''watch_addresses''}")
    case True
    then show ?thesis
      using assms get_history_rejects [of H env "fst st" r "fst st'"] watch_addresses_rejects [of H env io sender "snd st"]
      by (auto simp: handle_def valid_request_def rejects_iff_def split: prod.splits)
  next
    case False
    then show ?thesis
      using assms
      by (auto simp: handle_def valid_request_def Let_def rejects_iff_def [of True "(response_err i c m, s)" for i c m s]
          simp del: One_nat_def split: if_splits
          intro: lift plain get_balance_rejects get_utxos_rejects get_transactions_rejects broadcast_tx_rejects)
  qed
  then show ?thesis by (simp add: rejects_iff_def invalid_answer_def)
qed

theorem invalid_requests_change_nothing_witness:
  "\<exists>r. handle sample_handlers io_fine ''aa'' (sample_env ''get_balance'' (addresses_payload [''bc1a'', ''tb1c'']))
     sample_state = (Ret r, sample_state) \<and> code_of r = Some InvalidRequest"
proof -
  let ?env = "sample_env ''get_balance'' (addresses_payload [''bc1a'', ''tb1c''])"
  obtain r st' where h: "handle sample_handlers io_fine ''aa'' ?env sample_state = (Ret r, st')"
    by (cases "handle sample_handlers io_fine ''aa'' ?env sample_state")
      (auto simp: handle_def sample_env_def on_backend_def split: prod.splits)
  have v: "\<not> valid_request (hd_lib sample_handlers) (hd_network sample_handlers) ?env"
    by (simp add: valid_request_def handlers_eval address_list_ok_def address_ok_def)
  have st: "st' = sample_state" using invalid_requests_change_nothing [OF h] v by simp
  have "r = response_err ''nope'' InvalidRequest ''invalid addresses''"
    using h by (auto simp: handle_def handlers_eval on_backend_def get_balance_def query_addresses_def
        validate_addresses_def MAX_QUERY_ADDRESSES_def Let_def response_err_def split: prod.splits)
  with h st show ?thesis by simp
qed

text \<open>
  What one request can cost: whatever the request and however the hash tables iterate, the
  queries that \<open>handle\<close> makes of the backend keep to the bounds (1 to 200 scripts per batch, at most
  200 distinct non-zero heights, fee targets 1, 6 or 12, only bytes that decode to a transaction are
  broadcast), and together they take at most as many calls of the node as the type's budget: 201 for
  \<open>get_history\<close>, 25 for \<open>get_transactions\<close>, at most 3 for any other, none for a type it does not know.
\<close>

theorem backend_use_bounded:
  assumes "order_ok ho"
    and "handle (handlers_new L ho c (logged B) net) io sender env ((s, []), wd) = (r, ((s', qs), wd'))"
  shows "list_all (query_ok L) qs \<and> sum_list (map node_calls qs) \<le> call_budget (msg_type env)"
  using handle_spends [of "handlers_new L ho c (logged B) net" B io sender env "((s, []), wd)" r "((s', qs), wd')"] assms
  by (simp add: handlers_new_def spends_def)

theorem backend_use_bounded_witness:
  "\<exists>r qs st'. handle (handlers_new sample_lib id_order (sample_codec []) (logged sample_backend) Bitcoin) io_fine ''aa''
     (sample_env ''get_history'' (addresses_payload [''bc1a'', ''bc1b''])) ((100, []), sample_ws, Map.empty) = (r, ((100, qs), st'))
     \<and> sum_list (map node_calls qs) \<le> 201"
proof -
  let ?env = "sample_env ''get_history'' (addresses_payload [''bc1a'', ''bc1b''])"
  let ?H = "handlers_new sample_lib id_order (sample_codec []) (logged sample_backend) Bitcoin"
  obtain r s qs wd' where h: "handle ?H io_fine ''aa'' ?env ((100, []), sample_ws, Map.empty) = (r, ((s, qs), wd'))"
    by (metis surj_pair)
  then have "s = 100"
    by (auto simp: handle_def handlers_eval get_history_def log_query_def Let_def
        split: prod.splits sum.splits option.splits if_splits)
  with h backend_use_bounded [OF id_order_ok h] show ?thesis
    by (auto simp: call_budget_def sample_env_def)
qed

text \<open>What a client reads off an entry of the answer.\<close>

lemma history_json_reads:
  assumes "history_json L m tx = Some j"
  shows "json_get j ''txid'' = Some (JString (hash_str L (ht_txid tx))) \<and> json_get j ''height'' = Some (json_u64 (ht_height tx)) \<and>
    (if ht_height tx = 0 then json_get j ''block_hash'' = None \<and> json_get j ''block_time'' = None
     else \<exists>hash time. m (ht_height tx) = Some (hash, time) \<and> json_get j ''block_hash'' = Some (JString (hash_str L hash)) \<and>
       json_get j ''block_time'' = Some (json_u32 time))"
  using assms by (auto simp: history_json_def Let_def split: if_splits option.splits)

lemma anchor_heights_exact:
  assumes "order_ok ho"
  shows "distinct (anchor_heights ho txs)" "set (anchor_heights ho txs) = ht_height ` set txs - {0}"
proof -
  let ?hs = "remdups (filter (\<lambda>h. 0 < h) (map ht_height txs))"
  have ms: "mset (ho_heights ho ?hs) = mset ?hs" using assms by (simp add: order_ok_def)
  then show "distinct (anchor_heights ho txs)"
    unfolding anchor_heights_def by (metis distinct_remdups mset_eq_imp_distinct_iff)
  show "set (anchor_heights ho txs) = ht_height ` set txs - {0}"
    unfolding anchor_heights_def using mset_eq_setD [OF ms] by (auto simp: word_neq_0_conv)
qed

text \<open>
  C22. \<open>get_history\<close> is the newest part of the merged history: when it answers with a result, the
  answer lists exactly the first \<open>limit\<close> (1 to 200, 50 by default) of the transactions the node
  reported for any of the addresses, each once, at the largest height reported for it, by height
  downwards and then by id, whatever order the hash tables iterate in. It asked the node once for the blocks at
  exactly the heights listed, and every confirmed transaction comes with the hash and the time that the node
  answered for its height; an unconfirmed one comes with neither.
\<close>

theorem get_history_correct:
  assumes "order_ok (hd_order H)" "query_addresses H env = Inr addrs"
    and "be_histories (hd_electrs H) (map snd addrs) s = (Inr hists, s1)"
    and "get_history H env s = (Ret r, s2)" "resp_ok r"
  shows "let limit = history_limit (payload env); txs = history_spec hists (unat limit)
    in 1 \<le> limit \<and> limit \<le> 200 \<and>
       length txs = min (unat limit) (card (his_tx_hash ` set (concat hists))) \<and>
       sorted txs \<and> distinct (map ht_txid txs) \<and>
       (\<exists>heights anchors out.
          distinct heights \<and> set heights = ht_height ` set txs - {0} \<and>
          be_anchors (hd_electrs H) heights s1 = (Inr anchors, s2) \<and>
          r = response_ok (env_id env) (JObject [(''txs'', JArray out)]) \<and> length out = length txs \<and>
          (\<forall>i < length txs. let tx = txs ! i; entry = out ! i in
             json_get entry ''txid'' = Some (JString (hash_str (hd_lib H) (ht_txid tx))) \<and>
             json_get entry ''height'' = Some (json_u64 (ht_height tx)) \<and>
             (if ht_height tx = 0 then json_get entry ''block_hash'' = None \<and> json_get entry ''block_time'' = None
              else \<exists>hash time. anchors (ht_height tx) = Some (hash, time) \<and>
                json_get entry ''block_hash'' = Some (JString (hash_str (hd_lib H) hash)) \<and>
                json_get entry ''block_time'' = Some (json_u32 time))))"
proof -
  let ?limit = "history_limit (payload env)"
  let ?txs = "history_spec hists (unat ?limit)" and ?heights = "anchor_heights (hd_order H) (history_spec hists (unat (history_limit (payload env))))"
  have n: "newest_first (hd_order H) ?limit (merged_history hists) = ?txs"
    by (rule newest_first_spec [OF assms(1)])
  obtain a s3 where a: "be_anchors (hd_electrs H) ?heights s1 = (a, s3)" by fastforce
  obtain m where m: "a = Inr m"
    using assms(2-) a n by (cases a) (auto simp: get_history_def Let_def backend_err_def split: backend_error.splits)
  obtain out where out: "those (map (history_json (hd_lib H) m) ?txs) = Some out"
      "r = response_ok (env_id env) (JObject [(''txs'', JArray out)])" "s3 = s2"
    using assms(2-) a n m by (auto simp: get_history_def Let_def split: option.splits)
  have "those xs = Some ys \<Longrightarrow> xs = map Some ys" for xs and ys :: "json list"
    by (induction xs arbitrary: ys) (auto split: option.splits)
  with out(1) have e: "map (history_json (hd_lib H) m) ?txs = map Some out" by blast
  then have l: "length out = length ?txs" by (metis length_map)
  have "history_json (hd_lib H) m (?txs ! i) = Some (out ! i)" if "i < length ?txs" for i
    using e l that by (metis nth_map)
  note entries = history_json_reads [OF this]
  have "fst ` set (height_pairs hists) = his_tx_hash ` set (concat hists)"
    by (simp add: height_pairs_def image_image)
  then have "1 \<le> ?limit \<and> ?limit \<le> 200 \<and> length ?txs = min (unat ?limit) (card (his_tx_hash ` set (concat hists))) \<and>
      sorted ?txs \<and> distinct (map ht_txid ?txs)"
    using history_spec_shape [of hists "unat ?limit"] history_limit_range [of "payload env"] by auto
  then show ?thesis
    unfolding Let_def
    by (elim conjE, intro conjI exI [of _ ?heights] exI [of _ m] exI [of _ out] anchor_heights_exact [OF assms(1)] allI impI)
      (use a m out l entries in simp_all)
qed

lemma all_less_two: "(\<forall>i < Suc (Suc 0). P i) \<longleftrightarrow> P 0 \<and> P (Suc 0)"
  using less_Suc_eq by auto

lemma sample_history_spec:
  "history_spec [[\<lparr>his_tx_hash = [97], his_height = 90\<rparr>, \<lparr>his_tx_hash = [99], his_height = - 1\<rparr>]] 50 = [HistTx [97] 90, HistTx [99] 0]"
proof -
  let ?l = "[HistTx [97] 90, HistTx [99] 0]"
  have "values_of [97] [([97 :: 8 word], 90 :: usize), ([99], 0)] = {90}" "values_of [99] [([97 :: 8 word], 90 :: usize), ([99], 0)] = {0}"
    by (force simp: values_of_def)+
  then have "history_set [[\<lparr>his_tx_hash = [97], his_height = 90\<rparr>, \<lparr>his_tx_hash = [99], his_height = - 1\<rparr>]] = set ?l"
    by (simp add: history_set_def height_pairs_def i32_max0_def)
  moreover have "sorted ?l" "distinct ?l" by (simp_all add: less_eq_hist_tx_def less_hist_tx_def)
  ultimately show ?thesis by (simp add: history_spec_def sorted_list_of_set.idem_if_sorted_distinct)
qed

theorem get_history_correct_witness:
  "\<exists>out. fst (get_history sample_handlers (sample_env ''get_history'' (addresses_payload [''bc1a''])) 100) =
       Ret (response_ok ''nope'' (JObject [(''txs'', JArray out)])) \<and> length out = 2 \<and>
     json_get (out ! 0) ''height'' = Some (json_u64 90) \<and> json_get (out ! 0) ''block_time'' = Some (json_u32 7) \<and>
     json_get (out ! 1) ''height'' = Some (json_u64 0) \<and> json_get (out ! 1) ''block_time'' = None"
proof -
  let ?env = "sample_env ''get_history'' (addresses_payload [''bc1a''])"
  let ?hists = "[[\<lparr>his_tx_hash = [97], his_height = 90\<rparr>, \<lparr>his_tx_hash = [99], his_height = - 1\<rparr>]]"
  let ?m = "\<lambda>hs h. if h \<in> set hs then Some ([98 :: 8 word], 7 :: u32) else None"
  have o: "order_ok (hd_order sample_handlers)" by (simp add: sample_handlers_def id_order_ok)
  have q: "query_addresses sample_handlers ?env = Inr [(''bc1a'', map of_char ''bc1a'')]"
    by (simp add: query_addresses_def validate_addresses_def handlers_eval MAX_QUERY_ADDRESSES_def)
  have h: "be_histories (hd_electrs sample_handlers) (map snd [(''bc1a'', map of_char ''bc1a'')]) 100 = (Inr ?hists, 100)"
    by (simp add: sample_handlers_def sample_backend_def)
  have lim: "history_limit (payload ?env) = 50"
    by (simp add: history_limit_def handlers_eval DEFAULT_HISTORY_LIMIT_def)
  have anc: "be_anchors (hd_electrs sample_handlers) hs 100 = (Inr (?m hs), 100)" for hs
    by (simp add: sample_handlers_def sample_backend_def)
  let ?txs = "newest_first (hd_order sample_handlers) 50 (merged_history ?hists)"
  have "\<exists>out. those (map (history_json sample_lib (?m (anchor_heights (hd_order sample_handlers) ?txs))) ?txs) = Some out"
    using anchor_heights_covers [OF o] by (intro those_map_defined history_json_defined) auto
  then obtain out where r: "get_history sample_handlers ?env 100 =
      (Ret (response_ok (env_id ?env) (JObject [(''txs'', JArray out)])), 100)"
    using q h lim anc by (auto simp: get_history_def Let_def sample_handlers_def)
  have len: "unat (50 :: usize) = 50" by simp
  obtain heights anchors out' where w: "be_anchors (hd_electrs sample_handlers) heights 100 = (Inr anchors, 100)"
      "response_ok (env_id ?env) (JObject [(''txs'', JArray out)]) = response_ok (env_id ?env) (JObject [(''txs'', JArray out')])"
      "length out' = 2" "json_get (out' ! 0) ''height'' = Some (json_u64 90)" "json_get (out' ! 1) ''height'' = Some (json_u64 0)"
      "json_get (out' ! 1) ''block_time'' = None"
      "\<exists>hash time. anchors 90 = Some (hash, time) \<and> json_get (out' ! 0) ''block_time'' = Some (json_u32 time)"
    using get_history_correct [OF o q h r] unfolding lim len sample_history_spec Let_def by (auto simp: all_less_two)
  from w(1,7) have "json_get (out' ! 0) ''block_time'' = Some (json_u32 7)" unfolding anc by (auto split: if_splits)
  with w r show ?thesis by (auto simp: sample_env_def response_ok_def)
qed

text \<open>
  \<open>get_balance\<close> adds up: it reports the sum of the confirmed amounts of all the addresses modulo
  2^64, hence the sum itself for any amounts a node can report in satoshis, and the signed sum of the
  unconfirmed amounts, whenever that sum fits an \<open>i64\<close>.
\<close>

theorem get_balance_sums:
  assumes "query_addresses H env = Inr addrs"
    and "be_balances (hd_electrs H) (map snd addrs) s = (Inr res, s1)"
    and "get_balance H env s = (r, s2)"
  shows "\<exists>c u. r = response_ok (env_id env) (JObject [(''confirmed'', json_u64 c), (''unconfirmed'', json_i64 u)]) \<and>
    s2 = s1 \<and> unat c = (\<Sum>b \<leftarrow> res. unat (bal_confirmed b)) mod 2 ^ 64 \<and>
    (let total = (\<Sum>b \<leftarrow> res. sint (bal_unconfirmed b))
     in - (2 ^ 63) \<le> total \<and> total < 2 ^ 63 \<longrightarrow> sint u = total)"
proof -
  let ?c = "sum_list (map bal_confirmed res)" and ?u = "sum_list (map bal_unconfirmed res)"
  have "r = response_ok (env_id env) (JObject [(''confirmed'', json_u64 ?c), (''unconfirmed'', json_i64 ?u)])"
    "s2 = s1"
    using assms by (simp_all add: get_balance_def Let_def)
  moreover have "unat ?c = (\<Sum>b \<leftarrow> res. unat (bal_confirmed b)) mod 2 ^ 64"
    using unat_sum_list [of "map bal_confirmed res"] by (simp add: comp_def)
  moreover have "of_int (\<Sum>b \<leftarrow> res. sint (bal_unconfirmed b)) = ?u"
    using of_int_sum_list [of "map bal_unconfirmed res"] by (simp add: comp_def)
  moreover from this have "- (2 ^ 63) \<le> (\<Sum>b \<leftarrow> res. sint (bal_unconfirmed b)) \<Longrightarrow>
      (\<Sum>b \<leftarrow> res. sint (bal_unconfirmed b)) < 2 ^ 63 \<Longrightarrow> sint ?u = (\<Sum>b \<leftarrow> res. sint (bal_unconfirmed b))"
    by (rule sint_eq_of_range)
  ultimately show ?thesis
    by - (rule exI [where x = ?c], rule exI [where x = ?u], simp add: Let_def)
qed

theorem get_balance_sums_witness:
  "get_balance sample_handlers (sample_env ''get_balance'' (addresses_payload [''bc1a'', ''bc1b''])) 100 =
     (response_ok ''nope'' (JObject [(''confirmed'', json_u64 100), (''unconfirmed'', json_i64 (- 40))]), 100)"
proof -
  let ?env = "sample_env ''get_balance'' (addresses_payload [''bc1a'', ''bc1b''])"
  let ?addrs = "[(''bc1a'', map of_char ''bc1a''), (''bc1b'', map of_char ''bc1b'')]"
  let ?b = "\<lparr>bal_confirmed = 50, bal_unconfirmed = - 20\<rparr>"
  have q: "query_addresses sample_handlers ?env = Inr ?addrs"
    by (simp add: query_addresses_def validate_addresses_def handlers_eval MAX_QUERY_ADDRESSES_def)
  have b: "be_balances (hd_electrs sample_handlers) (map snd ?addrs) 100 = (Inr [?b, ?b], 100)"
    by (simp add: sample_handlers_def sample_backend_def)
  obtain r s2 where g: "get_balance sample_handlers ?env 100 = (r, s2)" by fastforce
  have twenty: "sint (- 20 :: i64) = - 20" by (rule sint_eq_of_range) simp_all
  from get_balance_sums [OF q b g] obtain c u where r: "s2 = 100"
      "r = response_ok ''nope'' (JObject [(''confirmed'', json_u64 c), (''unconfirmed'', json_i64 u)])"
    and c: "unat c = 100" and u: "sint u = - 40"
    by (auto simp: Let_def sample_env_def twenty)
  have "c = 100" using c by (simp add: word_unat_eq_iff)
  moreover have "sint (- 40 :: i64) = - 40" by (rule sint_eq_of_range) simp_all
  with u have "u = - 40" by (metis signed_word_eqI)
  ultimately show ?thesis using g r by simp
qed

text \<open>
  \<open>get_utxos\<close> labels what the node returned: with one list per queried address in the reply, the
  answer has every output of every list once, under the address it was returned for, and its
  confirmations count the blocks from its own to the tip, both included (0 when unconfirmed, 1 when
  the output's block is above the tip the server saw).
\<close>

theorem get_utxos_correct:
  assumes "query_addresses H env = Inr addrs"
    and "be_tip (hd_electrs H) s = (Inr (tip, hash, time), s1)" "unat tip < 2 ^ 63"
    and "be_unspents (hd_electrs H) (map snd addrs) s1 = (Inr per_addr, s2)" "length per_addr = length addrs"
  shows "\<exists>utxos. get_utxos H env s = (response_ok (env_id env) (JObject [(''utxos'', JArray utxos)]), s2) \<and>
    length utxos = (\<Sum>us \<leftarrow> per_addr. length us) \<and>
    set utxos = (\<Union>i \<in> {..<length addrs}. utxo_json (hd_lib H) tip (fst (addrs ! i)) ` set (per_addr ! i)) \<and>
    (\<forall>us \<in> set per_addr. \<forall>u \<in> set us. unat (confirmations tip (uns_height u)) =
       (if uns_height u = 0 then 0
        else if uns_height u \<le> tip then unat tip - unat (uns_height u) + 1 else 1))"
proof -
  let ?f = "\<lambda>((addr, _), unsp). map (utxo_json (hd_lib H) tip addr) unsp"
  let ?utxos = "concat (map ?f (zip addrs per_addr))"
  have "get_utxos H env s = (response_ok (env_id env) (JObject [(''utxos'', JArray ?utxos)]), s2)"
    using assms(1,2,4) by (simp add: get_utxos_def Let_def)
  moreover have "length ?utxos = (\<Sum>us \<leftarrow> per_addr. length us)"
    using assms(5)
    by (induction addrs per_addr rule: list_induct2') (auto simp: length_concat split: prod.splits)
  moreover have "set ?utxos =
      (\<Union>i \<in> {..<length addrs}. utxo_json (hd_lib H) tip (fst (addrs ! i)) ` set (per_addr ! i))"
  proof -
    have "set ?utxos = (\<Union>p \<in> set (zip addrs per_addr). utxo_json (hd_lib H) tip (fst (fst p)) ` set (snd p))"
      by (simp add: case_prod_beta)
    also have "\<dots> = (\<Union>i \<in> {..<length addrs}. utxo_json (hd_lib H) tip (fst (addrs ! i)) ` set (per_addr ! i))"
      using assms(5) by (auto simp: set_zip)
    finally show ?thesis .
  qed
  moreover have "unat (confirmations tip h) =
      (if h = 0 then 0 else if h \<le> tip then unat tip - unat h + 1 else 1)" for h
  proof -
    have "unat (saturating_sub tip h + 1) = unat tip - unat h + 1"
      using assms(3) by (simp add: unat_word_ariths nomad_word)
    then show ?thesis by (simp add: confirmations_def word_le_nat_alt)
  qed
  ultimately show ?thesis by (intro exI [of _ ?utxos]) blast
qed

theorem get_utxos_correct_witness:
  "\<exists>utxos. get_utxos sample_handlers (sample_env ''get_utxos'' (addresses_payload [''bc1a'', ''bc1b''])) 100 =
     (response_ok ''nope'' (JObject [(''utxos'', JArray utxos)]), 100) \<and> length utxos = 2"
proof -
  let ?env = "sample_env ''get_utxos'' (addresses_payload [''bc1a'', ''bc1b''])"
  let ?addrs = "[(''bc1a'', map of_char ''bc1a''), (''bc1b'', map of_char ''bc1b'')]"
  let ?u = "\<lparr>uns_tx_hash = [97], uns_tx_pos = 1, uns_value = 5, uns_height = 90\<rparr>"
  have q: "query_addresses sample_handlers ?env = Inr ?addrs"
    by (simp add: query_addresses_def validate_addresses_def handlers_eval MAX_QUERY_ADDRESSES_def)
  have t: "be_tip (hd_electrs sample_handlers) 100 = (Inr (100, [98], 7), 100)" "unat (100 :: usize) < 2 ^ 63"
    and u: "be_unspents (hd_electrs sample_handlers) (map snd ?addrs) 100 = (Inr [[?u], [?u]], 100)"
    by (simp_all add: sample_handlers_def sample_backend_def)
  have l: "length [[?u], [?u]] = length ?addrs" by simp
  from get_utxos_correct [OF q t u l] show ?thesis by (fastforce simp: sample_env_def)
qed

end
