(* ===== verification/TransportProps.thy ===== *)
theory TransportProps
  imports Transport HandlerProps
begin

text \<open>
  What the transport of \<open>server/src/transport.rs\<close> guarantees of one request: who may change what, that
  every request that is not a replay gets exactly one answer, and that the answer reads back at the
  wallet it goes to.
\<close>

section \<open>What each step may change\<close>

lemma al_add_effect:
  assumes "al_ok al" "al_add c io k al d = (r, al', d')"
  shows "al_ok al' \<and> al_path al' = al_path al \<and> (\<forall>q. is_paired al' q \<longleftrightarrow> q = k \<or> is_paired al q)"
proof -
  have "al_path al' = al_path al" using assms(2) by (auto simp: al_add_def Let_def split: prod.splits)
  then show ?thesis using al.ok_add [OF assms(1), of c io k d] al.member_add [OF assms(1), of c io k d] assms(2) by simp
qed

lemma al_remove_effect:
  assumes "al_ok al" "al_remove c io k al d = (r, al', d')"
  shows "al_ok al' \<and> al_path al' = al_path al \<and> (\<forall>q. is_paired al' q \<longleftrightarrow> q \<noteq> k \<and> is_paired al q) \<and>
    (\<forall>b. r = Inr b \<longrightarrow> b = is_paired al k)"
proof -
  have "al_path al' = al_path al" using assms(2) by (auto simp: al_remove_def Let_def split: prod.splits sum.splits if_splits)
  then show ?thesis
    using al.ok_remove [OF assms(1), of c io k d] al.member_remove [OF assms(1), of c io k d]
      al.remove_answer [OF assms(1), of c io k d] assms(2)
    by simp
qed

lemma watch_addresses_effect:
  assumes "ws_ok ws" "watch_addresses H io sender env (ws, d) = (r, ws', d')"
  shows "ws_ok ws' \<and> ws_path ws' = ws_path ws \<and> (\<forall>w. w \<noteq> sender \<longrightarrow> map_of (ws_sets ws') w = map_of (ws_sets ws) w)"
proof (cases "validate_addresses (hd_lib H) (payload env) (hd_network H) MAX_WATCH_ADDRESSES")
  case (Inl e)
  then show ?thesis using assms by (simp add: watch_addresses_def)
next
  case (Inr addrs)
  obtain x ws1 d1 where x: "ws_replace (hd_codec H) io sender (map fst addrs) ws d = (x, ws1, d1)"
    by (metis prod_cases3)
  then have "ws' = ws1" using Inr assms(2) by (cases x) (auto simp: watch_addresses_def)
  then show ?thesis using ws_replace_memory [OF assms(1) x] by simp
qed

lemma handle_effect:
  assumes "ws_ok ws" "handle H io sender env (s, ws, d) = (r, s', ws', d')"
  shows "ws_ok ws' \<and> ws_path ws' = ws_path ws \<and> (\<forall>w. w \<noteq> sender \<longrightarrow> map_of (ws_sets ws') w = map_of (ws_sets ws) w)"
proof (cases "msg_type env = ''watch_addresses''")
  case True
  then have "watch_addresses H io sender env (ws, d) = (case r of Ret x \<Rightarrow> x, ws', d')"
    using assms(2) by (auto simp: handle_def split: prod.splits)
  from watch_addresses_effect [OF assms(1) this] show ?thesis .
next
  case False
  then have "ws' = ws"
    using assms(2) by (auto simp: handle_def on_backend_def split: prod.splits if_splits)
  then show ?thesis using assms(1) by simp
qed

text \<open>
  The part of the state that belongs to one wallet, and the relation of states that differ in the
  sender's part only.
\<close>

definition wallet_view :: "'s server \<Rightarrow> string \<Rightarrow> bool \<times> string list option" where
  "wallet_view st w = (is_paired (sv_allowlist st) w, map_of (ws_sets (sv_watch st)) w)"

definition local_to :: "string \<Rightarrow> 's server \<Rightarrow> 's server \<Rightarrow> bool" where
  "local_to sender st st' \<longleftrightarrow>
     (server_ok st \<longrightarrow> server_ok st') \<and> (\<forall>dir. in_dir dir st \<longrightarrow> in_dir dir st') \<and>
     sv_replay st' = sv_replay st \<and> sv_ratelimit st' = sv_ratelimit st \<and>
     (\<forall>w. w \<noteq> sender \<longrightarrow> wallet_view st' w = wallet_view st w)"

lemma local_to_refl [simp]: "local_to sender st st"
  by (simp add: local_to_def)

lemma handle_pair_local:
  assumes "server_ok st" "handle_pair T rq sender env st = (r, st')"
  shows "local_to sender st st'"
proof -
  let ?proof = "pair_proof env"
  obtain ok pm where v: "verify_at (tr_crypto T) (rq_now rq) sender ?proof (sv_pairing st) = (ok, pm)" by fastforce
  then have pm: "pm_ok pm" using assms(1) verify_pm_ok [of "sv_pairing st" "tr_crypto T" "rq_now rq" sender ?proof]
    by (simp add: server_ok_def)
  obtain x al d where a: "al_add (tr_al_codec T) (rq_io_allowlist rq) sender (sv_allowlist st) (sv_fs st) = (x, al, d)"
    by (metis prod_cases3)
  have "al_ok (sv_allowlist st)" using assms(1) by (simp add: server_ok_def)
  note eff = al_add_effect [OF this a]
  have "st' \<in> {st, st\<lparr>sv_pairing := pm\<rparr>, st\<lparr>sv_pairing := pm, sv_allowlist := al, sv_fs := d\<rparr>}"
    using assms(2)
    by (cases "is_paired (sv_allowlist st) sender"; cases ok; cases x) (simp_all add: handle_pair_def Let_def v a)
  moreover have "local_to sender st (st\<lparr>sv_pairing := pm\<rparr>)"
    using pm by (simp add: local_to_def server_ok_def in_dir_def wallet_view_def)
  moreover have "local_to sender st (st\<lparr>sv_pairing := pm, sv_allowlist := al, sv_fs := d\<rparr>)"
    using pm eff by (simp add: local_to_def server_ok_def in_dir_def wallet_view_def)
  ultimately show ?thesis by (elim insertE emptyE) simp_all
qed

lemma handle_unpair_local:
  assumes "server_ok st" "handle_unpair T rq sender env st = (r, st')"
  shows "local_to sender st st'"
proof -
  obtain x al d where a: "al_remove (tr_al_codec T) (rq_io_allowlist rq) sender (sv_allowlist st) (sv_fs st) = (x, al, d)"
    by (metis prod_cases3)
  obtain y ws d' where w: "ws_remove_wallet (hd_codec (tr_handlers T)) (rq_io_watch rq) sender (sv_watch st) d = (y, ws, d')"
    by (metis prod_cases3)
  have ok: "al_ok (sv_allowlist st)" "ws_ok (sv_watch st)" using assms(1) by (simp_all add: server_ok_def)
  have "st' \<in> {st\<lparr>sv_allowlist := al, sv_fs := d\<rparr>, st\<lparr>sv_allowlist := al, sv_watch := ws, sv_fs := d'\<rparr>}"
    using assms(2) by (cases x) (auto simp: handle_unpair_def a w split: bool.splits)
  then show ?thesis
    using al_remove_effect [OF ok(1) a] ws_remove_memory [OF ok(2) w]
    by (auto simp: local_to_def server_ok_def in_dir_def wallet_view_def)
qed

lemma run_handler_local:
  assumes "server_ok st" "run_handler T rq sender env st = (r, st')"
  shows "local_to sender st st' \<and> sv_allowlist st' = sv_allowlist st \<and> sv_pairing st' = sv_pairing st"
proof -
  obtain x s ws d where h: "handle (tr_handlers T) (rq_io_watch rq) sender env (sv_backend st, sv_watch st, sv_fs st) = (x, s, ws, d)"
    by (metis surj_pair)
  have ok: "ws_ok (sv_watch st)" using assms(1) by (simp add: server_ok_def)
  have "st' = st\<lparr>sv_backend := s, sv_watch := ws, sv_fs := d\<rparr>"
    using assms(2) h by (simp add: run_handler_def)
  then show ?thesis
    using handle_effect [OF ok h] by (auto simp: local_to_def server_ok_def in_dir_def wallet_view_def)
qed

lemma dispatch_local:
  assumes "server_ok st" "dispatch T rq sender env st = (r, st')"
  shows "local_to sender st st'"
  using assms(2)
  by (auto simp: dispatch_def split: if_splits prod.splits
      dest: handle_pair_local [OF assms(1)] handle_unpair_local [OF assms(1)] run_handler_local [OF assms(1)])

text \<open>The state in which \<open>route\<close> hands a request over to \<open>dispatch\<close>, if it does.\<close>

definition admitted :: "('a, 't, 's) transport \<Rightarrow> req_env \<Rightarrow> string \<Rightarrow> request_envelope \<Rightarrow> 's server \<Rightarrow> 's server option" where
  "admitted T rq sender env st =
     (case check_and_insert (tr_rc_codec T) (rq_io_replay rq) (env_id env) (rq_now rq) (sv_replay st) (sv_fs st) of
        (fresh, rc, d) \<Rightarrow>
          (case allow sender (rq_now rq) (sv_ratelimit st) of
             (ok, rl) \<Rightarrow>
               if fresh \<and> ok then Some (st\<lparr>sv_replay := rc, sv_fs := d, sv_ratelimit := rl\<rparr>) else None))"

lemma route_dispatches:
  "admitted T rq sender env st = Some st1 \<Longrightarrow>
     route T rq sender env st =
       (case dispatch T rq sender env st1 of (Panic, st') \<Rightarrow> (Panic, st') | (Ret r, st') \<Rightarrow> (Ret (Some r), st'))"
  by (auto simp: admitted_def route_def split: prod.splits if_splits)

lemma allow_keeps_ok:
  assumes "rl_ok rl" "allow k now rl = (r, rl')"
  shows "rl_ok rl' \<and> (\<forall>j. j \<noteq> k \<longrightarrow> rl' j = rl j)"
proof -
  have ok: "bucket_ok (bucket_for rl k now)" by (rule bucket_for_ok [OF assms(1)])
  have "rl' = rl(k \<mapsto> snd (bucket_step (bucket_for rl k now) now))" using assms(2) by (simp add: allow_step)
  then show ?thesis using assms(1) limiter.step_good [OF ok, of now] by (auto simp: rl_ok_def)
qed

text \<open>What \<open>route\<close> changes before it dispatches, or instead of it.\<close>

definition only_accounting :: "string \<Rightarrow> 's server \<Rightarrow> 's server \<Rightarrow> bool" where
  "only_accounting sender st st' \<longleftrightarrow>
     (server_ok st \<longrightarrow> server_ok st') \<and> (\<forall>dir. in_dir dir st \<longrightarrow> in_dir dir st') \<and>
     sv_allowlist st' = sv_allowlist st \<and> sv_watch st' = sv_watch st \<and> sv_pairing st' = sv_pairing st \<and>
     sv_backend st' = sv_backend st \<and>
     (\<forall>w. w \<noteq> sender \<longrightarrow> sv_ratelimit st' w = sv_ratelimit st w) \<and>
     (\<forall>p. p \<notin> {rc_path (sv_replay st), with_extension (rc_path (sv_replay st)) ''tmp''} \<longrightarrow> sv_fs st' p = sv_fs st p)"

lemma check_frame:
  assumes "check_and_insert c io i now rc d = (b, rc', d')"
    and "p \<notin> {rc_path rc, with_extension (rc_path rc) ''tmp''}"
  shows "d' p = d p"
  using assms persist_frame [of p "rc_path rc" c io _ d]
  by (auto simp: check_and_insert_def Let_def split: if_splits)

lemma route_cases:
  assumes "server_ok st" "route T rq sender env st = (out, st')"
  obtains (replayed) "live_entry (sv_replay st) (env_id env) (rq_now rq) \<noteq> None" "out = Ret None" "only_accounting sender st st'"
  | (limited) "live_entry (sv_replay st) (env_id env) (rq_now rq) = None" "\<not> fst (allow sender (rq_now rq) (sv_ratelimit st))"
      "out = Ret (Some (response_err (env_id env) RateLimited ''slow down''))" "only_accounting sender st st'"
  | (dispatched) st1 where "live_entry (sv_replay st) (env_id env) (rq_now rq) = None"
      "fst (allow sender (rq_now rq) (sv_ratelimit st))"
      "admitted T rq sender env st = Some st1" "only_accounting sender st st1" "server_ok st1"
      "(case dispatch T rq sender env st1 of (Panic, s) \<Rightarrow> (Panic, s) | (Ret r, s) \<Rightarrow> (Ret (Some r), s)) = (out, st')"
proof -
  obtain b rc d where c: "check_and_insert (tr_rc_codec T) (rq_io_replay rq) (env_id env) (rq_now rq) (sv_replay st) (sv_fs st) = (b, rc, d)"
    by (metis prod_cases3)
  obtain ok rl where a: "allow sender (rq_now rq) (sv_ratelimit st) = (ok, rl)" by fastforce
  have oks: "rc_ok (sv_replay st)" "rl_ok (sv_ratelimit st)" using assms(1) by (simp_all add: server_ok_def)
  have b: "b \<longleftrightarrow> live_entry (sv_replay st) (env_id env) (rq_now rq) = None"
    using check_result [OF oks(1)] c by (metis fst_conv)
  note rc = check_keeps_ok [OF oks(1) c] and rl = allow_keeps_ok [OF oks(2) a] and fr = check_frame [OF c]
  have acc: "only_accounting sender st (st\<lparr>sv_replay := rc, sv_fs := d\<rparr>)"
    "only_accounting sender st (st\<lparr>sv_replay := rc, sv_fs := d, sv_ratelimit := rl\<rparr>)"
    using rc rl fr by (auto simp: only_accounting_def server_ok_def in_dir_def)
  show thesis
  proof (cases b)
    case False
    then have "check_and_insert (tr_rc_codec T) (rq_io_replay rq) (env_id env) (rq_now rq) (sv_replay st) (sv_fs st) = (False, rc, d)"
      using c by simp
    then have "out = Ret None" "st' = st\<lparr>sv_replay := rc, sv_fs := d\<rparr>" using assms(2) by (simp_all add: route_def)
    then show thesis using replayed b False acc(1) by simp
  next
    case True
    then have c: "check_and_insert (tr_rc_codec T) (rq_io_replay rq) (env_id env) (rq_now rq) (sv_replay st) (sv_fs st) = (True, rc, d)"
      using c by simp
    show thesis
    proof (cases ok)
      case False
      then have a0: "allow sender (rq_now rq) (sv_ratelimit st) = (False, rl)" using a by simp
      have "out = Ret (Some (response_err (env_id env) RateLimited ''slow down''))"
          "st' = st\<lparr>sv_replay := rc, sv_fs := d, sv_ratelimit := rl\<rparr>"
        using assms(2) by (simp_all add: route_def c a0)
      then show thesis using limited b True a0 acc(2) by simp
    next
      case ok: True
      let ?st1 = "st\<lparr>sv_replay := rc, sv_fs := d, sv_ratelimit := rl\<rparr>"
      have adm: "admitted T rq sender env st = Some ?st1" using ok by (simp add: admitted_def c a)
      moreover have "server_ok ?st1" using acc(2) assms(1) by (simp add: only_accounting_def)
      ultimately show thesis
        using dispatched [of ?st1] route_dispatches [OF adm] assms(2) a b True ok acc(2) by simp
    qed
  qed
qed

section \<open>Membership and answers\<close>

lemma verify_true:
  assumes "verify_at K now pk proof pm = (True, pm')"
  shows "\<exists>s. pm = Some s \<and> \<not> used s \<and> now < expires_at s \<and>
    hex_decode K proof = Some (hmac_sha256 K (secret s) (as_bytes pk)) \<and> pm' = Some (s\<lparr>used := True\<rparr>)"
  using assms by (auto simp: verify_at_def Let_def not_le split: option.splits if_splits)

lemma handle_pair_membership:
  assumes "al_ok (sv_allowlist st)" "handle_pair T rq sender env st = (r, st')"
    and "is_paired (sv_allowlist st') sender \<noteq> is_paired (sv_allowlist st) sender"
  shows "\<not> is_paired (sv_allowlist st) sender \<and>
    verify_at (tr_crypto T) (rq_now rq) sender (pair_proof env) (sv_pairing st) = (True, sv_pairing st')"
proof -
  obtain ok pm where v: "verify_at (tr_crypto T) (rq_now rq) sender (pair_proof env) (sv_pairing st) = (ok, pm)" by fastforce
  obtain x al d where a: "al_add (tr_al_codec T) (rq_io_allowlist rq) sender (sv_allowlist st) (sv_fs st) = (x, al, d)"
    by (metis prod_cases3)
  have np: "\<not> is_paired (sv_allowlist st) sender" using assms(2,3) by (auto simp: handle_pair_def)
  moreover have ok by (rule ccontr) (use assms(2,3) np v in \<open>simp add: handle_pair_def; auto\<close>)
  ultimately show ?thesis using assms(2) v a by (cases x) (auto simp: handle_pair_def)
qed

lemma dispatch_membership:
  assumes "server_ok st" "dispatch T rq sender env st = (r, st')"
    and "is_paired (sv_allowlist st') sender \<noteq> is_paired (sv_allowlist st) sender"
  shows "if is_paired (sv_allowlist st') sender
    then msg_type env = ''pair'' \<and>
      verify_at (tr_crypto T) (rq_now rq) sender (pair_proof env) (sv_pairing st) = (True, sv_pairing st')
    else msg_type env = ''unpair''"
proof -
  have al: "al_ok (sv_allowlist st)" using assms(1) by (simp add: server_ok_def)
  consider "msg_type env = ''pair''" | "msg_type env = ''unpair''" | "msg_type env \<noteq> ''pair''" "msg_type env \<noteq> ''unpair''"
    by blast
  then show ?thesis
  proof cases
    case 1
    then obtain x where h: "handle_pair T rq sender env st = (x, st')"
      using assms(2) by (auto simp: dispatch_def split: prod.splits)
    from handle_pair_membership [OF al h assms(3)] assms(3) 1 show ?thesis by simp
  next
    case 2
    then have p: "is_paired (sv_allowlist st) sender" using assms(2,3) by (auto simp: dispatch_def split: if_splits)
    with assms(3) 2 show ?thesis by simp
  next
    case 3
    then have "sv_allowlist st' = sv_allowlist st"
      using assms(2) by (auto simp: dispatch_def split: if_splits dest: run_handler_local [OF assms(1)])
    then show ?thesis using assms(3) by simp
  qed
qed

lemma handle_pair_answers: "answers env (fst (handle_pair T rq sender env st))"
  by (simp add: handle_pair_def split: prod.split sum.split bool.split)

lemma handle_unpair_answers: "answers env (fst (handle_unpair T rq sender env st))"
  by (simp add: handle_unpair_def split: prod.split sum.split bool.split)

lemma handle_answers_always:
  assumes "be_anchors (hd_electrs H) = be_anchors (electrs_backend R C)" "order_ok (hd_order H)"
  shows "\<exists>r. fst (handle H io sender env st) = Ret r \<and> answers env r"
proof -
  obtain r where r: "fst (get_history H env (fst st)) = Ret r"
    using electrs.get_history_returns [OF assms] by blast
  have h: "\<exists>r. fst (get_history H env (fst st)) = Ret r \<and> answers env r"
    using r get_history_answers [OF r] by simp
  have w: "fst (case watch_addresses H io sender env (snd st) of (r, wd') \<Rightarrow> (Ret r, fst st, wd'))
      = Ret (fst (watch_addresses H io sender env (snd st)))"
    by (simp split: prod.splits)
  show ?thesis using h by (auto simp: handle_def w handler_answers split: prod.splits)
qed

lemma dispatch_answers:
  assumes "be_anchors (hd_electrs (tr_handlers T)) = be_anchors (electrs_backend R C)" "order_ok (hd_order (tr_handlers T))"
  shows "\<exists>r. fst (dispatch T rq sender env st) = Ret r \<and> answers env r"
proof -
  have h: "\<exists>r. fst (run_handler T rq sender env st) = Ret r \<and> answers env r"
    using handle_answers_always [OF assms, of "rq_io_watch rq" sender env "(sv_backend st, sv_watch st, sv_fs st)"]
    by (auto simp: run_handler_def split: prod.splits)
  show ?thesis
    using h handle_pair_answers [of env T rq sender st] handle_unpair_answers [of env T rq sender st]
    by (auto simp: dispatch_def split: prod.splits)
qed

lemma file_names:
  "(dir, ALLOWLIST_FILE) \<noteq> (dir, WATCHSETS_FILE)" "(dir, ALLOWLIST_FILE) \<noteq> with_extension (dir, WATCHSETS_FILE) ''tmp''"
  "(dir, ALLOWLIST_FILE) \<noteq> (dir, SEEN_FILE)" "(dir, ALLOWLIST_FILE) \<noteq> with_extension (dir, SEEN_FILE) ''tmp''"
  by (simp_all add: ALLOWLIST_FILE_def WATCHSETS_FILE_def SEEN_FILE_def with_extension_def file_stem_def)

lemma ws_remove_frame:
  assumes "ws_path ws = (dir, WATCHSETS_FILE)" "ws_remove_wallet c io pk ws d = (r, ws', d')"
  shows "d' (dir, ALLOWLIST_FILE) = d (dir, ALLOWLIST_FILE)"
proof -
  have "snd (write_json_atomic c io (dir, WATCHSETS_FILE) s d) (dir, ALLOWLIST_FILE) = d (dir, ALLOWLIST_FILE)" for s
    by (rule write_json_frame [OF file_names(1,2)])
  then show ?thesis
    using assms by (auto simp: ws_remove_wallet_def Let_def split: prod.splits if_splits) (metis snd_conv)
qed

lemma al_load_cong: "d (dir, ALLOWLIST_FILE) = d' (dir, ALLOWLIST_FILE) \<Longrightarrow> al_load c rio dir d = al_load c rio dir d'"
  by (simp add: al_load_def Let_def load_json_cong [of d "(dir, ALLOWLIST_FILE)" d'])

section \<open>Properties\<close>

text \<open>
  C14. Strangers get nothing: a request of any type but \<open>pair\<close> from a key that is not on the allowlist
  is dropped as a replay or answered \<open>rate_limited\<close> or \<open>not_paired\<close>, and it leaves the allowlist, the
  watch sets, the pairing secret and the backend exactly as they are; besides the stranger's own
  bucket only the replay cache and its file change.
\<close>

theorem strangers_get_nothing:
  assumes "server_ok st" "\<not> is_paired (sv_allowlist st) sender" "msg_type env \<noteq> ''pair''"
    and "route T rq sender env st = (out, st')"
  shows "(out = Ret None \<or> (\<exists>r. out = Ret (Some r) \<and> resp_id r = env_id env \<and> code_of r \<in> {Some RateLimited, Some NotPaired})) \<and>
    sv_allowlist st' = sv_allowlist st \<and> sv_watch st' = sv_watch st \<and> sv_pairing st' = sv_pairing st \<and>
    sv_backend st' = sv_backend st \<and>
    (\<forall>w. w \<noteq> sender \<longrightarrow> sv_ratelimit st' w = sv_ratelimit st w) \<and>
    (\<forall>p. p \<notin> {rc_path (sv_replay st), with_extension (rc_path (sv_replay st)) ''tmp''} \<longrightarrow> sv_fs st' p = sv_fs st p)"
  using assms(1,4)
proof (cases rule: route_cases)
  case (dispatched st1)
  then have "\<not> is_paired (sv_allowlist st1) sender" using assms(2) by (simp add: only_accounting_def)
  then have "dispatch T rq sender env st1 = (Ret (response_err (env_id env) NotPaired ''not paired''), st1)"
    using assms(3) by (simp add: dispatch_def)
  then show ?thesis using dispatched(4,6) by (auto simp: only_accounting_def)
qed (simp_all add: only_accounting_def)

lemma membership_change:
  assumes "server_ok st" "route T rq sender env st = (out, st')"
    and "is_paired (sv_allowlist st') w \<noteq> is_paired (sv_allowlist st) w"
  shows "w = sender \<and>
    (if is_paired (sv_allowlist st') w
     then msg_type env = ''pair'' \<and>
       (\<exists>s. sv_pairing st = Some s \<and> \<not> used s \<and> rq_now rq < expires_at s \<and>
         hex_decode (tr_crypto T) (pair_proof env) = Some (hmac_sha256 (tr_crypto T) (secret s) (as_bytes sender)) \<and>
         sv_pairing st' = Some (s\<lparr>used := True\<rparr>))
     else msg_type env = ''unpair'')"
  using assms(1,2)
proof (cases rule: route_cases)
  case (dispatched st1)
  obtain x where d: "dispatch T rq sender env st1 = (x, st')"
    using dispatched(6) by (auto split: prod.splits run.splits)
  have same: "sv_allowlist st1 = sv_allowlist st" "sv_pairing st1 = sv_pairing st"
    using dispatched(4) by (simp_all add: only_accounting_def)
  have w: "w = sender"
    using dispatch_local [OF dispatched(5) d] assms(3) by (auto simp: local_to_def wallet_view_def same)
  have "is_paired (sv_allowlist st') sender \<noteq> is_paired (sv_allowlist st1) sender"
    using assms(3) by (simp add: w same)
  from dispatch_membership [OF dispatched(5) d this] show ?thesis
    using verify_true [of "tr_crypto T" "rq_now rq" sender "pair_proof env" "sv_pairing st1" "sv_pairing st'"]
    by (auto simp: w same split: if_splits)
qed (use assms(3) in \<open>simp_all add: only_accounting_def\<close>)

text \<open>
  Who gets on and off the allowlist: handling a request changes the membership of no wallet but the
  sender; it puts the sender on only for a \<open>pair\<close> request whose proof is the HMAC of the sender's key
  under the live secret, which is used up by that, and takes it off only for an \<open>unpair\<close> request.
\<close>

theorem membership_only_by_pair_and_unpair:
  assumes "server_ok st" "route T rq sender env st = (out, st')"
    and "is_paired (sv_allowlist st') w \<noteq> is_paired (sv_allowlist st) w"
  shows "w = sender \<and>
    (if is_paired (sv_allowlist st') w
     then msg_type env = ''pair'' \<and>
       (\<exists>s. sv_pairing st = Some s \<and> \<not> used s \<and> rq_now rq < expires_at s \<and>
         hex_decode (tr_crypto T) (pair_proof env) = Some (hmac_sha256 (tr_crypto T) (secret s) (as_bytes sender)) \<and>
         sv_pairing st' = Some (s\<lparr>used := True\<rparr>))
     else msg_type env = ''unpair'')"
  by (rule membership_change [OF assms])

text \<open>
  C27. Exactly one answer: on a server whose handlers sit on the Electrum adapter, a request is dropped
  exactly when its id was accepted less than ten days before; any other request gets, without a panic,
  one well-formed response with its own id, and reading that response back from its JSON gives it
  unchanged.
\<close>

theorem route_answers_once:
  assumes "server_ok st" "order_ok ho" "tr_handlers T = handlers_new L ho c (electrs_backend R C) net"
    and "route T rq sender env st = (out, st')"
  shows "if (\<exists>ts. map_of (rc_seen (sv_replay st)) (env_id env) = Some ts \<and> unat (rq_now rq) - unat ts < 864000)
    then out = Ret None
    else \<exists>r. out = Ret (Some r) \<and> resp_id r = env_id env \<and> resp_wf r \<and> response_of_json (response_to_json r) = Some r"
proof -
  have live: "live_entry (sv_replay st) (env_id env) (rq_now rq) \<noteq> None \<longleftrightarrow>
      (\<exists>ts. map_of (rc_seen (sv_replay st)) (env_id env) = Some ts \<and> unat (rq_now rq) - unat ts < 864000)"
    by (auto simp: live_entry_def live_at_nat split: option.splits if_splits)
  show ?thesis
    using assms(1,4) unfolding live [symmetric]
  proof (cases rule: route_cases)
    case (dispatched st1)
    obtain r where r: "fst (dispatch T rq sender env st1) = Ret r" "answers env r"
      using dispatch_answers [of T R C rq sender env st1] assms(2,3) by auto
    then have "out = Ret (Some r)"
      using dispatched(6) by (cases "dispatch T rq sender env st1") auto
    with r(2) dispatched(1) show "if live_entry (sv_replay st) (env_id env) (rq_now rq) \<noteq> None then out = Ret None
      else \<exists>r. out = Ret (Some r) \<and> resp_id r = env_id env \<and> resp_wf r \<and> response_of_json (response_to_json r) = Some r"
      by (simp add: answers_def resp_wf_reads_back)
  qed (simp_all add: resp_wf_reads_back)
qed

text \<open>
  C28. Isolation of wallets: handling a request keeps the shared state well formed and touches neither
  the pairing, nor the watch set, nor the rate-limit bucket of any wallet but the sender, whatever the
  request, its outcome and the failures on the way.
\<close>

theorem other_wallets_untouched:
  assumes "server_ok st" "route T rq sender env st = (out, st')" "w \<noteq> sender"
  shows "server_ok st' \<and> is_paired (sv_allowlist st') w = is_paired (sv_allowlist st) w \<and>
    map_of (ws_snapshot (sv_watch st')) w = map_of (ws_snapshot (sv_watch st)) w \<and>
    sv_ratelimit st' w = sv_ratelimit st w"
  using assms(1,2)
proof (cases rule: route_cases)
  case (dispatched st1)
  obtain x where d: "dispatch T rq sender env st1 = (x, st')"
    using dispatched(6) by (auto split: prod.splits run.splits)
  show ?thesis
    using dispatch_local [OF dispatched(5) d] dispatched(4,5) assms(1,3)
    by (auto simp: local_to_def only_accounting_def wallet_view_def ws_snapshot_def)
qed (use assms(1,3) in \<open>simp_all add: only_accounting_def ws_snapshot_def\<close>)

lemma handle_pair_durable:
  assumes "server_ok st" "in_dir dir st" "typed_codec bts_ok (tr_al_codec T)" "io_read rio"
    and "handle_pair T rq sender env st = (r, st')" "resp_ok r"
  shows "al_load (tr_al_codec T) rio dir (sv_fs st') = Inr (sv_allowlist st') \<and> is_paired (sv_allowlist st') sender"
proof -
  obtain ok pm where v: "verify_at (tr_crypto T) (rq_now rq) sender (pair_proof env) (sv_pairing st) = (ok, pm)" by fastforce
  obtain x al d where a: "al_add (tr_al_codec T) (rq_io_allowlist rq) sender (sv_allowlist st) (sv_fs st) = (x, al, d)"
    by (metis prod_cases3)
  have np: "\<not> is_paired (sv_allowlist st) sender" using assms(5,6) by (auto simp: handle_pair_def)
  have ok using assms(5,6) v np by (cases ok) (auto simp: handle_pair_def)
  moreover obtain u where x: "x = Inr u" using assms(5,6) v np a \<open>ok\<close> by (cases x) (auto simp: handle_pair_def)
  ultimately have st': "st' = st\<lparr>sv_pairing := pm, sv_allowlist := al, sv_fs := d\<rparr>"
    using assms(5) v np a by (simp add: handle_pair_def)
  have ok_al: "al_ok (sv_allowlist st)" and p: "al_path (sv_allowlist st) = (dir, ALLOWLIST_FILE)"
    using assms(1,2) by (simp_all add: server_ok_def in_dir_def)
  have "write_json_atomic (tr_al_codec T) (rq_io_allowlist rq) (dir, ALLOWLIST_FILE) (al_wallets al) (sv_fs st) = (Inr u, d)"
    using a x p by (auto simp: al_add_def Let_def split: prod.splits)
  from written_loads [OF assms(3) allowlist_path_proper assms(4) this] al_add_effect [OF ok_al a] p
  show ?thesis by (simp add: al_load_Inr st')
qed

lemma handle_unpair_durable:
  assumes "server_ok st" "in_dir dir st" "typed_codec bts_ok (tr_al_codec T)" "io_read rio"
    and "handle_unpair T rq sender env st = (r, st')" "resp_ok r"
  shows "al_load (tr_al_codec T) rio dir (sv_fs st') = Inr (sv_allowlist st') \<and> \<not> is_paired (sv_allowlist st') sender \<and>
    map_of (ws_snapshot (sv_watch st')) sender = None"
proof -
  obtain x al d where a: "al_remove (tr_al_codec T) (rq_io_allowlist rq) sender (sv_allowlist st) (sv_fs st) = (x, al, d)"
    by (metis prod_cases3)
  obtain y ws d' where w: "ws_remove_wallet (hd_codec (tr_handlers T)) (rq_io_watch rq) sender (sv_watch st) d = (y, ws, d')"
    by (metis prod_cases3)
  have x: "x = Inr True" using assms(5,6) by (cases x) (auto simp: handle_unpair_def a split: bool.splits prod.splits)
  then have st': "st' = st\<lparr>sv_allowlist := al, sv_watch := ws, sv_fs := d'\<rparr>"
    using assms(5) by (simp add: handle_unpair_def a w)
  have ok: "al_ok (sv_allowlist st)" "ws_ok (sv_watch st)" and p: "al_path (sv_allowlist st) = (dir, ALLOWLIST_FILE)"
      "ws_path (sv_watch st) = (dir, WATCHSETS_FILE)"
    using assms(1,2) by (simp_all add: server_ok_def in_dir_def)
  obtain u where "write_json_atomic (tr_al_codec T) (rq_io_allowlist rq) (dir, ALLOWLIST_FILE) (al_wallets al) (sv_fs st) = (Inr u, d)"
    using a x p by (auto simp: al_remove_def Let_def split: prod.splits sum.splits if_splits)
  from written_loads [OF assms(3) allowlist_path_proper assms(4) this]
  have "al_load (tr_al_codec T) rio dir d' = Inr al"
    using al_remove_effect [OF ok(1) a] p al_load_cong [of d' dir d] ws_remove_frame [OF p(2) w] by (simp add: al_load_Inr)
  then show ?thesis
    using al_remove_effect [OF ok(1) a] ws_remove_memory [OF ok(2) w] by (simp add: st' ws_snapshot_def)
qed

text \<open>
  C30. What is acknowledged is durable: when a \<open>pair\<close> or \<open>unpair\<close> request is answered with a result, the
  sender is on the allowlist or off it respectively, a restart loads exactly the allowlist in memory,
  and after an \<open>unpair\<close> the sender's watch set is gone, even if clearing its file failed.
\<close>

theorem acknowledged_membership_durable:
  assumes "server_ok st" "in_dir dir st" "typed_codec bts_ok (tr_al_codec T)" "io_read rio"
    and "msg_type env \<in> {''pair'', ''unpair''}" "dispatch T rq sender env st = (Ret r, st')" "resp_ok r"
  shows "al_load (tr_al_codec T) rio dir (sv_fs st') = Inr (sv_allowlist st') \<and>
    (is_paired (sv_allowlist st') sender \<longleftrightarrow> msg_type env = ''pair'') \<and>
    (msg_type env = ''unpair'' \<longrightarrow> map_of (ws_snapshot (sv_watch st')) sender = None)"
proof (cases "msg_type env = ''pair''")
  case True
  then have "handle_pair T rq sender env st = (r, st')" using assms(6) by (auto simp: dispatch_def split: prod.splits)
  from handle_pair_durable [OF assms(1-4) this assms(7)] True show ?thesis by simp
next
  case False
  then have un: "msg_type env = ''unpair''" using assms(5) by simp
  then have "is_paired (sv_allowlist st) sender" using assms(6,7) by (auto simp: dispatch_def split: if_splits)
  then have "handle_unpair T rq sender env st = (r, st')"
    using assms(6) un by (auto simp: dispatch_def split: prod.splits)
  from handle_unpair_durable [OF assms(1-4) this assms(7)] un show ?thesis by simp
qed

section \<open>A sample server\<close>

definition sample_server :: "'s \<Rightarrow> 's server" where
  "sample_server b =
     \<lparr>sv_allowlist = sample_al, sv_watch = sample_ws,
      sv_pairing = Some \<lparr>secret = [7], expires_at = 2000000, used = False, attempts = 0\<rparr>,
      sv_replay = sample_rc, sv_ratelimit = Map.empty, sv_fs = Map.empty, sv_backend = b\<rparr>"

definition sample_transport :: "(string, unit, 's) handlers \<Rightarrow> (string, unit, 's) transport" where
  "sample_transport H =
     \<lparr>tr_handlers = H, tr_crypto = toy_crypto, tr_al_codec = sample_codec [''aa'', ''bb''],
      tr_rc_codec = sample_codec [], tr_from_str = (\<lambda>_. None), tr_uuid_ok = (\<lambda>_. True)\<rparr>"

definition sample_rq :: req_env where
  "sample_rq = \<lparr>rq_now = 1001000, rq_io_replay = io_fine, rq_io_allowlist = io_fine, rq_io_watch = io_fine\<rparr>"

definition pair_env :: request_envelope where
  "pair_env = sample_env ''pair'' (JObject [(''proof'', JString (char_of (7 :: nat) # ''bb''))])"

lemma sample_server_ok: "server_ok (sample_server b)"
  by (simp add: server_ok_def sample_server_def sample_al_def sample_ws_def sample_rc_def al_ok_def ws_ok_def
      rc_ok_def rl_ok_def pm_ok_def bts_ok_def btm_ok_def)

lemma sample_in_dir: "in_dir ''/data'' (sample_server b)"
  by (simp add: in_dir_def sample_server_def sample_al_def sample_ws_def sample_rc_def)

lemma sample_proof:
  "verify_at toy_crypto 1001000 ''bb'' (pair_proof pair_env)
     (Some \<lparr>secret = [7], expires_at = 2000000, used = False, attempts = 0\<rparr>) =
   (True, Some \<lparr>secret = [7], expires_at = 2000000, used = True, attempts = 0\<rparr>)"
  by (simp add: verify_at_def toy_crypto_def pair_proof_def pair_env_def sample_env_def field_def
      MAX_ATTEMPTS_def as_bytes_def)

lemma fresh_sender_allowed: "rl k = None \<Longrightarrow> fst (allow k now rl)"
  using bucket_step_level [OF new_bucket_ok, of now now]
  by (simp add: allow_step bucket_for_def refilled_def new_bucket_def level_def BURST_def)

theorem strangers_get_nothing_witness:
  "sv_allowlist (snd (route (sample_transport sample_handlers) sample_rq ''evil'' (sample_env ''get_balance'' JNull)
     (sample_server 100))) = sample_al"
proof -
  have s: "\<not> is_paired (sv_allowlist (sample_server 100)) ''evil''" "msg_type (sample_env ''get_balance'' JNull) \<noteq> ''pair''"
    by (simp_all add: sample_server_def is_paired_def sample_al_def sample_env_def)
  obtain out st' where r: "route (sample_transport sample_handlers) sample_rq ''evil'' (sample_env ''get_balance'' JNull)
      (sample_server 100) = (out, st')"
    by fastforce
  from strangers_get_nothing [OF sample_server_ok s r] r show ?thesis by (simp add: sample_server_def)
qed

lemma sample_pairing:
  "is_paired (sv_allowlist (snd (route (sample_transport sample_handlers) sample_rq ''bb'' pair_env (sample_server 100)))) ''bb''"
proof -
  let ?T = "sample_transport sample_handlers" and ?st = "sample_server 100 :: usize server"
  obtain out st' where r: "route ?T sample_rq ''bb'' pair_env ?st = (out, st')" by fastforce
  have "is_paired (sv_allowlist st') ''bb''"
    using sample_server_ok r
  proof (cases rule: route_cases)
    case replayed
    then show ?thesis by (simp add: live_entry_def sample_server_def sample_rc_def pair_env_def sample_env_def)
  next
    case limited
    then show ?thesis using fresh_sender_allowed [of "sv_ratelimit ?st"] by (simp add: sample_server_def)
  next
    case (dispatched st1)
    have f: "sv_allowlist st1 = sample_al" "sv_pairing st1 = sv_pairing ?st"
      using dispatched(4) by (simp_all add: only_accounting_def sample_server_def)
    obtain x al d where a: "al_add (sample_codec [''aa'', ''bb'']) io_fine ''bb'' sample_al (sv_fs st1) = (x, al, d)"
      by (metis prod_cases3)
    have ok: "al_ok sample_al" "\<not> is_paired sample_al ''bb''" by (simp_all add: al_ok_def sample_al_def bts_ok_def is_paired_def)
    have "sv_allowlist (snd (handle_pair ?T sample_rq ''bb'' pair_env st1)) = al"
      using a ok(2) sample_proof
      by (cases x) (simp_all add: handle_pair_def f sample_transport_def sample_rq_def sample_server_def)
    moreover have "msg_type pair_env = ''pair''" by (simp add: pair_env_def sample_env_def)
    ultimately have "sv_allowlist st' = al"
      using dispatched(6) by (auto simp: dispatch_def split: prod.splits)
    then show ?thesis using al_add_effect [OF ok(1) a] by simp
  qed
  then show ?thesis by (simp add: r)
qed

theorem membership_only_by_pair_and_unpair_witness:
  "\<exists>s. sv_pairing (snd (route (sample_transport sample_handlers) sample_rq ''bb'' pair_env (sample_server 100)))
     = Some (s\<lparr>used := True\<rparr>) \<and> secret s = [7]"
proof -
  let ?T = "sample_transport sample_handlers" and ?st = "sample_server 100 :: usize server"
  obtain out st' where r: "route ?T sample_rq ''bb'' pair_env ?st = (out, st')" by fastforce
  have "is_paired (sv_allowlist st') ''bb''" using sample_pairing by (simp add: r)
  moreover have "\<not> is_paired (sv_allowlist ?st) ''bb''" by (simp add: sample_server_def is_paired_def sample_al_def)
  ultimately obtain s where s: "sv_pairing ?st = Some s" "sv_pairing st' = Some (s\<lparr>used := True\<rparr>)"
    using membership_only_by_pair_and_unpair [OF sample_server_ok r, of "''bb''"] by auto
  then have "secret s = [7]" by (auto simp: sample_server_def)
  with s r show ?thesis by auto
qed

theorem route_answers_once_witness:
  "\<exists>r. fst (route (sample_transport (handlers_new sample_lib id_order (sample_codec []) (electrs_backend clock_runtime silent_client) Bitcoin))
     sample_rq ''aa'' (sample_env ''ping'' JNull) (sample_server (electrs_new ''h:1'', 7))) = Ret (Some r) \<and> resp_id r = ''nope''"
proof -
  let ?T = "sample_transport (handlers_new sample_lib id_order (sample_codec []) (electrs_backend clock_runtime silent_client) Bitcoin)"
  have h: "tr_handlers ?T = handlers_new sample_lib id_order (sample_codec []) (electrs_backend clock_runtime silent_client) Bitcoin"
    by (simp add: sample_transport_def)
  obtain out st' where r: "route ?T sample_rq ''aa'' (sample_env ''ping'' JNull) (sample_server (electrs_new ''h:1'', 7)) = (out, st')"
    by fastforce
  from route_answers_once [OF sample_server_ok id_order_ok h r] r show ?thesis
    by (auto simp: sample_server_def sample_rc_def sample_env_def)
qed

theorem other_wallets_untouched_witness:
  "is_paired (sv_allowlist (snd (route (sample_transport sample_handlers) sample_rq ''bb'' pair_env (sample_server 100)))) ''aa''"
proof -
  have w: "''aa'' \<noteq> ''bb''" by simp
  obtain out st' where r: "route (sample_transport sample_handlers) sample_rq ''bb'' pair_env (sample_server 100) = (out, st')"
    by fastforce
  from other_wallets_untouched [OF sample_server_ok r w] r show ?thesis
    by (simp add: sample_server_def is_paired_def sample_al_def)
qed

theorem acknowledged_membership_durable_witness:
  "\<exists>st'. dispatch (sample_transport sample_handlers) sample_rq ''bb'' pair_env (sample_server 100) =
       (Ret (response_ok ''nope'' (JObject [(''server'', JString SERVER_VERSION)])), st') \<and>
     al_load (sample_codec [''aa'', ''bb'']) io_fine ''/data'' (sv_fs st') = Inr (sv_allowlist st')"
proof -
  let ?T = "sample_transport sample_handlers" and ?st = "sample_server 100 :: usize server"
  have c: "typed_codec bts_ok (tr_al_codec ?T)"
    unfolding sample_transport_def by (simp, rule sample_codec_typed) (simp add: bts_ok_def)
  have r: "io_read io_fine" and m: "msg_type pair_env \<in> {''pair'', ''unpair''}"
    by (simp_all add: io_fine_def pair_env_def sample_env_def)
  obtain al d where "al_add (sample_codec [''aa'', ''bb'']) io_fine ''bb'' sample_al Map.empty = (Inr (), al, d)"
    by (simp add: al_add_def write_json_atomic_def write_json_calls_def io_fine_def sample_codec_def
        sample_al_def Let_def insort_insert_key_def)
  then obtain st' where "handle_pair ?T sample_rq ''bb'' pair_env ?st =
      (response_ok (env_id pair_env) (JObject [(''server'', JString SERVER_VERSION)]), st')"
    using sample_proof
    by (simp add: handle_pair_def sample_transport_def sample_rq_def sample_server_def)
      (simp add: is_paired_def sample_al_def)
  moreover have "msg_type pair_env = ''pair''" "env_id pair_env = ''nope''" by (simp_all add: pair_env_def sample_env_def)
  ultimately have d: "dispatch ?T sample_rq ''bb'' pair_env ?st =
      (Ret (response_ok ''nope'' (JObject [(''server'', JString SERVER_VERSION)])), st')"
    by (simp add: dispatch_def)
  from acknowledged_membership_durable [OF sample_server_ok sample_in_dir c r m d] d show ?thesis
    by (auto simp: sample_transport_def)
qed

end
