(* ===== verification/WatcherProps.thy ===== *)
theory WatcherProps
  imports Watcher HandlerProps
begin

text \<open>
  What the watcher of \<open>server/src/watcher.rs\<close> guarantees: what one tick of a wallet observes and
  notifies, that failures and restarts repeat and lose nothing, whom notifications go to, and that over
  a run of observations every new transaction and every confirmation is notified exactly once.
\<close>

section \<open>Differences between observations\<close>

definition iter_ok :: "((string \<times> u64) list \<Rightarrow> (string \<times> u64) list) \<Rightarrow> bool" where
  "iter_ok iter \<longleftrightarrow> (\<forall>m. mset (iter m) = mset m)"

lemma hm_count:
  "hm_ok m \<Longrightarrow> length (filter (\<lambda>p. fst p = t \<and> R p) m) =
     (case map_of m t of None \<Rightarrow> 0 | Some h \<Rightarrow> if R (t, h) then 1 else 0)"
proof (induction m)
  case Nil
  then show ?case by simp
next
  case (Cons p m)
  have "hm_ok m" using Cons.prems by (simp add: hm_ok_def)
  moreover have "fst p = t \<Longrightarrow> map_of m t = None"
    using Cons.prems by (auto simp: hm_ok_def map_of_eq_None_iff)
  ultimately show ?case using Cons.IH by (cases p) auto
qed

lemma iter_count: "iter_ok iter \<Longrightarrow> length (filter P (iter m)) = length (filter P m)"
  by (metis iter_ok_def mset_filter size_mset)

text \<open>The news about one transaction in a difference: whether it is reported as confirmed or not.\<close>

definition news_count :: "string \<Rightarrow> bool \<Rightarrow> (string \<times> u64) list \<Rightarrow> nat" where
  "news_count t conf ns = length (filter (\<lambda>p. fst p = t \<and> (0 < snd p) = conf) ns)"

lemma news_count_diff:
  assumes "iter_ok iter" "hm_ok cur"
  shows "news_count t conf (diff iter (Some k) cur) =
    (case map_of cur t of None \<Rightarrow> 0 | Some h \<Rightarrow> if (0 < h) = conf \<and> is_news k (t, h) then 1 else 0)"
proof -
  have "news_count t conf (diff iter (Some k) cur) =
      length (filter (\<lambda>p. fst p = t \<and> (0 < snd p) = conf \<and> is_news k p) (iter cur))"
    by (simp add: news_count_def diff_def conj_commute conj_left_commute)
  also have "\<dots> = length (filter (\<lambda>p. fst p = t \<and> (0 < snd p) = conf \<and> is_news k p) cur)"
    by (rule iter_count [OF assms(1)])
  also have "\<dots> = (case map_of cur t of None \<Rightarrow> 0 | Some h \<Rightarrow> if (0 < h) = conf \<and> is_news k (t, h) then 1 else 0)"
    using hm_count [OF assms(2), of t "\<lambda>p. (0 < snd p) = conf \<and> is_news k p"] by (simp cong: option.case_cong)
  finally show ?thesis .
qed

section \<open>Scanning without chunks\<close>

text \<open>What the loop over the chunks computes: one pass over all addresses and their histories.\<close>

definition scan_all :: "('a, 't) chain_lib \<Rightarrow> (string \<times> history_res list) list \<Rightarrow> scan \<Rightarrow> scan" where
  "scan_all L pairs ct = foldl (\<lambda>ct p. foldl (scan_entry L (fst p)) ct (snd p)) ct pairs"

lemma scan_all_append: "scan_all L (xs @ ys) ct = scan_all L ys (scan_all L xs ct)"
  by (simp add: scan_all_def)

lemma scan_chunk_all:
  "k + length hists \<le> length addr_of \<Longrightarrow>
     scan_chunk L addr_of k hists ct = Ret (scan_all L (zip (drop k addr_of) hists) ct)"
proof (induction hists arbitrary: k ct)
  case Nil
  then show ?case by (simp add: scan_all_def)
next
  case (Cons hist hists)
  then have "drop k addr_of = addr_of ! k # drop (Suc k) addr_of"
    by (simp add: Cons_nth_drop_Suc)
  with Cons show ?case by (simp add: scan_all_def)
qed

text \<open>The answers of the backend to the chunks, in order.\<close>

fun ask_all :: "'s backend \<Rightarrow> script list list \<Rightarrow> 's \<Rightarrow> (backend_error + history_res list list) \<times> 's" where
  "ask_all B [] s = (Inr [], s)"
| "ask_all B (c # cs) s =
     (case be_histories B c s of
        (Inl e, s') \<Rightarrow> (Inl e, s')
      | (Inr hists, s') \<Rightarrow>
          (case ask_all B cs s' of
             (Inl e, s'') \<Rightarrow> (Inl e, s'')
           | (Inr rest, s'') \<Rightarrow> (Inr (hists @ rest), s'')))"

definition batch_exact :: "'s backend \<Rightarrow> bool" where
  "batch_exact B \<longleftrightarrow> (\<forall>c s hists s'. be_histories B c s = (Inr hists, s') \<longrightarrow> length hists = length c)"

lemma ask_all_length: "batch_exact B \<Longrightarrow> ask_all B cs s = (Inr hists, s') \<Longrightarrow> length hists = length (concat cs)"
proof (induction cs arbitrary: s hists)
  case Nil
  then show ?case by simp
next
  case (Cons c cs)
  then show ?case by (force simp: batch_exact_def split: prod.splits sum.splits)
qed

lemma zip_take_length: "zip (take (length ys) xs) ys = zip xs ys"
proof (induction ys arbitrary: xs)
  case Nil
  then show ?case by simp
next
  case (Cons y ys)
  then show ?case by (cases xs) simp_all
qed

lemma scan_chunks_all:
  assumes "batch_exact (w_electrs W)" "length addr_of = i * BATCH + length scripts"
  shows "scan_chunks W addr_of i (chunks BATCH scripts) ct s =
    (case ask_all (w_electrs W) (chunks BATCH scripts) s of
       (Inl e, s') \<Rightarrow> (Ret (Inl e), s')
     | (Inr hists, s') \<Rightarrow> (Ret (Inr (scan_all (w_lib W) (zip (drop (i * BATCH) addr_of) hists) ct)), s'))"
  using assms(2)
proof (induction BATCH scripts arbitrary: i ct s rule: chunks.induct)
  case (1 xs)
  show ?case
  proof (cases "xs = []")
    case True
    then show ?thesis by (simp add: chunks.simps scan_all_def)
  next
    case False
    have B: "BATCH \<noteq> 0" by (simp add: BATCH_def)
    let ?c = "take BATCH xs" and ?cs = "chunks BATCH (drop BATCH xs)"
    have cs: "chunks BATCH xs = ?c # ?cs" using False B by (subst chunks.simps) simp
    obtain r s1 where q: "be_histories (w_electrs W) ?c s = (r, s1)" by fastforce
    show ?thesis
    proof (cases r)
      case (Inl e)
      then show ?thesis using q by (simp add: cs)
    next
      case (Inr hists)
      then have l: "length hists = length ?c" using assms(1) q unfolding batch_exact_def by blast
      then have "i * BATCH + length hists \<le> length addr_of" using "1.prems" by simp
      then have sc: "scan_chunk (w_lib W) addr_of (i * BATCH) hists ct =
          Ret (scan_all (w_lib W) (zip (drop (i * BATCH) addr_of) hists) ct)"
        by (rule scan_chunk_all)
      show ?thesis
      proof (cases "BATCH \<le> length xs")
        case True
        then have "length addr_of = Suc i * BATCH + length (drop BATCH xs)" using "1.prems" by simp
        moreover have "length hists = BATCH" using l True by simp
        then have "zip (drop (i * BATCH) addr_of) (hists @ rest) =
            zip (drop (i * BATCH) addr_of) hists @ zip (drop (Suc i * BATCH) addr_of) rest" for rest :: "history_res list list"
          using zip_take_length [of hists] by (simp add: zip_append2 add.commute)
        ultimately show ?thesis
          using "1.hyps" [of "Suc i" "scan_all (w_lib W) (zip (drop (i * BATCH) addr_of) hists) ct" s1] False B q Inr sc
          by (simp add: cs scan_all_append split: prod.splits sum.splits)
      next
        case False
        then have "?cs = []" by (simp add: chunks.simps)
        then show ?thesis using q Inr sc by (simp add: cs)
      qed
    qed
  qed
qed

section \<open>What a scan observes\<close>

text \<open>Every entry of every history: its transaction, its height, and the address it was found under.\<close>

definition sightings :: "('a, 't) chain_lib \<Rightarrow> (string \<times> history_res list) list \<Rightarrow> (string \<times> u64 \<times> string) list" where
  "sightings L pairs =
     concat (map (\<lambda>(addr, hist). map (\<lambda>h. (hash_str L (his_tx_hash h), i32_max0 (his_height h), addr)) hist) pairs)"

definition sight :: "scan \<Rightarrow> string \<times> u64 \<times> string \<Rightarrow> scan" where
  "sight ct x = (hm_max (fst x) (fst (snd x)) (fst ct), hm_push (fst x) (snd (snd x)) (snd ct))"

lemma scan_all_sightings: "scan_all L pairs ct = foldl sight ct (sightings L pairs)"
proof (induction pairs arbitrary: ct)
  case Nil
  then show ?case by (simp add: scan_all_def sightings_def)
next
  case (Cons p pairs)
  have "foldl (scan_entry L a) ct hist =
      foldl sight ct (map (\<lambda>h. (hash_str L (his_tx_hash h), i32_max0 (his_height h), a)) hist)" for a hist ct
    by (induction hist arbitrary: ct) (simp_all add: scan_entry_def sight_def Let_def)
  then show ?case
    using Cons.IH by (simp add: scan_all_def sightings_def case_prod_beta)
qed

definition addresses_of :: "string \<Rightarrow> (string \<times> u64 \<times> string) list \<Rightarrow> string list" where
  "addresses_of t xs = map (snd \<circ> snd) (filter (\<lambda>x. fst x = t) xs)"

lemma foldl_sight:
  "fst (foldl sight ([], []) xs) = hm_maxes (map (\<lambda>x. (fst x, fst (snd x))) xs)"
  "map_of (snd (foldl sight ([], []) xs)) t = (if addresses_of t xs = [] then None else Some (addresses_of t xs))"
proof (induction xs rule: rev_induct)
  case Nil
  { case 1 show ?case by simp }
  { case 2 show ?case by (simp add: addresses_of_def) }
next
  case (snoc x xs)
  { case 1 show ?case using snoc by (simp add: sight_def) }
  { case 2 show ?case using snoc by (auto simp: sight_def addresses_of_def) }
qed

lemma addresses_of_empty: "addresses_of t xs = [] \<longleftrightarrow> t \<notin> fst ` set xs"
  by (induction xs) (auto simp: addresses_of_def)

lemma chunks_ok: "concat (chunks BATCH xs) = xs \<and> (\<forall>c \<in> set (chunks BATCH xs). 1 \<le> length c \<and> length c \<le> 200)"
proof (induction BATCH xs rule: chunks.induct)
  case (1 xs)
  show ?case
  proof (cases "xs = []")
    case True
    then show ?thesis by (simp add: chunks.simps)
  next
    case False
    have B: "BATCH = 200" by (simp add: BATCH_def)
    have cs: "chunks BATCH xs = take BATCH xs # chunks BATCH (drop BATCH xs)"
      using False B by (subst chunks.simps) simp
    show ?thesis
      using 1 False unfolding cs by (auto simp: B Suc_le_eq)
  qed
qed

text \<open>The effect of a tick on one wallet.\<close>

lemma tick_wallet_out:
  assumes "tick_wallet W te w addrs (state, d, s) = ((r, out), (state', d', s'))"
  shows "(\<forall>n \<in> set out. w_from_hex W w = Some (nt_wallet n) \<and> map_of state w \<noteq> None) \<and>
    (\<forall>v. v \<noteq> w \<longrightarrow> map_of state' v = map_of state v) \<and>
    (r \<noteq> Ret (Inr ()) \<longrightarrow> out = [] \<and> state' = state \<and> d' = d)"
proof -
  have send: "\<forall>n \<in> set (send_deltas W w f touched (diff it known cur)). w_from_hex W w = Some (nt_wallet n) \<and> known \<noteq> None"
    for f touched it known cur
    by (cases known)
      (auto simp: send_deltas_def diff_def map_filter_def notify_def split: option.splits)
  show ?thesis
    using assms send
    by (auto simp: tick_wallet_def Let_def split: if_splits prod.splits run.splits sum.splits)
qed

lemma tick_wallets_out:
  assumes "tick_wallets W te snap (state, d, s) = ((r, out), (state', d', s'))" "distinct (map fst snap)"
  shows "(\<forall>n \<in> set out. \<exists>w \<in> fst ` set snap. te_paired te w \<and> w_from_hex W w = Some (nt_wallet n) \<and> map_of state w \<noteq> None) \<and>
    (\<forall>v. v \<notin> fst ` set snap \<longrightarrow> map_of state' v = map_of state v)"
  using assms
proof (induction snap arbitrary: state d s r out)
  case Nil
  then show ?case by simp
next
  case (Cons p snap)
  obtain w addrs where p: "p = (w, addrs)" by (cases p)
  show ?case
  proof (cases "te_paired te w")
    case False
    then have "tick_wallets W te snap (state, d, s) = ((r, out), (state', d', s'))" using Cons.prems(1) by (simp add: p)
    with Cons.IH [OF this] Cons.prems(2) show ?thesis by (auto simp: p)
  next
    case True
    obtain r1 o1 state1 d1 s1 where t: "tick_wallet W te w addrs (state, d, s) = ((r1, o1), (state1, d1, s1))"
      by (metis surj_pair)
    note one = tick_wallet_out [OF t]
    show ?thesis
    proof (cases r1)
      case Panic
      then show ?thesis using Cons.prems True t one by (auto simp: p)
    next
      case (Ret x)
      obtain r2 o2 where rest: "tick_wallets W te snap (state1, d1, s1) = ((r2, o2), (state', d', s'))"
        and out: "out = o1 @ o2"
        using Cons.prems(1) True t Ret by (auto simp: p split: prod.splits)
      have dist: "distinct (map fst snap)" "w \<notin> fst ` set snap" using Cons.prems(2) by (auto simp: p)
      note more = Cons.IH [OF rest dist(1)]
      have same: "map_of state1 v = map_of state v" if "v \<in> fst ` set snap" for v
        using one that dist(2) by auto
      have o1: "\<forall>n \<in> set o1. \<exists>v \<in> fst ` set (p # snap). te_paired te v \<and> w_from_hex W v = Some (nt_wallet n) \<and> map_of state v \<noteq> None"
        using one True by (auto simp: p)
      have o2: "\<forall>n \<in> set o2. \<exists>v \<in> fst ` set (p # snap). te_paired te v \<and> w_from_hex W v = Some (nt_wallet n) \<and> map_of state v \<noteq> None"
      proof
        fix n assume "n \<in> set o2"
        with more obtain v where "v \<in> fst ` set snap" "te_paired te v" "w_from_hex W v = Some (nt_wallet n)" "map_of state1 v \<noteq> None"
          by blast
        with same show "\<exists>v \<in> fst ` set (p # snap). te_paired te v \<and> w_from_hex W v = Some (nt_wallet n) \<and> map_of state v \<noteq> None"
          by (metis image_insert insertI2 list.simps(15))
      qed
      show ?thesis using o1 o2 more one out by (auto simp: p)
    qed
  qed
qed

section \<open>What is sent\<close>

lemma watched_parses:
  "map fst (watched W addrs) = filter (\<lambda>a. parse_address (w_lib W) (w_network W) a \<noteq> None) addrs"
  "map snd (watched W addrs) =
     map (the \<circ> parse_address (w_lib W) (w_network W)) (filter (\<lambda>a. parse_address (w_lib W) (w_network W) a \<noteq> None) addrs)"
  by (induction addrs) (auto simp: watched_def List.map_filter_simps split: option.splits)

text \<open>The notifications to a wallet whose key parses, and what can be read off them.\<close>

definition sent_to ::
    "string \<Rightarrow> (nat \<Rightarrow> string \<times> u64) \<Rightarrow> (string \<Rightarrow> string list) \<Rightarrow> (string \<times> u64) list \<Rightarrow> notification list" where
  "sent_to pk fresh addrs deltas =
     map (\<lambda>(k, t, h). \<lparr>nt_wallet = pk, nt_txid = t, nt_addresses = addrs t, nt_height = h,
                          nt_id = fst (fresh k), nt_ts = snd (fresh k)\<rparr>) (enumerate 0 deltas)"

lemma send_deltas_known:
  assumes "w_from_hex W wallet = Some pk"
  shows "send_deltas W wallet fresh touched deltas =
    sent_to pk fresh (\<lambda>t. case map_of touched t of None \<Rightarrow> [] | Some as \<Rightarrow> as) deltas"
  by (auto simp: send_deltas_def sent_to_def notify_def assms map_filter_def split_beta comp_def filter_id_conv intro!: map_cong)

lemma map_enumerate: "map (\<lambda>x. f (snd x)) (enumerate n xs) = map f xs"
  by (metis list.map_comp map_snd_enumerate comp_def map_cong)

lemma sent_txids: "map nt_txid (sent_to pk fresh addrs deltas) = map fst deltas"
  using map_enumerate [of fst 0 deltas] by (simp add: sent_to_def split_beta comp_def)

lemma sent_contents:
  "(\<lambda>n. (nt_txid n, nt_height n, nt_addresses n)) ` set (sent_to pk fresh addrs deltas) =
     (\<lambda>p. (fst p, snd p, addrs (fst p))) ` set deltas"
proof -
  have "map (\<lambda>n. (nt_txid n, nt_height n, nt_addresses n)) (sent_to pk fresh addrs deltas) =
      map (\<lambda>p. (fst p, snd p, addrs (fst p))) deltas"
    using map_enumerate [of "\<lambda>p. (fst p, snd p, addrs (fst p))" 0 deltas] by (simp add: sent_to_def split_beta comp_def)
  from arg_cong [OF this, of set] show ?thesis by (simp only: set_map)
qed

lemma sent_nth:
  "k < length (sent_to pk fresh addrs deltas) \<Longrightarrow> nt_wallet (sent_to pk fresh addrs deltas ! k) = pk \<and>
     (nt_id (sent_to pk fresh addrs deltas ! k), nt_ts (sent_to pk fresh addrs deltas ! k)) = fresh k"
  by (simp add: sent_to_def nth_enumerate_eq split_beta)

lemma news_image:
  "(\<lambda>p. (fst p, snd p, g (fst p))) ` {(t, h). (if t \<in> T then Some (H t) else None) = Some h \<and> (K t = None \<or> K t = Some 0 \<and> 0 < h)} =
     (\<lambda>t. (t, H t, g t)) ` {t \<in> T. K t = None \<or> K t = Some (0 :: u64) \<and> 0 < H t}"
  by (auto simp: image_iff split: if_splits)

text \<open>The differences as a set, and that none comes twice.\<close>

lemma diff_set:
  assumes "iter_ok iter" "hm_ok cur"
  shows "set (diff iter (Some known) cur) =
    {(t, h). map_of cur t = Some h \<and> (map_of known t = None \<or> map_of known t = Some 0 \<and> 0 < h)}"
proof -
  have "set (iter cur) = set cur" using assms(1) unfolding iter_ok_def by (blast dest: mset_eq_setD)
  then show ?thesis using hm_in_set [OF assms(2)] by (auto simp: diff_def is_news_def split: option.splits)
qed

lemma diff_distinct:
  assumes "iter_ok iter" "hm_ok cur"
  shows "distinct (map fst (diff iter known cur))"
proof -
  have "mset (map fst (iter cur)) = mset (map fst cur)" using assms(1) by (simp add: iter_ok_def)
  then have "distinct (map fst (iter cur))" using assms(2) unfolding hm_ok_def by (metis mset_eq_imp_distinct_iff)
  then show ?thesis by (cases known) (simp_all add: diff_def distinct_map_filter)
qed

text \<open>What the loop that sends puts out, for any tables of heights and of addresses.\<close>

lemma deltas_sent:
  assumes "iter_ok (w_iter W)" "hm_ok cur" "\<And>t. map_of cur t = (if t \<in> T then Some (H t) else None)"
    and "\<And>t. (case map_of touched t of None \<Rightarrow> [] | Some as \<Rightarrow> as) = A t"
  shows "case (kn, w_from_hex W wallet) of
      (Some known, Some pk) \<Rightarrow>
        distinct (map nt_txid (send_deltas W wallet fresh touched (diff (w_iter W) kn cur))) \<and>
        (\<lambda>n. (nt_txid n, nt_height n, nt_addresses n)) ` set (send_deltas W wallet fresh touched (diff (w_iter W) kn cur)) =
          (\<lambda>t. (t, H t, A t)) ` {t \<in> T. map_of known t = None \<or> map_of known t = Some 0 \<and> 0 < H t} \<and>
        (\<forall>k < length (send_deltas W wallet fresh touched (diff (w_iter W) kn cur)).
           nt_wallet (send_deltas W wallet fresh touched (diff (w_iter W) kn cur) ! k) = pk \<and>
           (nt_id (send_deltas W wallet fresh touched (diff (w_iter W) kn cur) ! k),
            nt_ts (send_deltas W wallet fresh touched (diff (w_iter W) kn cur) ! k)) = fresh k)
    | _ \<Rightarrow> send_deltas W wallet fresh touched (diff (w_iter W) kn cur) = []"
proof (cases kn)
  case None
  then show ?thesis by (simp add: diff_def send_deltas_def map_filter_def)
next
  case (Some known)
  show ?thesis
  proof (cases "w_from_hex W wallet")
    case None
    then show ?thesis by (auto simp: Some send_deltas_def notify_def map_filter_def)
  next
    case key: (Some pk)
    let ?deltas = "diff (w_iter W) (Some known) cur"
    have "distinct (map fst ?deltas)" using diff_distinct [OF assms(1,2)] by simp
    moreover have "(\<lambda>p. (fst p, snd p, A (fst p))) ` set ?deltas =
        (\<lambda>t. (t, H t, A t)) ` {t \<in> T. map_of known t = None \<or> map_of known t = Some 0 \<and> 0 < H t}"
      unfolding diff_set [OF assms(1,2)] assms(3) by (rule news_image)
    moreover have out: "send_deltas W wallet fresh touched ?deltas = sent_to pk fresh A ?deltas"
      unfolding send_deltas_known [OF key] assms(4) ..
    ultimately show ?thesis
      unfolding Some key option.case prod.case out sent_txids sent_contents
      by (intro conjI allI impI) (assumption | rule sent_nth [THEN conjunct1] sent_nth [THEN conjunct2])+
  qed
qed

section \<open>States up to the order of their tables\<close>

text \<open>
  A hash table read back from JSON may list its entries in another order; what counts is the value of
  every key.
\<close>

definition same_obs :: "observation \<Rightarrow> observation \<Rightarrow> bool" where
  "same_obs a b \<longleftrightarrow> map_of a = map_of b"

definition same_state :: "wallet_state \<Rightarrow> wallet_state \<Rightarrow> bool" where
  "same_state v w \<longleftrightarrow> (\<forall>k. rel_option same_obs (map_of v k) (map_of w k))"

definition state_codec_ok :: "wallet_state codec \<Rightarrow> bool" where
  "state_codec_ok c \<longleftrightarrow> (\<forall>v s. enc c v = Some s \<longrightarrow> (\<exists>v'. dec c s = Some v' \<and> same_state v' v))"

lemma state_path_proper: "proper_target (dir, STATE_FILE)"
  by (simp add: proper_target_def with_extension_def STATE_FILE_def file_stem_def)

lemma diff_same:
  assumes "iter_ok iter" "same_obs known cur" "hm_ok cur"
  shows "diff iter (Some known) cur = []"
proof -
  have "p \<notin> set (filter (is_news known) (iter cur))" for p
  proof
    assume p: "p \<in> set (filter (is_news known) (iter cur))"
    have "set (iter cur) = set cur" using assms(1) unfolding iter_ok_def by (blast dest: mset_eq_setD)
    with p have "(fst p, snd p) \<in> set cur" by simp
    then have "map_of cur (fst p) = Some (snd p)" by (simp only: hm_in_set [OF assms(3)])
    moreover have "is_news known p" using p by simp
    ultimately show False using assms(2) by (cases "snd p = 0") (auto simp: same_obs_def is_news_def)
  qed
  then have "set (filter (is_news known) (iter cur)) = {}" by (rule equals0I [OF notE])
  then show ?thesis by (simp only: diff_def option.case set_empty)
qed

section \<open>Properties\<close>

text \<open>
  C23. What a tick of a wallet observes and says, with the chunking out of sight: the node is asked about at
  most 200 scripts at a time, the script of every watched address that parses exactly once and in order; and when it
  answers every chunk with one history per script, the tick succeeds without a panic, the stored
  observation holds exactly the transactions in those histories, each at the largest height reported for
  it, and is written to disk. If the wallet was not observed before or its key does not parse, nothing is sent;
  otherwise one notification goes to it for exactly each transaction that was not known or has got its first
  confirmation, with that height and with the addresses whose histories contain it, in order.
\<close>

theorem tick_wallet_correct:
  fixes W :: "('a, 't, 's) watcher"
  assumes "batch_exact (w_electrs W)" "iter_ok (w_iter W)" "addrs \<noteq> []"
    and "ask_all (w_electrs W) (chunks BATCH (map snd (watched W addrs))) s = (Inr hists, s1)"
    and "tick_wallet W te wallet addrs (state, d, s) = ((r, out), (state', d', s'))"
  shows "let asked = filter (\<lambda>a. parse_address (w_lib W) (w_network W) a \<noteq> None) addrs;
      seen = sightings (w_lib W) (zip asked hists); txs = fst ` set seen;
      height = (\<lambda>t. Max {h. \<exists>a. (t, h, a) \<in> set seen})
    in concat (chunks BATCH (map snd (watched W addrs))) = map (the \<circ> parse_address (w_lib W) (w_network W)) asked \<and>
      (\<forall>c \<in> set (chunks BATCH (map snd (watched W addrs))). length c \<in> {1..200}) \<and>
      r = Ret (Inr ()) \<and> s' = s1 \<and>
      (\<exists>current. state' = hm_insert wallet current state \<and> hm_ok current \<and>
         (\<forall>t. map_of current t = (if t \<in> txs then Some (height t) else None))) \<and>
      d' = snd (persist_best_effort (w_codec W) (te_io te wallet) (w_state_path W) state' d) \<and>
      (case (map_of state wallet, w_from_hex W wallet) of
         (Some known, Some pk) \<Rightarrow>
           distinct (map nt_txid out) \<and>
           (\<lambda>n. (nt_txid n, nt_height n, nt_addresses n)) ` set out =
             (\<lambda>t. (t, height t, addresses_of t seen)) `
               {t \<in> txs. map_of known t = None \<or> map_of known t = Some 0 \<and> 0 < height t} \<and>
           (\<forall>k < length out. nt_wallet (out ! k) = pk \<and> (nt_id (out ! k), nt_ts (out ! k)) = te_fresh te wallet k)
       | _ \<Rightarrow> out = [])"
proof -
  let ?asked = "filter (\<lambda>a. parse_address (w_lib W) (w_network W) a \<noteq> None) addrs"
  let ?seen = "sightings (w_lib W) (zip ?asked hists)"
  let ?height = "\<lambda>t. Max {h. \<exists>a. (t, h, a) \<in> set ?seen}"
  let ?ct = "foldl sight ([], []) ?seen"
  let ?deltas = "diff (w_iter W) (map_of state wallet) (fst ?ct)"
  have sc: "scan_chunks W (map fst (watched W addrs)) 0 (chunks BATCH (map snd (watched W addrs))) ([], []) s = (Ret (Inr ?ct), s1)"
    using scan_chunks_all [OF assms(1), of "map fst (watched W addrs)" 0 "map snd (watched W addrs)" "([], [])" s] assms(4)
    by (simp add: scan_all_sightings watched_parses)
  have tick: "r = Ret (Inr ())" "s' = s1" "state' = hm_insert wallet (fst ?ct) state"
      "out = send_deltas W wallet (te_fresh te wallet) (snd ?ct) ?deltas" "d' = persist_state W (te_io te wallet) state' d"
    using assms(3,5) sc by (auto simp: tick_wallet_def Let_def split: prod.splits)
  have vals: "values_of t (map (\<lambda>x. (fst x, fst (snd x))) ?seen) = {h. \<exists>a. (t, h, a) \<in> set ?seen}" for t
    by (force simp: values_of_def)
  have cur: "map_of (fst ?ct) t = (if t \<in> fst ` set ?seen then Some (?height t) else None)" for t
    unfolding foldl_sight(1) map_of_hm_maxes vals by force
  have hm: "hm_ok (fst ?ct)" by (simp add: foldl_sight(1))
  have "(case map_of (snd ?ct) t of None \<Rightarrow> [] | Some as \<Rightarrow> as) = addresses_of t ?seen" for t
    by (simp add: foldl_sight(2))
  note news = deltas_sent [where kn = "map_of state wallet" and wallet = wallet and fresh = "te_fresh te wallet",
      OF assms(2) hm cur this, folded tick(4)]
  have ch: "concat (chunks BATCH (map snd (watched W addrs))) = map (the \<circ> parse_address (w_lib W) (w_network W)) ?asked"
      "\<forall>c \<in> set (chunks BATCH (map snd (watched W addrs))). length c \<in> {1..200}"
    using chunks_ok [of "map snd (watched W addrs)"] by (simp_all add: watched_parses)
  have state: "\<exists>current. state' = hm_insert wallet current state \<and> hm_ok current \<and>
      (\<forall>t. map_of current t = (if t \<in> fst ` set ?seen then Some (?height t) else None))"
    using tick(3) hm cur by blast
  show ?thesis unfolding Let_def using ch tick(1,2) state tick(5) [unfolded persist_state_def] news by blast
qed

definition sample_watcher :: "(string, unit, usize) watcher" where
  "sample_watcher =
     \<lparr>w_electrs = sample_backend, w_network = Bitcoin, w_lib = sample_lib, w_iter = id,
      w_codec = sample_codec [(''aa'', [(''a'', 90), (''c'', 0)])], w_state_path = (''/data'', STATE_FILE),
      w_from_hex = Some, w_interval = 60\<rparr>"

definition sample_te :: tick_env where
  "sample_te = \<lparr>te_paired = (\<lambda>w. True), te_fresh = (\<lambda>w k. (''id'', 7)), te_io = (\<lambda>w. io_fine), te_io_end = io_fine\<rparr>"

definition sample_hist :: "history_res list" where
  "sample_hist = [\<lparr>his_tx_hash = [97], his_height = 90\<rparr>, \<lparr>his_tx_hash = [99], his_height = - 1\<rparr>]"

lemma sample_watched: "map snd (watched sample_watcher [''bc1a'', ''tb1c'']) = [map of_char ''bc1a'']"
  "map fst (watched sample_watcher [''bc1a'', ''tb1c'']) = [''bc1a'']"
  by (simp_all add: watched_def sample_watcher_def sample_lib_def parse_address_def map_filter_simps)

lemma sample_chars: "char_of (97 :: nat) = CHR ''a''" "char_of (99 :: nat) = CHR ''c''"
proof -
  have "of_char (CHR ''a'') = (97 :: nat)" "of_char (CHR ''c'') = (99 :: nat)" by simp_all
  then show "char_of (97 :: nat) = CHR ''a''" "char_of (99 :: nat) = CHR ''c''" by (metis char_of_char)+
qed

lemma sample_ask: "ask_all (w_electrs sample_watcher) (chunks BATCH [map of_char ''bc1a'']) 100 = (Inr [sample_hist], 100)"
  by (simp add: sample_watcher_def sample_backend_def chunks.simps BATCH_def sample_hist_def)

lemma sample_batch_exact: "batch_exact (w_electrs sample_watcher)"
  by (auto simp: batch_exact_def sample_watcher_def sample_backend_def)

lemma sample_sightings: "sightings sample_lib (zip [''bc1a''] [sample_hist]) = [(''a'', 90, ''bc1a''), (''c'', 0, ''bc1a'')]"
  by (simp add: sightings_def sample_lib_def sample_hist_def i32_max0_def sample_chars)

theorem tick_wallet_correct_witness:
  "\<exists>out st'. tick_wallet sample_watcher sample_te ''aa'' [''bc1a'', ''tb1c''] ([(''aa'', [(''a'', 0)])], Map.empty, 100) =
       ((Ret (Inr ()), out), st') \<and>
     (\<lambda>n. (nt_txid n, nt_height n, nt_addresses n)) ` set out = {(''a'', 90, [''bc1a'']), (''c'', 0, [''bc1a''])}"
proof -
  let ?seen = "[(''a'', 90 :: u64, ''bc1a''), (''c'', 0, ''bc1a'')]"
  have n: "[''bc1a'', ''tb1c''] \<noteq> []" and i: "iter_ok (w_iter sample_watcher)" by (simp_all add: iter_ok_def sample_watcher_def)
  have a: "ask_all (w_electrs sample_watcher) (chunks BATCH (map snd (watched sample_watcher [''bc1a'', ''tb1c'']))) 100 = (Inr [sample_hist], 100)"
    unfolding sample_watched by (rule sample_ask)
  obtain r out state' d' s' where t: "tick_wallet sample_watcher sample_te ''aa'' [''bc1a'', ''tb1c''] ([(''aa'', [(''a'', 0)])], Map.empty, 100) =
      ((r, out), (state', d', s'))" by (metis surj_pair)
  have lib: "w_lib sample_watcher = sample_lib" "w_from_hex sample_watcher ''aa'' = Some ''aa''" by (simp_all add: sample_watcher_def)
  have asked: "filter (\<lambda>a. parse_address sample_lib (w_network sample_watcher) a \<noteq> None) [''bc1a'', ''tb1c''] = [''bc1a'']"
    using sample_watched(2) by (simp only: watched_parses lib)
  have mx: "{h. \<exists>a. (''a'', h, a) \<in> set ?seen} = {90}" "{h. \<exists>a. (''c'', h, a) \<in> set ?seen} = {0}" by auto
  have new: "{t \<in> fst ` set ?seen. map_of [(''a'', 0 :: u64)] t = None \<or>
      map_of [(''a'', 0)] t = Some 0 \<and> 0 < Max {h. \<exists>a. (t, h, a) \<in> set ?seen}} = {''a'', ''c''}"
    using mx by auto
  have known: "map_of [(''aa'', [(''a'', 0 :: u64)])] ''aa'' = Some [(''a'', 0)]" by simp
  note w = tick_wallet_correct [OF sample_batch_exact i n a t, unfolded Let_def lib asked sample_sightings known option.case prod.case new]
  have "r = Ret (Inr ())" using w by (rule conjunct1 [OF conjunct2 [OF conjunct2]])
  moreover have "(\<lambda>n. (nt_txid n, nt_height n, nt_addresses n)) ` set out =
      (\<lambda>t. (t, Max {h. \<exists>a. (t, h, a) \<in> set ?seen}, addresses_of t ?seen)) ` {''a'', ''c''}"
    using w [THEN conjunct2, THEN conjunct2, THEN conjunct2, THEN conjunct2, THEN conjunct2, THEN conjunct2] by (rule conjunct1 [OF conjunct2])
  ultimately show ?thesis using t mx by (auto simp: addresses_of_def)
qed

text \<open>
  A tick is safe whatever the node, the disk and the relays do: notifications go only to wallets
  that are in the snapshot of the watch sets, are paired when their turn comes, and had been observed
  before (the first observation of a wallet is silent); and a tick that ends leaves no state behind
  for a wallet that is not in the snapshot.
\<close>

theorem tick_notifies_paired_and_known:
  assumes "btm_ok snap" "tick W te snap (state, d, s) = ((r, out), (state', d', s'))"
  shows "(\<forall>n \<in> set out. \<exists>w \<in> fst ` set snap. te_paired te w \<and> w_from_hex W w = Some (nt_wallet n) \<and> map_of state w \<noteq> None) \<and>
    (r = Ret () \<longrightarrow> fst ` set state' \<subseteq> fst ` set snap)"
proof -
  obtain r1 o1 state1 d1 s1 where t: "tick_wallets W te snap (state, d, s) = ((r1, o1), (state1, d1, s1))"
    by (metis surj_pair)
  have "distinct (map fst snap)" using assms(1) by (simp add: btm_ok_def bts_ok_def)
  note facts = tick_wallets_out [OF t this]
  have "o1 = out" using assms(2) t by (auto simp: tick_def Let_def split: run.splits)
  moreover have "fst ` set state' \<subseteq> fst ` set snap" if "r = Ret ()"
    using assms(2) t that
    by (auto simp: tick_def Let_def map_of_eq_None_iff split: run.splits)
  ultimately show ?thesis using facts by blast
qed

theorem tick_notifies_paired_and_known_witness:
  "\<exists>out st'. tick sample_watcher sample_te [(''aa'', [''bc1a''])] ([(''zz'', [])], Map.empty, 100) = ((Ret (), out), st') \<and>
     out = [] \<and> fst ` set (fst st') \<subseteq> {''aa''}"
proof -
  let ?snap = "[(''aa'', [''bc1a''])]"
  have b: "btm_ok ?snap" by (simp add: btm_ok_def bts_ok_def)
  obtain r out state' d' s' where t: "tick sample_watcher sample_te ?snap ([(''zz'', [])], Map.empty, 100) = ((r, out), (state', d', s'))"
    by (metis surj_pair)
  have "r = Ret ()" using t by (auto simp: tick_def Let_def sample_te_def tick_wallet_def watched_def sample_watcher_def
      sample_lib_def parse_address_def map_filter_simps chunks.simps BATCH_def sample_backend_def split: prod.splits run.splits sum.splits)
  moreover have "out = []"
  proof (rule ccontr)
    assume "out \<noteq> []"
    then obtain n where "n \<in> set out" by (cases out) auto
    with tick_notifies_paired_and_known [OF b t] show False by fastforce
  qed
  ultimately show ?thesis using tick_notifies_paired_and_known [OF b t] t by fastforce
qed

text \<open>
  Failures lose nothing and restarts repeat nothing: a tick of a wallet that ends in an error or a
  panic sends no notification and changes neither the known transactions nor the file; and when a
  tick's write of the state reached the disk, a server restarted on that file finds no news in the
  observation it had made, whatever order its tables list it in.
\<close>

theorem restart_does_not_renotify:
  assumes "tick_wallet W te wallet addrs (state, d, s) = ((r, out), (state', d', s'))"
    and "w_state_path W = (dir, STATE_FILE)" "state_codec_ok (w_codec W)" "iter_ok iter" "io_read rio"
  shows "(r \<noteq> Ret (Inr ()) \<longrightarrow> out = [] \<and> state' = state \<and> d' = d) \<and>
    (fst (persist_best_effort (w_codec W) io (w_state_path W) state' d0) \<longrightarrow>
       (\<exists>state2. watcher_load (w_codec W) rio dir (persist_state W io state' d0) = Inr state2 \<and>
          (\<forall>known cur. map_of state' wallet = Some known \<longrightarrow> same_obs known cur \<longrightarrow> hm_ok cur \<longrightarrow>
             diff iter (map_of state2 wallet) cur = [])))"
proof -
  have "\<exists>state2. watcher_load (w_codec W) rio dir (persist_state W io state' d0) = Inr state2 \<and>
      (\<forall>known cur. map_of state' wallet = Some known \<longrightarrow> same_obs known cur \<longrightarrow> hm_ok cur \<longrightarrow>
         diff iter (map_of state2 wallet) cur = [])"
    if ok: "fst (persist_best_effort (w_codec W) io (w_state_path W) state' d0)"
  proof -
    obtain d1 where "persist_best_effort (w_codec W) io (dir, STATE_FILE) state' d0 = (True, d1)"
      using ok assms(2) by (metis prod.collapse)
    then obtain t m where t: "enc (w_codec W) state' = Some t" "d1 (dir, STATE_FILE) = Some \<lparr>content = t, mode = m\<rparr>"
        and d1: "persist_state W io state' d0 = d1"
      by (metis persist_ok state_path_proper persist_state_def assms(2) snd_conv)
    from t(1) assms(3) obtain state2 where s2: "dec (w_codec W) t = Some state2" "same_state state2 state'"
      unfolding state_codec_ok_def by blast
    have "watcher_load (w_codec W) rio dir d1 = Inr state2"
      using t(2) s2(1) assms(5) by (simp add: watcher_load_def load_json_def read_to_string_def)
    moreover have "diff iter (map_of state2 wallet) cur = []"
      if "map_of state' wallet = Some known" "same_obs known cur" "hm_ok cur" for known cur
    proof -
      from s2(2) that(1) obtain k2 where "map_of state2 wallet = Some k2" "same_obs k2 known"
        unfolding same_state_def by (metis option_rel_Some2)
      with that(2,3) show ?thesis using diff_same [OF assms(4)] by (simp add: same_obs_def)
    qed
    ultimately show ?thesis using d1 by blast
  qed
  then show ?thesis using tick_wallet_out [OF assms(1)] by blast
qed

theorem restart_does_not_renotify_witness:
  "\<exists>state2. watcher_load (w_codec sample_watcher) io_fine ''/data''
       (persist_state sample_watcher io_fine [(''aa'', [(''a'', 90), (''c'', 0)])] Map.empty) = Inr state2 \<and>
     diff id (map_of state2 ''aa'') [(''c'', 0), (''a'', 90)] = []"
proof -
  let ?state = "[(''aa'', [(''a'', 90 :: u64), (''c'', 0)])]" and ?cur = "[(''c'', 0 :: u64), (''a'', 90)]"
  have t: "tick_wallet sample_watcher sample_te ''aa'' [] (?state, Map.empty, 100) = ((Ret (Inr ()), []), (?state, Map.empty, 100))"
    by (simp add: tick_wallet_def)
  have p: "w_state_path sample_watcher = (''/data'', STATE_FILE)" by (simp add: sample_watcher_def)
  have "same_state ?state ?state" by (auto simp: same_state_def same_obs_def)
  then have c: "state_codec_ok (w_codec sample_watcher)"
    by (simp add: state_codec_ok_def sample_watcher_def sample_codec_def)
  have i: "iter_ok id" by (simp add: iter_ok_def)
  have r: "io_read io_fine" by (simp add: io_fine_def)
  have ok: "fst (persist_best_effort (w_codec sample_watcher) io_fine (w_state_path sample_watcher) ?state Map.empty)"
    by (simp add: persist_best_effort_def sample_watcher_def sample_codec_def io_fine_def Let_def)
  have k: "map_of ?state ''aa'' = Some [(''a'', 90), (''c'', 0)]" by simp
  have s: "same_obs [(''a'', 90), (''c'', 0)] ?cur" by (auto simp: same_obs_def fun_eq_iff)
  have h: "hm_ok ?cur" by (simp add: hm_ok_def)
  from restart_does_not_renotify [OF t p c i r, THEN conjunct2, rule_format, OF ok] k s h show ?thesis by blast
qed

end
