(* ===== verification/SystemProps.thy ===== *)
theory SystemProps
  imports System TransportProps WatcherProps HandlerProps
begin

text \<open>
  Lemmas on the whole server of \<open>server/src/main.rs\<close> under interleaving: what each step can change, that the
  steps of a request and of a watcher round make up \<open>route\<close> and \<open>tick\<close> when nothing comes between them, the
  invariant that every step keeps, and the files a step can touch.
\<close>

section \<open>The steps of a request\<close>

lemma job_step_cases [consumes 1, case_names replay limit lookup prove add remove handler unlist rest]:
  assumes "job_step T (j, st) = (j', st')"
  obtains rq w env b rc d where "j = Busy Received rq w env"
      "check_and_insert (tr_rc_codec T) (rq_io_replay rq) (env_id env) (rq_now rq) (sv_replay st) (sv_fs st) = (b, rc, d)"
      "j' = (if b then Busy Accepted rq w env else Idle)" "st' = st\<lparr>sv_replay := rc, sv_fs := d\<rparr>"
  | rq w env b rl where "j = Busy Accepted rq w env" "allow w (rq_now rq) (sv_ratelimit st) = (b, rl)"
      "j' = (if b then Busy Admitted rq w env else Replying w (response_err (env_id env) RateLimited ''slow down''))"
      "st' = st\<lparr>sv_ratelimit := rl\<rparr>"
  | rq w env where "j = Busy Admitted rq w env" "st' = st"
      "\<exists>r. j' = (if msg_type env = ''pair'' \<and> \<not> is_paired (sv_allowlist st) w then Busy Unproved rq w env
         else if msg_type env \<noteq> ''pair'' \<and> is_paired (sv_allowlist st) w then Busy Trusted rq w env else Replying w r)"
  | rq w env b pm where "j = Busy Unproved rq w env"
      "verify_at (tr_crypto T) (rq_now rq) w (pair_proof env) (sv_pairing st) = (b, pm)"
      "\<exists>r. j' = (if b then Busy Proved rq w env else Replying w r)" "st' = st\<lparr>sv_pairing := pm\<rparr>"
  | rq w env r al d where "j = Busy Proved rq w env"
      "al_add (tr_al_codec T) (rq_io_allowlist rq) w (sv_allowlist st) (sv_fs st) = (r, al, d)"
      "\<exists>r. j' = Replying w r" "st' = st\<lparr>sv_allowlist := al, sv_fs := d\<rparr>"
  | rq w env r al d where "j = Busy Trusted rq w env" "msg_type env = ''unpair''"
      "al_remove (tr_al_codec T) (rq_io_allowlist rq) w (sv_allowlist st) (sv_fs st) = (r, al, d)"
      "j' = Busy Unlisted rq w env \<or> (\<exists>r. j' = Replying w r)" "st' = st\<lparr>sv_allowlist := al, sv_fs := d\<rparr>"
  | rq w env r where "j = Busy Trusted rq w env" "run_handler T rq w env st = (r, st')"
      "j' = Dead \<or> (\<exists>r. j' = Replying w r)"
  | rq w env r ws d where "j = Busy Unlisted rq w env"
      "ws_remove_wallet (hd_codec (tr_handlers T)) (rq_io_watch rq) w (sv_watch st) (sv_fs st) = (r, ws, d)"
      "\<exists>r. j' = Replying w r" "st' = st\<lparr>sv_watch := ws, sv_fs := d\<rparr>"
  | "st' = st" "j' = j \<or> (\<exists>rq w env r. j = Busy Trusted rq w env \<and> j' = Replying w r)" "\<forall>ph rq w env. j = Busy ph rq w env \<longrightarrow> ph = Trusted"
proof (cases j)
  case (Busy ph rq w env)
  show thesis
  proof (cases ph)
    case Received
    obtain b rc d where "check_and_insert (tr_rc_codec T) (rq_io_replay rq) (env_id env) (rq_now rq) (sv_replay st) (sv_fs st) = (b, rc, d)"
      by (metis prod_cases3)
    then show ?thesis using that(1) [of rq w env b rc d] assms Busy Received by simp
  next
    case Accepted
    obtain b rl where "allow w (rq_now rq) (sv_ratelimit st) = (b, rl)" by fastforce
    then show ?thesis using that(2) [of rq w env b rl] assms Busy Accepted by simp
  next
    case Admitted
    then show ?thesis using that(3) [of rq w env] assms Busy by (auto split: if_splits)
  next
    case Unproved
    obtain b pm where "verify_at (tr_crypto T) (rq_now rq) w (pair_proof env) (sv_pairing st) = (b, pm)" by fastforce
    then show ?thesis using that(4) [of rq w env b pm] assms Busy Unproved by auto
  next
    case Proved
    obtain r al d where "al_add (tr_al_codec T) (rq_io_allowlist rq) w (sv_allowlist st) (sv_fs st) = (r, al, d)"
      by (metis prod_cases3)
    then show ?thesis using that(5) [of rq w env r al d] assms Busy Proved by auto
  next
    case Trusted
    consider "msg_type env = ''unpair''" | "msg_type env \<noteq> ''unpair''" "msg_type env \<in> set KNOWN_TYPES"
      | "msg_type env \<noteq> ''unpair''" "msg_type env \<notin> set KNOWN_TYPES" by blast
    then show ?thesis
    proof cases
      case 1
      obtain r al d where "al_remove (tr_al_codec T) (rq_io_allowlist rq) w (sv_allowlist st) (sv_fs st) = (r, al, d)"
        by (metis prod_cases3)
      then show ?thesis using that(6) [of rq w env r al d] assms Busy Trusted 1 by (auto split: sum.splits if_splits)
    next
      case 2
      obtain r st1 where "run_handler T rq w env st = (r, st1)" by fastforce
      then show ?thesis using that(7) [of rq w env r] assms Busy Trusted 2 by (auto split: run.splits)
    next
      case 3
      then show ?thesis using that(9) assms Busy Trusted by auto
    qed
  next
    case Unlisted
    obtain r ws d where "ws_remove_wallet (hd_codec (tr_handlers T)) (rq_io_watch rq) w (sv_watch st) (sv_fs st) = (r, ws, d)"
      by (metis prod_cases3)
    then show ?thesis using that(8) [of rq w env r ws d] assms Busy Unlisted by auto
  qed
qed (use that(9) assms in auto)

lemma job_step_ok:
  assumes "server_ok st" "in_dir dir st" "job_step T (j, st) = (j', st')"
  shows "server_ok st' \<and> in_dir dir st'"
  using assms(3)
proof (cases rule: job_step_cases)
  case (replay rq w env b rc d)
  then show ?thesis using assms(1,2) check_keeps_ok [OF _ replay(2)] by (simp add: server_ok_def in_dir_def)
next
  case (limit rq w env b rl)
  then show ?thesis using assms(1,2) allow_keeps_ok [OF _ limit(2)] by (simp add: server_ok_def in_dir_def)
next
  case (prove rq w env b pm)
  then show ?thesis
    using assms(1,2) verify_pm_ok [of "sv_pairing st" "tr_crypto T" "rq_now rq" w "pair_proof env"]
    by (simp add: server_ok_def in_dir_def)
next
  case (add rq w env r al d)
  then show ?thesis using assms(1,2) al_add_effect [OF _ add(2)] by (simp add: server_ok_def in_dir_def)
next
  case (remove rq w env r al d)
  then show ?thesis using assms(1,2) al_remove_effect [OF _ remove(3)] by (simp add: server_ok_def in_dir_def)
next
  case (handler rq w env r)
  then show ?thesis using assms(1,2) run_handler_local [OF assms(1) handler(2)] by (simp add: local_to_def)
next
  case (unlist rq w env r ws d)
  then show ?thesis using assms(1,2) ws_remove_memory [OF _ unlist(2)] by (simp add: server_ok_def in_dir_def)
qed (use assms(1,2) in simp_all)

section \<open>Steps that nothing interrupts\<close>

lemma dispatch_steps:
  "(job_step T ^^ 3) (Busy Admitted rq w env, st) =
     (case dispatch T rq w env st of (Panic, st') \<Rightarrow> (Dead, st') | (Ret r, st') \<Rightarrow> (Replying w r, st'))"
proof -
  have k: "''pair'' \<in> set KNOWN_TYPES" "''unpair'' \<in> set KNOWN_TYPES" by (simp_all add: KNOWN_TYPES_def)
  consider "msg_type env = ''pair''" | "msg_type env \<noteq> ''pair''" "\<not> is_paired (sv_allowlist st) w"
    | "msg_type env = ''unpair''" "is_paired (sv_allowlist st) w"
    | "msg_type env \<noteq> ''pair''" "msg_type env \<noteq> ''unpair''" "is_paired (sv_allowlist st) w" by blast
  then show ?thesis
  proof cases
    case 1
    then show ?thesis
      by (auto simp: numeral_3_eq_3 dispatch_def handle_pair_def split: prod.splits sum.splits bool.splits)
  next
    case 2
    then show ?thesis by (simp add: numeral_3_eq_3 dispatch_def)
  next
    case 3
    then show ?thesis
      by (auto simp: numeral_3_eq_3 dispatch_def handle_unpair_def split: prod.splits sum.splits bool.splits)
  next
    case 4
    then show ?thesis
      by (auto simp: numeral_3_eq_3 dispatch_def split: prod.splits run.splits)
  qed
qed

lemma job_step_done [simp]: "(job_step T ^^ n) (Idle, st) = (Idle, st)" "(job_step T ^^ n) (Replying w r, st) = (Replying w r, st)"
  by (induction n) simp_all

lemma request_steps:
  "(job_step T ^^ 5) (Busy Received rq w env, st) =
     (case route T rq w env st of
        (Panic, st') \<Rightarrow> (Dead, st')
      | (Ret None, st') \<Rightarrow> (Idle, st')
      | (Ret (Some r), st') \<Rightarrow> (Replying w r, st'))"
proof -
  have five: "(job_step T ^^ 5) x = (job_step T ^^ 3) (job_step T (job_step T x))" for x
    by (simp add: eval_nat_numeral funpow_swap1)
  obtain b rc d where c: "check_and_insert (tr_rc_codec T) (rq_io_replay rq) (env_id env) (rq_now rq) (sv_replay st) (sv_fs st) = (b, rc, d)"
    by (metis prod_cases3)
  obtain ok rl where a: "allow w (rq_now rq) (sv_ratelimit st) = (ok, rl)" by fastforce
  show ?thesis
    by (cases b; cases ok) (simp_all add: five c a route_def dispatch_steps split: prod.splits run.splits)
qed

lemma round_steps:
  assumes "te' = te\<lparr>te_paired := is_paired (sv_allowlist st)\<rparr>"
    and "tick_wallets W te' rest (known, sv_fs st, sv_backend st) = ((r, out), known', d, b)"
  shows "\<exists>n os. exec (\<lambda>s te. round_step W te s) (Checking snap rest, known, st) (replicate n te) =
      (os, case r of Panic \<Rightarrow> Stopped | Ret _ \<Rightarrow> Checking snap [], known', st\<lparr>sv_fs := d, sv_backend := b\<rparr>) \<and>
    concat os = out"
  using assms
proof (induction rest arbitrary: known st r out known' d b)
  case Nil
  then show ?case by (intro exI [of _ 0] exI [of _ "[]"]) auto
next
  case (Cons p rest)
  obtain w addrs where p: "p = (w, addrs)" by (cases p)
  have sel: "te_fresh te' = te_fresh te" "te_io te' = te_io te" by (simp_all add: Cons.prems(1))
  have te: "tick_wallet W te' = tick_wallet W te" unfolding tick_wallet_def sel ..
  have pw: "te_paired te' w \<longleftrightarrow> is_paired (sv_allowlist st) w" by (simp add: Cons.prems(1))
  show ?case
  proof (cases "is_paired (sv_allowlist st) w")
    case False
    then have "tick_wallets W te' rest (known, sv_fs st, sv_backend st) = ((r, out), known', d, b)"
      using Cons.prems(2) by (simp add: p pw)
    from Cons.IH [OF Cons.prems(1) this] obtain n os where
      "exec (\<lambda>s te. round_step W te s) (Checking snap rest, known, st) (replicate n te) =
        (os, case r of Panic \<Rightarrow> Stopped | Ret _ \<Rightarrow> Checking snap [], known', st\<lparr>sv_fs := d, sv_backend := b\<rparr>)"
      "concat os = out" by blast
    then show ?thesis
      using False by (intro exI [of _ "Suc n"] exI [of _ "[] # os"]) (simp add: p)
  next
    case True
    obtain r1 o1 k1 d1 b1 where t: "tick_wallet W te w addrs (known, sv_fs st, sv_backend st) = ((r1, o1), k1, d1, b1)"
      by (metis surj_pair)
    let ?st = "st\<lparr>sv_fs := d1, sv_backend := b1\<rparr>"
    show ?thesis
    proof (cases r1)
      case Panic
      then show ?thesis
        using Cons.prems(2) True t pw
        by (intro exI [of _ 2] exI [of _ "[[], o1]"]) (auto simp: p te numeral_2_eq_2)
    next
      case (Ret x)
      obtain r2 o2 where t2: "tick_wallets W te' rest (k1, d1, b1) = ((r2, o2), known', d, b)" "r = r2" "out = o1 @ o2"
        using Cons.prems(2) True t pw Ret by (auto simp: p te split: prod.splits)
      have "te' = te\<lparr>te_paired := is_paired (sv_allowlist ?st)\<rparr>" using Cons.prems(1) by simp
      from Cons.IH [OF this, of k1 r2 o2 known' d b] t2(1) obtain n os where
        "exec (\<lambda>s te. round_step W te s) (Checking snap rest, k1, ?st) (replicate n te) =
          (os, case r of Panic \<Rightarrow> Stopped | Ret _ \<Rightarrow> Checking snap [], known', ?st\<lparr>sv_fs := d, sv_backend := b\<rparr>)"
        "concat os = o2" using t2(2) by auto
      then show ?thesis
        using True t Ret t2(3) by (intro exI [of _ "Suc (Suc n)"] exI [of _ "[] # o1 # os"]) (simp add: p)
    qed
  qed
qed

lemma tick_steps:
  assumes "te' = te\<lparr>te_paired := is_paired (sv_allowlist st)\<rparr>"
    and "tick W te' (ws_snapshot (sv_watch st)) (known, sv_fs st, sv_backend st) = ((r, out), known', d, b)"
  shows "\<exists>n os. exec (\<lambda>s te. round_step W te s) (Resting, known, st) (replicate n te) =
      (os, case r of Panic \<Rightarrow> Stopped | Ret _ \<Rightarrow> Resting, known', st\<lparr>sv_fs := d, sv_backend := b\<rparr>) \<and>
    concat os = out"
proof -
  let ?f = "\<lambda>s te. round_step W te s" and ?snap = "ws_snapshot (sv_watch st)"
  obtain r1 o1 k1 d1 b1 where t: "tick_wallets W te' ?snap (known, sv_fs st, sv_backend st) = ((r1, o1), k1, d1, b1)"
    by (metis surj_pair)
  from round_steps [OF assms(1) t, of ?snap] obtain n os where
    e: "exec ?f (Checking ?snap ?snap, known, st) (replicate n te) =
      (os, case r1 of Panic \<Rightarrow> Stopped | Ret _ \<Rightarrow> Checking ?snap [], k1, st\<lparr>sv_fs := d1, sv_backend := b1\<rparr>)"
      "concat os = o1" by blast
  show ?thesis
  proof (cases r1)
    case Panic
    then show ?thesis
      using assms(2) t e by (intro exI [of _ "Suc n"] exI [of _ "[] # os"]) (auto simp: tick_def Let_def)
  next
    case (Ret x)
    have two: "replicate (Suc (Suc n)) te = (te # replicate n te) @ [te]" by (simp add: replicate_append_same)
    have io: "te_io_end te' = te_io_end te" by (simp add: assms(1))
    show ?thesis
      using assms(2) t e Ret
      by (intro exI [of _ "Suc (Suc n)"] exI [of _ "[] # os @ [[]]"])
        (auto simp del: replicate.simps simp: two exec_append tick_def io Let_def)
  qed
qed

section \<open>The invariant\<close>

lemma payload_keeps_ok: "server_ok st \<Longrightarrow> in_dir dir st \<Longrightarrow> current_payload A now rnd st = (p, st') \<Longrightarrow>
    server_ok st' \<and> in_dir dir st' \<and> sv_fs st' = sv_fs st \<and> sv_replay st' = sv_replay st \<and> sv_allowlist st' = sv_allowlist st"
  using payload_pm_ok [of "sv_pairing st" "ap_crypto A" rnd now "ap_server_pubkey A" "relays (ap_config A)"]
  by (auto simp: current_payload_def server_ok_def in_dir_def split: prod.splits)

lemma revoke_keeps_ok: "server_ok st \<Longrightarrow> in_dir dir st \<Longrightarrow> revoke_wallet A io pk st = (u, st') \<Longrightarrow>
    server_ok st' \<and> in_dir dir st' \<and> sv_replay st' = sv_replay st \<and> sv_pairing st' = sv_pairing st \<and>
    (\<forall>q. is_paired (sv_allowlist st') q \<longleftrightarrow> q \<noteq> pk \<and> is_paired (sv_allowlist st) q)"
  using al_remove_effect [of "sv_allowlist st" "ap_al_codec A" io pk "sv_fs st"]
  by (auto simp: revoke_wallet_def server_ok_def in_dir_def split: prod.splits)

text \<open>A step of the watcher changes its own state, its file and the adapter.\<close>

lemma same_files: "\<exists>d b. st = st\<lparr>sv_fs := d, sv_backend := b\<rparr>"
  by (rule exI [of _ "sv_fs st"], rule exI [of _ "sv_backend st"]) simp

lemma round_keeps:
  assumes "round_step W te (r, known, st) = (out, r', known', st')"
  shows "\<exists>d b. st' = st\<lparr>sv_fs := d, sv_backend := b\<rparr>"
proof (cases "(W, te, r, known, st)" rule: round_step.cases)
  case (2 W te snapshot known st)
  then have "st' = st\<lparr>sv_fs := sv_fs st', sv_backend := sv_backend st\<rparr>" using assms by (auto simp: Let_def)
  then show ?thesis using 2 by blast
next
  case (4 W te snapshot wallet addrs rest known st)
  then show ?thesis using assms by (auto split: prod.splits)
qed (use assms in \<open>auto simp: same_files Let_def\<close>)

text \<open>What a step of the system is, with the parts it can touch.\<close>

lemma sys_step_cases [case_names arrive move send page visit check revoke watch]:
  obtains rq w env where "e = Arrive rq w env" "sy_server (snd (sys_step S sy e)) = sy_server sy"
      "sy_job (snd (sys_step S sy e)) = (if sy_job sy = Idle then Busy Received rq w env else sy_job sy)"
  | j st where "e = Move" "job_step (su_transport S) (sy_job sy, sy_server sy) = (j, st)"
      "sy_server (snd (sys_step S sy e)) = st" "sy_job (snd (sys_step S sy e)) = j"
  | "e = Send" "sy_server (snd (sys_step S sy e)) = sy_server sy"
      "sy_job (snd (sys_step S sy e)) \<in> {sy_job sy, Idle}"
  | now rnd p st where "e = Page now rnd" "current_payload (su_app S) now rnd (sy_server sy) = (p, st)"
      "sy_server (snd (sys_step S sy e)) = st" "sy_job (snd (sys_step S sy e)) = sy_job sy"
  | "e = Visit" "snd (sys_step S sy e) = sy"
  | b where "e = Check" "snd (sys_step S sy e) = sy\<lparr>sy_server := (sy_server sy)\<lparr>sv_backend := b\<rparr>\<rparr>"
  | io pk u st where "e = Revoke io pk" "revoke_wallet (su_app S) io pk (sy_server sy) = (u, st)"
      "sy_server (snd (sys_step S sy e)) = st" "sy_job (snd (sys_step S sy e)) = sy_job sy"
  | te out r known st where "e = Watch te"
      "round_step (su_watcher S) te (sy_round sy, sy_known sy, sy_server sy) = (out, r, known, st)"
      "sy_server (snd (sys_step S sy e)) = st" "sy_job (snd (sys_step S sy e)) = sy_job sy"
proof (cases e)
  case (Arrive rq w env)
  then show thesis using that(1) by simp
next
  case Move
  obtain j st where "job_step (su_transport S) (sy_job sy, sy_server sy) = (j, st)" by fastforce
  then show thesis using that(2) Move by simp
next
  case Send
  then show thesis using that(3) by (simp split: job.splits)
next
  case (Page now rnd)
  obtain p st where "current_payload (su_app S) now rnd (sy_server sy) = (p, st)" by fastforce
  then show thesis using that(4) Page by simp
next
  case Visit
  then show thesis using that(5) by simp
next
  case Check
  obtain r b where "ap_preflight (su_app S) (sv_backend (sy_server sy)) = (r, b)" by fastforce
  then show thesis using that(6) [of b] Check by (cases r) (simp_all add: health_electrs_def)
next
  case (Revoke io pk)
  obtain u st where "revoke_wallet (su_app S) io pk (sy_server sy) = (u, st)" by fastforce
  then show thesis using that(7) Revoke by simp
next
  case (Watch te)
  obtain out r known st where "round_step (su_watcher S) te (sy_round sy, sy_known sy, sy_server sy) = (out, r, known, st)"
    by (metis surj_pair)
  then show thesis using that(8) Watch by simp
qed

declare sys_step.simps [simp del]

lemma sys_step_ok:
  assumes "system_ok dir sy"
  shows "system_ok dir (snd (sys_step S sy e))"
proof -
  have ok: "server_ok (sy_server sy)" "in_dir dir (sy_server sy)" using assms by (simp_all add: system_ok_def)
  show ?thesis
  proof (cases rule: sys_step_cases [of e S sy])
    case (move j st)
    from job_step_ok [OF ok move(2)] move(3) show ?thesis by (simp add: system_ok_def)
  next
    case (page now rnd p st)
    from payload_keeps_ok [OF ok page(2)] page(3) show ?thesis by (simp add: system_ok_def)
  next
    case (revoke io pk u st)
    from revoke_keeps_ok [OF ok revoke(2)] revoke(3) show ?thesis by (simp add: system_ok_def)
  next
    case (watch te out r known st)
    from round_keeps [OF watch(2)] watch(3) ok show ?thesis by (auto simp: system_ok_def server_ok_def in_dir_def)
  qed (use ok in \<open>simp_all add: system_ok_def server_ok_def in_dir_def\<close>)
qed

interpretation system: stable_machine "sys_step S" "system_ok dir" for S dir
  by unfold_locales (rule sys_step_ok)

section \<open>The files of the stores\<close>

definition transport_files :: "string \<Rightarrow> path set" where
  "transport_files dir = (\<Union>f \<in> {ALLOWLIST_FILE, WATCHSETS_FILE, SEEN_FILE}. {(dir, f), with_extension (dir, f) ''tmp''})"

definition store_files :: "string \<Rightarrow> path set" where
  "store_files dir =
     (\<Union>f \<in> {ALLOWLIST_FILE, WATCHSETS_FILE, SEEN_FILE, STATE_FILE}. {(dir, f), with_extension (dir, f) ''tmp''})"

lemma al_add_frame:
  "q \<noteq> al_path al \<Longrightarrow> q \<noteq> with_extension (al_path al) ''tmp'' \<Longrightarrow> snd (snd (al_add c io k al d)) q = d q"
  using write_json_frame [of q "al_path al" c io "insort_insert k (al_wallets al)" d]
  by (auto simp: al_add_def Let_def split: prod.splits)

lemma al_remove_frame:
  "q \<noteq> al_path al \<Longrightarrow> q \<noteq> with_extension (al_path al) ''tmp'' \<Longrightarrow> snd (snd (al_remove c io k al d)) q = d q"
  using write_json_frame [of q "al_path al" c io "remove1 k (al_wallets al)" d]
  by (auto simp: al_remove_def Let_def split: prod.splits sum.splits)

lemma ws_replace_frame:
  "q \<noteq> ws_path ws \<Longrightarrow> q \<noteq> with_extension (ws_path ws) ''tmp'' \<Longrightarrow> snd (snd (ws_replace c io k xs ws d)) q = d q"
  using write_json_frame [of q "ws_path ws" c io "if xs = [] then btm_remove k (ws_sets ws) else btm_insert k xs (ws_sets ws)" d]
  by (auto simp: ws_replace_def Let_def split: prod.splits sum.splits)

lemma ws_remove_wallet_frame:
  "q \<noteq> ws_path ws \<Longrightarrow> q \<noteq> with_extension (ws_path ws) ''tmp'' \<Longrightarrow> snd (snd (ws_remove_wallet c io k ws d)) q = d q"
  using write_json_frame [of q "ws_path ws" c io "btm_remove k (ws_sets ws)" d]
  by (auto simp: ws_remove_wallet_def Let_def split: prod.splits)

lemma handle_frame:
  assumes "q \<noteq> ws_path ws" "q \<noteq> with_extension (ws_path ws) ''tmp''"
    and "handle H io sender env (s, ws, d) = (r, s', ws', d')"
  shows "d' q = d q"
proof (cases "msg_type env = ''watch_addresses''")
  case True
  then have w: "watch_addresses H io sender env (ws, d) = (case r of Ret x \<Rightarrow> x, ws', d')"
    using assms(3) by (auto simp: handle_def split: prod.splits)
  show ?thesis
  proof (cases "validate_addresses (hd_lib H) (payload env) (hd_network H) MAX_WATCH_ADDRESSES")
    case (Inl e)
    then show ?thesis using w by (simp add: watch_addresses_def)
  next
    case (Inr addrs)
    obtain x ws1 d1 where x: "ws_replace (hd_codec H) io sender (map fst addrs) ws d = (x, ws1, d1)"
      by (metis prod_cases3)
    then have "d' = d1" using Inr w by (cases x) (auto simp: watch_addresses_def)
    then show ?thesis using ws_replace_frame [OF assms(1,2), of "hd_codec H" io sender "map fst addrs" d] x by simp
  qed
next
  case False
  then have "d' = d" using assms(3) by (auto simp: handle_def on_backend_def split: prod.splits if_splits)
  then show ?thesis by simp
qed

lemma job_step_frame:
  assumes "in_dir dir st" "q \<notin> transport_files dir" "job_step T (j, st) = (j', st')"
  shows "sv_fs st' q = sv_fs st q"
proof -
  have a: "q \<noteq> al_path (sv_allowlist st)" "q \<noteq> with_extension (al_path (sv_allowlist st)) ''tmp''"
    and w: "q \<noteq> ws_path (sv_watch st)" "q \<noteq> with_extension (ws_path (sv_watch st)) ''tmp''"
    and r: "q \<notin> {rc_path (sv_replay st), with_extension (rc_path (sv_replay st)) ''tmp''}"
    using assms(1,2) by (auto simp: transport_files_def in_dir_def)
  show ?thesis
    using assms(3)
  proof (cases rule: job_step_cases)
    case (replay rq u env b rc d)
    from check_frame [OF replay(2) r] replay(4) show ?thesis by simp
  next
    case (add rq u env x al d)
    from al_add_frame [OF a, of "tr_al_codec T" "rq_io_allowlist rq" u "sv_fs st"] add(2,4) show ?thesis by simp
  next
    case (remove rq u env x al d)
    from al_remove_frame [OF a, of "tr_al_codec T" "rq_io_allowlist rq" u "sv_fs st"] remove(3,5) show ?thesis by simp
  next
    case (handler rq u env x)
    obtain y s ws d where h: "handle (tr_handlers T) (rq_io_watch rq) u env (sv_backend st, sv_watch st, sv_fs st) = (y, s, ws, d)"
      by (metis surj_pair)
    from handle_frame [OF w h] handler(2) h show ?thesis by (auto simp: run_handler_def)
  next
    case (unlist rq u env x ws d)
    from ws_remove_wallet_frame [OF w, of "hd_codec (tr_handlers T)" "rq_io_watch rq" u "sv_fs st"] unlist(2,4) show ?thesis by simp
  qed simp_all
qed

lemma persist_state_frame:
  "q \<noteq> w_state_path W \<Longrightarrow> q \<noteq> with_extension (w_state_path W) ''tmp'' \<Longrightarrow> persist_state W io state d q = d q"
  by (simp add: persist_state_def persist_frame)

lemma round_frame:
  assumes "w_state_path W = (dir, STATE_FILE)" "q \<notin> store_files dir"
    and "round_step W te (r, known, st) = (out, r', known', st')"
  shows "sv_fs st' q = sv_fs st q"
proof -
  have q: "q \<noteq> w_state_path W" "q \<noteq> with_extension (w_state_path W) ''tmp''"
    using assms(1,2) by (auto simp: store_files_def)
  show ?thesis
    using assms(3)
  proof (cases "(W, te, r, known, st)" rule: round_step.cases)
    case (4 W te snapshot wallet addrs rest known st)
    then show ?thesis
      using assms(3) persist_state_frame [OF q]
      by (auto simp: tick_wallet_def Let_def split: if_splits prod.splits run.splits sum.splits)
  qed (use assms(3) persist_state_frame [OF q] in \<open>auto simp: Let_def\<close>)
qed

text \<open>Every operation writes where its store was loaded from, whatever the store holds.\<close>

lemma path_kept [simp]:
  "al_path (fst (snd (al_add c io k al d))) = al_path al" "al_path (fst (snd (al_remove c io k al d))) = al_path al"
  "ws_path (fst (snd (ws_replace cw io k xs ws d))) = ws_path ws"
  "ws_path (fst (snd (ws_remove_wallet cw io k ws d))) = ws_path ws"
  by (auto simp: al_add_def al_remove_def ws_replace_def ws_remove_wallet_def Let_def split: prod.splits sum.splits)

lemma check_path: "check_and_insert c io i now rc d = (b, rc', d') \<Longrightarrow> rc_path rc' = rc_path rc"
  by (auto simp: check_and_insert_def Let_def split: if_splits prod.splits)

lemma handle_path:
  assumes "handle H io sender env (s, ws, d) = (r, s', ws', d')"
  shows "ws_path ws' = ws_path ws"
proof -
  have "ws' = ws \<or> (\<exists>xs. ws' = fst (snd (ws_replace (hd_codec H) io sender xs ws d)))"
    using assms by (auto simp: handle_def on_backend_def watch_addresses_def split: prod.splits sum.splits if_splits) (metis fst_conv snd_conv)+
  then show ?thesis by auto
qed

lemma job_step_in_dir:
  assumes "in_dir dir st" "job_step T (j, st) = (j', st')"
  shows "in_dir dir st'"
  using assms(2)
proof (cases rule: job_step_cases)
  case (replay rq w env b rc d)
  then show ?thesis using assms(1) check_path [OF replay(2)] by (simp add: in_dir_def)
next
  case (add rq w env r al d)
  then show ?thesis
    using assms(1) path_kept(1) [of "tr_al_codec T" "rq_io_allowlist rq" w "sv_allowlist st" "sv_fs st"] by (simp add: in_dir_def)
next
  case (remove rq w env r al d)
  then show ?thesis
    using assms(1) path_kept(2) [of "tr_al_codec T" "rq_io_allowlist rq" w "sv_allowlist st" "sv_fs st"] by (simp add: in_dir_def)
next
  case (handler rq w env r)
  obtain x s ws d where h: "handle (tr_handlers T) (rq_io_watch rq) w env (sv_backend st, sv_watch st, sv_fs st) = (x, s, ws, d)"
    by (metis surj_pair)
  then show ?thesis using assms(1) handle_path [OF h] handler(2) by (auto simp: run_handler_def in_dir_def)
next
  case (unlist rq w env r ws d)
  then show ?thesis
    using assms(1) path_kept(4) [of "hd_codec (tr_handlers T)" "rq_io_watch rq" w "sv_watch st" "sv_fs st"] by (simp add: in_dir_def)
qed (use assms(1) in \<open>simp_all add: in_dir_def\<close>)

lemma sys_step_in_dir:
  assumes "in_dir dir (sy_server sy)"
  shows "in_dir dir (sy_server (snd (sys_step S sy e)))"
proof (cases rule: sys_step_cases [of e S sy])
  case (move j st)
  from job_step_in_dir [OF assms move(2)] move(3) show ?thesis by simp
next
  case (page now rnd p st)
  from page(2) obtain pm where "st = sy_server sy\<lparr>sv_pairing := pm\<rparr>" by (auto simp: current_payload_def split: prod.splits)
  then show ?thesis using assms page(3) by (simp add: in_dir_def)
next
  case (revoke io pk u st)
  from revoke(2) obtain x al d where "al_remove (ap_al_codec (su_app S)) io pk (sv_allowlist (sy_server sy)) (sv_fs (sy_server sy)) = (x, al, d)"
      "st = sy_server sy\<lparr>sv_allowlist := al, sv_fs := d\<rparr>" by (auto simp: revoke_wallet_def split: prod.splits)
  then show ?thesis
    using assms revoke(3) path_kept(2) [of "ap_al_codec (su_app S)" io pk "sv_allowlist (sy_server sy)" "sv_fs (sy_server sy)"]
    by (simp add: in_dir_def)
next
  case (watch te out r known st)
  from round_keeps [OF watch(2)] watch(3) assms show ?thesis by (auto simp: in_dir_def)
qed (use assms in \<open>simp_all add: in_dir_def\<close>)

lemma sys_step_frame:
  assumes "in_dir dir (sy_server sy)" "w_state_path (su_watcher S) = (dir, STATE_FILE)" "q \<notin> store_files dir"
  shows "sv_fs (sy_server (snd (sys_step S sy e))) q = sv_fs (sy_server sy) q"
proof (cases rule: sys_step_cases [of e S sy])
  case (move j st)
  have "q \<notin> transport_files dir" using assms(3) by (simp add: store_files_def transport_files_def)
  from job_step_frame [OF assms(1) this move(2)] move(3) show ?thesis by simp
next
  case (page now rnd p st)
  from page(2) obtain pm where "st = sy_server sy\<lparr>sv_pairing := pm\<rparr>" by (auto simp: current_payload_def split: prod.splits)
  then show ?thesis using page(3) by simp
next
  case (revoke io pk u st)
  have "q \<noteq> al_path (sv_allowlist (sy_server sy))" "q \<noteq> with_extension (al_path (sv_allowlist (sy_server sy))) ''tmp''"
    using assms(1,3) by (auto simp: store_files_def in_dir_def)
  note frame = al_remove_frame [OF this, of "ap_al_codec (su_app S)" io pk "sv_fs (sy_server sy)"]
  obtain x al d where r: "al_remove (ap_al_codec (su_app S)) io pk (sv_allowlist (sy_server sy)) (sv_fs (sy_server sy)) = (x, al, d)"
    by (metis prod_cases3)
  then have "st = sy_server sy\<lparr>sv_allowlist := al, sv_fs := d\<rparr>" using revoke(2) by (simp add: revoke_wallet_def)
  with frame revoke(3) r show ?thesis by simp
next
  case (watch te out r known st)
  from round_frame [OF assms(2,3) watch(2)] watch(3) show ?thesis by simp
qed simp_all

lemma run_frame:
  assumes "w_state_path (su_watcher S) = (dir, STATE_FILE)" "q \<notin> store_files dir" "in_dir dir (sy_server sy)"
  shows "sv_fs (sy_server (snd (exec (sys_step S) sy es))) q = sv_fs (sy_server sy) q"
proof -
  have "in_dir dir (sy_server (snd (exec (sys_step S) sy es))) \<and>
      sv_fs (sy_server (snd (exec (sys_step S) sy es))) q = sv_fs (sy_server sy) q"
    by (rule exec_keeps [where good = "\<lambda>s. in_dir dir (sy_server s) \<and> sv_fs (sy_server s) q = sv_fs (sy_server sy) q"])
      (use assms(3) in \<open>auto simp: sys_step_in_dir sys_step_frame [OF _ assms(1,2)]\<close>)
  then show ?thesis ..
qed

lemma key_file_not_a_store: "(dir, KEY_FILE) \<notin> store_files dir"
  by (simp add: store_files_def KEY_FILE_def ALLOWLIST_FILE_def WATCHSETS_FILE_def SEEN_FILE_def STATE_FILE_def
      with_extension_def)

end
