(* ===== verification/SystemRuns.thy ===== *)
theory SystemRuns
  imports SystemProps
begin

text \<open>
  Lemmas on runs of the whole server of \<open>server/src/main.rs\<close>: the entries of the replay cache, how a wallet
  joins, who is served and who is notified, runs without interleaving, the budget of pairings, and the server
  just booted. The properties that rest on them are in the root theory.
\<close>

section \<open>The replay cache over a run\<close>

definition has_id :: "replay_cache \<Rightarrow> string \<Rightarrow> u64 \<Rightarrow> bool" where
  "has_id rc i t \<longleftrightarrow> rc_ok rc \<and> map_of (rc_seen rc) i = Some t"

lemma has_id_live: "has_id rc i t \<Longrightarrow> unat now - unat t < 864000 \<Longrightarrow> live_entry rc i now = Some t"
  by (simp add: has_id_def live_entry_def live_at_nat)

lemma check_keeps_id:
  assumes "has_id rc i t" "unat now - unat t < 864000" "check_and_insert c io j now rc d = (b, rc', d')"
  shows "has_id rc' i t"
proof -
  have ok: "rc_ok rc" using assms(1) by (simp add: has_id_def)
  have "b \<longleftrightarrow> live_entry rc j now = None" using check_result [OF ok] assms(3) by (metis fst_conv)
  with has_id_live [OF assms(1,2)] have "\<not> (b \<and> i = j)" by auto
  then show ?thesis
    using check_entries [OF ok assms(3), of i] check_keeps_ok [OF ok assms(3)] has_id_live [OF assms(1,2)]
    by (auto simp: has_id_def)
qed

text \<open>The requests of a run, and the one under way, arrive within the retention of an entry.\<close>

fun event_in_window :: "u64 \<Rightarrow> sys_event \<Rightarrow> bool" where
  "event_in_window t (Arrive rq sender env) = (unat (rq_now rq) - unat t < 864000)"
| "event_in_window t _ = True"

fun job_in_window :: "u64 \<Rightarrow> job \<Rightarrow> bool" where
  "job_in_window t (Busy Received rq w env) = (unat (rq_now rq) - unat t < 864000)"
| "job_in_window t _ = True"

lemma job_step_replay:
  assumes "server_ok st" "job_step T (j, st) = (j', st')"
  shows "sv_replay st' = sv_replay st \<or> (\<exists>rq w env b d. j = Busy Received rq w env \<and>
    check_and_insert (tr_rc_codec T) (rq_io_replay rq) (env_id env) (rq_now rq) (sv_replay st) (sv_fs st) = (b, sv_replay st', d))"
  using assms(2)
proof (cases rule: job_step_cases)
  case (handler rq w env r)
  from run_handler_local [OF assms(1) handler(2)] show ?thesis by (simp add: local_to_def)
qed auto

lemma past_received: "\<forall>ph rq w env. j = Busy ph rq w env \<longrightarrow> ph = Trusted \<Longrightarrow> job_in_window t j"
  by (cases j) auto

lemma job_window_step: "job_step T (j, st) = (j', st') \<Longrightarrow> job_in_window t j'"
  by (cases rule: job_step_cases) (auto intro: past_received)

definition keeps_id :: "string \<Rightarrow> string \<Rightarrow> u64 \<Rightarrow> 's system \<Rightarrow> bool" where
  "keeps_id dir i t sy \<longleftrightarrow> system_ok dir sy \<and> has_id (sv_replay (sy_server sy)) i t \<and> job_in_window t (sy_job sy)"

lemma keeps_id_step:
  assumes "keeps_id dir i t sy" "event_in_window t e"
  shows "keeps_id dir i t (snd (sys_step S sy e))"
proof -
  have ok: "system_ok dir sy" "server_ok (sy_server sy)" "in_dir dir (sy_server sy)"
    and id: "has_id (sv_replay (sy_server sy)) i t" and win: "job_in_window t (sy_job sy)"
    using assms(1) by (simp_all add: keeps_id_def system_ok_def)
  have "has_id (sv_replay (sy_server (snd (sys_step S sy e)))) i t \<and> job_in_window t (sy_job (snd (sys_step S sy e)))"
  proof (cases rule: sys_step_cases [of e S sy])
    case (arrive rq w env)
    then show ?thesis using id win assms(2) by simp
  next
    case (move j st)
    from job_step_replay [OF ok(2) move(2)] have "has_id (sv_replay st) i t"
    proof
      assume "\<exists>rq w env b d. sy_job sy = Busy Received rq w env \<and>
        check_and_insert (tr_rc_codec (su_transport S)) (rq_io_replay rq) (env_id env) (rq_now rq)
          (sv_replay (sy_server sy)) (sv_fs (sy_server sy)) = (b, sv_replay st, d)"
      then obtain rq w env b d where r: "sy_job sy = Busy Received rq w env"
          "check_and_insert (tr_rc_codec (su_transport S)) (rq_io_replay rq) (env_id env) (rq_now rq)
            (sv_replay (sy_server sy)) (sv_fs (sy_server sy)) = (b, sv_replay st, d)" by blast
      from win r(1) check_keeps_id [OF id _ r(2)] show ?thesis by simp
    qed (use id in simp)
    then show ?thesis using move job_window_step [OF move(2)] by simp
  next
    case send
    then show ?thesis using id win by auto
  next
    case (page now rnd p st)
    from payload_keeps_ok [OF ok(2,3) page(2)] page id win show ?thesis by simp
  next
    case (revoke io pk u st)
    from revoke_keeps_ok [OF ok(2,3) revoke(2)] revoke id win show ?thesis by simp
  next
    case (watch te out r known st)
    from round_keeps [OF watch(2)] watch id win show ?thesis by auto
  qed (use id win in simp_all)
  then show ?thesis using sys_step_ok [OF ok(1)] by (simp add: keeps_id_def)
qed

lemma run_keeps_id:
  "keeps_id dir i t sy \<Longrightarrow> list_all (event_in_window t) es \<Longrightarrow> keeps_id dir i t (snd (exec (sys_step S) sy es))"
  by (rule exec_keeps [where good = "keeps_id dir i t"]) (auto intro: keeps_id_step simp: list_all_iff)

lemma accepted_has_id:
  assumes "server_ok st" "job_step T (Busy Received rq w env, st) = (Busy Accepted rq w env, st')"
  shows "has_id (sv_replay st') (env_id env) (rq_now rq)"
proof -
  have ok: "rc_ok (sv_replay st)" using assms(1) by (simp add: server_ok_def)
  obtain rc d where c: "check_and_insert (tr_rc_codec T) (rq_io_replay rq) (env_id env) (rq_now rq) (sv_replay st) (sv_fs st) = (True, rc, d)"
      "sv_replay st' = rc"
    using assms(2) by (auto split: prod.splits if_splits)
  then show ?thesis
    using check_entries [OF ok c(1), of "env_id env"] check_keeps_ok [OF ok c(1)] by (simp add: has_id_def)
qed

lemma known_id_dropped:
  assumes "has_id (sv_replay st) (env_id env) t" "unat (rq_now rq) - unat t < 864000"
    and "job_step T (Busy Received rq w env, st) = (j', st')"
  shows "j' = Idle \<and> st' = st\<lparr>sv_replay := sv_replay st', sv_fs := sv_fs st'\<rparr>"
proof -
  have ok: "rc_ok (sv_replay st)" using assms(1) by (simp add: has_id_def)
  obtain b rc d where c: "check_and_insert (tr_rc_codec T) (rq_io_replay rq) (env_id env) (rq_now rq) (sv_replay st) (sv_fs st) = (b, rc, d)"
    by (metis prod_cases3)
  have "\<not> b" using check_result [OF ok] has_id_live [OF assms(1,2)] c by (metis fst_conv option.distinct(1))
  with assms(3) c show ?thesis by auto
qed

section \<open>A wallet that joins in a run\<close>

lemma job_step_membership:
  assumes "server_ok st" "job_step T (j, st) = (j', st')" "is_paired (sv_allowlist st') w" "\<not> is_paired (sv_allowlist st) w"
  shows "\<exists>rq env. j = Busy Proved rq w env"
  using assms(2)
proof (cases rule: job_step_cases)
  case (add rq u env r al d)
  have "al_ok (sv_allowlist st)" using assms(1) by (simp add: server_ok_def)
  from al_add_effect [OF this add(2)] add(1,4) assms(3,4) show ?thesis by auto
next
  case (remove rq u env r al d)
  have "al_ok (sv_allowlist st)" using assms(1) by (simp add: server_ok_def)
  from al_remove_effect [OF this remove(3)] remove(5) assms(3,4) show ?thesis by simp
next
  case (handler rq u env r)
  from run_handler_local [OF assms(1) handler(2)] assms(3,4) show ?thesis by simp
qed (use assms(3,4) in simp_all)

lemma step_membership:
  assumes "system_ok dir sy" "is_paired (sv_allowlist (sy_server (snd (sys_step S sy e)))) w"
    and "\<not> is_paired (sv_allowlist (sy_server sy)) w"
  shows "\<exists>rq env. sy_job sy = Busy Proved rq w env"
proof -
  have ok: "server_ok (sy_server sy)" "in_dir dir (sy_server sy)" using assms(1) by (simp_all add: system_ok_def)
  show ?thesis
  proof (cases rule: sys_step_cases [of e S sy])
    case (move j st)
    from job_step_membership [OF ok(1) move(2)] move(3) assms(2,3) show ?thesis by simp
  next
    case (page now rnd p st)
    from payload_keeps_ok [OF ok page(2)] page(3) assms(2,3) show ?thesis by simp
  next
    case (revoke io pk u st)
    from revoke_keeps_ok [OF ok revoke(2)] revoke(3) assms(2,3) show ?thesis by simp
  next
    case (watch te out r known st)
    from round_keeps [OF watch(2)] watch(3) assms(2,3) show ?thesis by auto
  qed (use assms(2,3) in simp_all)
qed

text \<open>A job that proved its wallet did so in an earlier step, and its request arrived before that.\<close>

definition proving :: "('a, 't, 's) installation \<Rightarrow> string \<Rightarrow> 's system \<Rightarrow> req_env \<Rightarrow> request_envelope \<Rightarrow> bool" where
  "proving S w sy rq env \<longleftrightarrow> sy_job sy = Busy Unproved rq w env \<and>
     (\<exists>s. sv_pairing (sy_server sy) = Some s \<and> \<not> used s \<and> rq_now rq < expires_at s \<and>
       hex_decode (tr_crypto (su_transport S)) (pair_proof env) =
         Some (hmac_sha256 (tr_crypto (su_transport S)) (secret s) (as_bytes w)))"

lemma step_proves:
  assumes "sy_job (snd (sys_step S sy e)) = Busy Proved rq w env"
  shows "sy_job sy = Busy Proved rq w env \<or> (e = Move \<and> proving S w sy rq env)"
proof (cases rule: sys_step_cases [of e S sy])
  case (move j st)
  from move(2) show ?thesis
  proof (cases rule: job_step_cases)
    case (prove rq' w' env' b pm)
    then have "b" "rq' = rq" "w' = w" "env' = env" using assms move(4) by (auto split: if_splits)
    with verify_true [of "tr_crypto (su_transport S)" "rq_now rq" w "pair_proof env" "sv_pairing (sy_server sy)" pm] prove move(1)
    show ?thesis by (auto simp: proving_def)
  qed (use assms move(4) in \<open>auto split: if_splits\<close>)
qed (use assms in \<open>auto split: if_splits\<close>)

lemma run_proves:
  "\<nexists>rq env. sy_job sy = Busy Proved rq w env \<Longrightarrow> sy_job (snd (exec (sys_step S) sy es)) = Busy Proved rq w env \<Longrightarrow>
     \<exists>es1 es2. es = es1 @ Move # es2 \<and> proving S w (snd (exec (sys_step S) sy es1)) rq env"
proof (induction es rule: rev_induct)
  case Nil
  then show ?case by simp
next
  case (snoc e es)
  let ?sy = "snd (exec (sys_step S) sy es)"
  have "sy_job (snd (sys_step S ?sy e)) = Busy Proved rq w env" using snoc.prems(2) by (simp add: exec_snoc)
  from step_proves [OF this] show ?case
  proof
    assume "sy_job ?sy = Busy Proved rq w env"
    from snoc.IH [OF snoc.prems(1) this] show ?case by (metis append.assoc append_Cons)
  next
    assume "e = Move \<and> proving S w ?sy rq env"
    then show ?case by blast
  qed
qed

lemma step_arrived:
  assumes "sy_job (snd (sys_step S sy e)) = Busy ph rq w env"
  shows "(e = Arrive rq w env \<and> ph = Received) \<or>
    (\<exists>ph0. sy_job sy = Busy ph0 rq w env \<and>
      (ph \<in> {Unproved, Proved} \<longrightarrow> ph0 \<in> {Unproved, Proved} \<or> msg_type env = ''pair''))"
proof (cases rule: sys_step_cases [of e S sy])
  case (move j st)
  have j: "j = Busy ph rq w env" using assms move(4) by simp
  from move(2) show ?thesis
  proof (cases rule: job_step_cases)
    case rest
    then have "sy_job sy = Busy ph rq w env" using j by auto
    then show ?thesis by blast
  qed (use j in \<open>auto split: if_splits\<close>)
next
  case send
  then have "sy_job sy = Busy ph rq w env" using assms by auto
  then show ?thesis by blast
qed (use assms in \<open>auto split: if_splits\<close>)

lemma run_arrived:
  "sy_job sy = Idle \<Longrightarrow> sy_job (snd (exec (sys_step S) sy es)) = Busy ph rq w env \<Longrightarrow>
     Arrive rq w env \<in> set es \<and> (ph \<in> {Unproved, Proved} \<longrightarrow> msg_type env = ''pair'')"
proof (induction es arbitrary: ph rule: rev_induct)
  case Nil
  then show ?case by simp
next
  case (snoc e es)
  have "sy_job (snd (sys_step S (snd (exec (sys_step S) sy es)) e)) = Busy ph rq w env"
    using snoc.prems(2) by (simp add: exec_snoc)
  from step_arrived [OF this] snoc.IH [OF snoc.prems(1)] show ?case by auto
qed

lemma run_membership:
  "system_ok dir sy \<Longrightarrow> sy_job sy = Idle \<Longrightarrow> \<not> is_paired (sv_allowlist (sy_server sy)) w \<Longrightarrow>
     is_paired (sv_allowlist (sy_server (snd (exec (sys_step S) sy es)))) w \<Longrightarrow>
     \<exists>es1 es2 rq env. es = es1 @ Move # es2 \<and> Arrive rq w env \<in> set es1 \<and> msg_type env = ''pair'' \<and>
       proving S w (snd (exec (sys_step S) sy es1)) rq env"
proof (induction es rule: rev_induct)
  case Nil
  then show ?case by simp
next
  case (snoc e es)
  let ?sy = "snd (exec (sys_step S) sy es)"
  show ?case
  proof (cases "is_paired (sv_allowlist (sy_server ?sy)) w")
    case True
    from snoc.IH [OF snoc.prems(1-3) True] show ?thesis by (metis append.assoc append_Cons)
  next
    case False
    have "system_ok dir ?sy" by (rule system.run_good [OF snoc.prems(1)])
    moreover have "is_paired (sv_allowlist (sy_server (snd (sys_step S ?sy e)))) w"
      using snoc.prems(4) by (simp add: exec_snoc)
    ultimately obtain rq env where "sy_job ?sy = Busy Proved rq w env" using step_membership False by blast
    from run_proves [OF _ this] snoc.prems(2) obtain es1 es2 where
      e: "es = es1 @ Move # es2" "proving S w (snd (exec (sys_step S) sy es1)) rq env" by auto
    have "sy_job (snd (exec (sys_step S) sy es1)) = Busy Unproved rq w env" using e(2) by (simp add: proving_def)
    from run_arrived [OF snoc.prems(2) this] have "Arrive rq w env \<in> set es1" "msg_type env = ''pair''" by simp_all
    with e show ?thesis by auto
  qed
qed

section \<open>Who is served and who is notified\<close>

lemma step_trusted:
  assumes "sy_job (snd (sys_step S sy e)) = Busy Trusted rq w env"
  shows "sy_job sy = Busy Trusted rq w env \<or>
    (e = Move \<and> sy_job sy = Busy Admitted rq w env \<and> is_paired (sv_allowlist (sy_server sy)) w)"
proof (cases rule: sys_step_cases [of e S sy])
  case (move j st)
  have j: "j = Busy Trusted rq w env" using assms move(4) by simp
  from move(2) show ?thesis
    by (cases rule: job_step_cases) (use j move(1) in \<open>auto split: if_splits\<close>)
qed (use assms in \<open>auto split: if_splits\<close>)

lemma run_trusted:
  "sy_job sy = Idle \<Longrightarrow> sy_job (snd (exec (sys_step S) sy es)) = Busy Trusted rq w env \<Longrightarrow>
     \<exists>es1 es2. es = es1 @ Move # es2 \<and> sy_job (snd (exec (sys_step S) sy es1)) = Busy Admitted rq w env \<and>
       is_paired (sv_allowlist (sy_server (snd (exec (sys_step S) sy es1)))) w"
proof (induction es rule: rev_induct)
  case Nil
  then show ?case by simp
next
  case (snoc e es)
  let ?sy = "snd (exec (sys_step S) sy es)"
  have b: "sy_job (snd (sys_step S ?sy e)) = Busy Trusted rq w env" using snoc.prems(2) by (simp add: exec_snoc)
  from step_trusted [OF b] show ?case
  proof
    assume "sy_job ?sy = Busy Trusted rq w env"
    from snoc.IH [OF snoc.prems(1) this] show ?thesis by (metis append.assoc append_Cons)
  next
    assume "e = Move \<and> sy_job ?sy = Busy Admitted rq w env \<and> is_paired (sv_allowlist (sy_server ?sy)) w"
    then show ?thesis by blast
  qed
qed

lemma step_scans:
  assumes "sy_round (snd (sys_step S sy e)) = Scanning snap w addrs rest"
  shows "sy_round sy = Scanning snap w addrs rest \<or>
    (\<exists>te. e = Watch te \<and> sy_round sy = Checking snap ((w, addrs) # rest) \<and> is_paired (sv_allowlist (sy_server sy)) w)"
proof (cases e)
  case (Watch te)
  obtain out r known st where r: "round_step (su_watcher S) te (sy_round sy, sy_known sy, sy_server sy) = (out, r, known, st)"
    by (metis surj_pair)
  then have "r = Scanning snap w addrs rest" using assms by (simp add: Watch sys_step.simps)
  with r show ?thesis
    by (cases "(su_watcher S, te, sy_round sy, sy_known sy, sy_server sy)" rule: round_step.cases)
      (auto simp: Watch Let_def split: if_splits prod.splits run.splits)
qed (use assms in \<open>simp_all add: sys_step.simps split: prod.splits job.splits if_splits\<close>)

lemma run_scans:
  "sy_round sy = Resting \<Longrightarrow> sy_round (snd (exec (sys_step S) sy es)) = Scanning snap w addrs rest \<Longrightarrow>
     \<exists>es1 te es2. es = es1 @ Watch te # es2 \<and> is_paired (sv_allowlist (sy_server (snd (exec (sys_step S) sy es1)))) w"
proof (induction es rule: rev_induct)
  case Nil
  then show ?case by simp
next
  case (snoc e es)
  let ?sy = "snd (exec (sys_step S) sy es)"
  have b: "sy_round (snd (sys_step S ?sy e)) = Scanning snap w addrs rest" using snoc.prems(2) by (simp add: exec_snoc)
  from step_scans [OF b] show ?case
  proof
    assume "sy_round ?sy = Scanning snap w addrs rest"
    from snoc.IH [OF snoc.prems(1) this] show ?thesis by (metis append.assoc append_Cons)
  qed blast
qed

lemma notes_scanned:
  assumes "sys_step S sy (Watch te) = (Notes out, sy')" "n \<in> set out"
  shows "\<exists>snap w addrs rest. sy_round sy = Scanning snap w addrs rest \<and> w_from_hex (su_watcher S) w = Some (nt_wallet n) \<and>
    map_of (sy_known sy) w \<noteq> None"
proof -
  obtain r known st where r: "round_step (su_watcher S) te (sy_round sy, sy_known sy, sy_server sy) = (out, r, known, st)"
    using assms(1) by (auto simp: sys_step.simps split: prod.splits)
  show ?thesis
  proof (cases "sy_round sy")
    case (Scanning snap w addrs rest)
    obtain x known' d b where "tick_wallet (su_watcher S) te w addrs
        (sy_known sy, sv_fs (sy_server sy), sv_backend (sy_server sy)) = ((x, out), (known', d, b))"
      using r Scanning by (auto split: prod.splits)
    from tick_wallet_out [OF this] assms(2) Scanning show ?thesis by blast
  next
    case (Checking snap rest)
    then show ?thesis using r assms(2) by (cases rest) (auto simp: Let_def)
  qed (use r assms(2) in \<open>auto simp: Let_def\<close>)
qed

section \<open>Runs without interleaving\<close>

lemma exec_moves:
  "exec (sys_step S) sy (replicate n Move) =
     (replicate n Quiet,
      case (job_step (su_transport S) ^^ n) (sy_job sy, sy_server sy) of (j, st) \<Rightarrow> sy\<lparr>sy_job := j, sy_server := st\<rparr>)"
proof (induction n arbitrary: sy)
  case 0
  then show ?case by simp
next
  case (Suc n)
  obtain j st where j: "job_step (su_transport S) (sy_job sy, sy_server sy) = (j, st)" by fastforce
  have "sys_step S sy Move = (Quiet, sy\<lparr>sy_job := j, sy_server := st\<rparr>)" using j by (simp add: sys_step.simps)
  then show ?case using Suc.IH [of "sy\<lparr>sy_job := j, sy_server := st\<rparr>"] j by (simp add: funpow_swap1 split: prod.split)
qed

lemma exec_watches:
  "exec (\<lambda>s te. round_step (su_watcher S) te s) (sy_round sy, sy_known sy, sy_server sy) tes = (os, r, known, st) \<Longrightarrow>
     exec (sys_step S) sy (map Watch tes) = (map Notes os, sy\<lparr>sy_round := r, sy_known := known, sy_server := st\<rparr>)"
proof (induction tes arbitrary: sy os)
  case Nil
  then show ?case by simp
next
  case (Cons te tes)
  obtain o1 r1 k1 st1 where r1: "round_step (su_watcher S) te (sy_round sy, sy_known sy, sy_server sy) = (o1, r1, k1, st1)"
    by (metis surj_pair)
  obtain os' where rest: "exec (\<lambda>s te. round_step (su_watcher S) te s) (r1, k1, st1) tes = (os', r, known, st)" "os = o1 # os'"
    using Cons.prems r1 by (auto simp: Let_def split: prod.splits)
  from Cons.IH [of "sy\<lparr>sy_round := r1, sy_known := k1, sy_server := st1\<rparr>"] rest r1 show ?case
    by (simp add: sys_step.simps)
qed

lemma exec_request:
  assumes "sy_job sy = Idle" "route (su_transport S) rq w env (sy_server sy) = (r, st')"
  shows "exec (sys_step S) sy (Arrive rq w env # replicate 5 Move @ [Send]) =
    (replicate 6 Quiet @ [case r of Ret (Some x) \<Rightarrow> Response w x | _ \<Rightarrow> Quiet],
     sy\<lparr>sy_job := (case r of Panic \<Rightarrow> Dead | Ret _ \<Rightarrow> Idle), sy_server := st'\<rparr>)"
proof -
  let ?sy = "sy\<lparr>sy_job := Busy Received rq w env\<rparr>"
  have a: "sys_step S sy (Arrive rq w env) = (Quiet, ?sy)" using assms(1) by (simp add: sys_step.simps)
  have m: "exec (sys_step S) ?sy (replicate 5 Move) =
      (replicate 5 Quiet, sy\<lparr>sy_job := (case r of Panic \<Rightarrow> Dead | Ret None \<Rightarrow> Idle | Ret (Some x) \<Rightarrow> Replying w x),
         sy_server := st'\<rparr>)"
    using request_steps [of "su_transport S" rq w env "sy_server sy"] assms(2)
    by (simp add: exec_moves split: run.splits option.splits)
  have six: "replicate 6 Quiet = Quiet # replicate 5 Quiet" by (simp add: eval_nat_numeral)
  show ?thesis
    unfolding append_Cons [symmetric] exec_append exec_Cons a m six fst_conv snd_conv
    using assms(1) by (simp add: sys_step.simps split: run.splits option.splits)
qed

section \<open>The budget of pairings\<close>

text \<open>A proof that was accepted and not yet entered into the allowlist counts as well.\<close>

definition pending :: "job \<Rightarrow> nat" where
  "pending j = (case j of Busy ph rq w env \<Rightarrow> if ph = Proved then 1 else 0 | _ \<Rightarrow> 0)"

definition pair_credit :: "'s system \<Rightarrow> nat" where
  "pair_credit sy = length (al_list (sv_allowlist (sy_server sy))) + unused_credit (sv_pairing (sy_server sy)) + pending (sy_job sy)"

fun page_gain :: "'s system \<Rightarrow> sys_event \<Rightarrow> nat" where
  "page_gain sy (Page now rnd) = (if secret_live now (sv_pairing (sy_server sy)) then 0 else 1)"
| "page_gain sy _ = 0"

lemma al_length: "al_ok al \<Longrightarrow> length (al_list al) = card {q. is_paired al q}"
  by (simp add: al_ok_def bts_ok_def al_list_def is_paired_def distinct_card)

lemma finite_paired [simp]: "finite {q. is_paired al q}"
  by (simp add: is_paired_def)

lemma verify_pays: "(if fst (verify_at K now pk proof pm) then 1 else 0) + unused_credit (snd (verify_at K now pk proof pm)) \<le> unused_credit pm"
  using pm_step_success [of K pm "Verify now pk proof"]
  by (cases "verify_at K now pk proof pm"; cases "fst (verify_at K now pk proof pm)") simp_all

lemma shrunk_length:
  assumes "al_ok al" "al_ok al'" "{q. is_paired al' q} \<subseteq> {q. is_paired al q}"
  shows "length (al_list al') \<le> length (al_list al)"
  using assms by (simp add: al_length card_mono)

lemma job_step_pays:
  assumes "server_ok st" "job_step T (j, st) = (j', st')"
  shows "length (al_list (sv_allowlist st')) + unused_credit (sv_pairing st') + pending j'
    \<le> length (al_list (sv_allowlist st)) + unused_credit (sv_pairing st) + pending j"
proof -
  have al: "al_ok (sv_allowlist st)" using assms(1) by (simp add: server_ok_def)
  show ?thesis
    using assms(2)
  proof (cases rule: job_step_cases)
    case (prove rq w env b pm)
    from verify_pays [of "tr_crypto T" "rq_now rq" w "pair_proof env" "sv_pairing st"] prove show ?thesis
      by (auto simp: pending_def split: if_splits)
  next
    case (add rq w env r al' d)
    note eff = al_add_effect [OF al add(2)]
    then have "{q. is_paired al' q} = insert w {q. is_paired (sv_allowlist st) q}" by auto
    then have "length (al_list al') \<le> Suc (length (al_list (sv_allowlist st)))"
      using eff al by (simp add: al_length card_insert_if)
    then show ?thesis using add by (auto simp: pending_def)
  next
    case (remove rq w env r al' d)
    note eff = al_remove_effect [OF al remove(3)]
    then have "length (al_list al') \<le> length (al_list (sv_allowlist st))" by (intro shrunk_length [OF al]) auto
    then show ?thesis using remove by (auto simp: pending_def)
  next
    case (handler rq w env r)
    from run_handler_local [OF assms(1) handler(2)] handler show ?thesis by (auto simp: pending_def)
  qed (auto simp: pending_def split: if_splits)
qed

lemma sys_step_pays:
  assumes "system_ok dir sy"
  shows "pair_credit (snd (sys_step S sy e)) \<le> pair_credit sy + page_gain sy e"
proof -
  have ok: "server_ok (sy_server sy)" "in_dir dir (sy_server sy)" using assms by (simp_all add: system_ok_def)
  show ?thesis
  proof (cases rule: sys_step_cases [of e S sy])
    case (arrive rq w env)
    then show ?thesis by (auto simp: pair_credit_def pending_def)
  next
    case (move j st)
    from job_step_pays [OF ok(1) move(2)] move show ?thesis by (simp add: pair_credit_def)
  next
    case send
    then show ?thesis by (auto simp: pair_credit_def pending_def)
  next
    case (page now rnd p st)
    let ?pm = "sv_pairing (sy_server sy)" and ?A = "su_app S"
    obtain p' pm where p: "payload_at (ap_crypto ?A) rnd now (ap_server_pubkey ?A) (relays (ap_config ?A)) ?pm = (p', pm)"
      by fastforce
    have "unused_credit pm \<le> unused_credit ?pm + (if secret_live now ?pm then 0 else 1)"
      using pm_step_success [of "ap_crypto ?A" ?pm "Show now rnd (ap_server_pubkey ?A) (relays (ap_config ?A))"] p by simp
    moreover have "st = sy_server sy\<lparr>sv_pairing := pm\<rparr>" using page(2) p by (simp add: current_payload_def)
    ultimately show ?thesis using page by (simp add: pair_credit_def)
  next
    case (revoke io pk u st)
    note eff = revoke_keeps_ok [OF ok revoke(2)]
    then have "length (al_list (sv_allowlist st)) \<le> length (al_list (sv_allowlist (sy_server sy)))"
      using ok(1) by (intro shrunk_length) (auto simp: server_ok_def)
    then show ?thesis using eff revoke by (simp add: pair_credit_def)
  next
    case (watch te out r known st)
    from round_keeps [OF watch(2)] watch show ?thesis by (auto simp: pair_credit_def)
  qed (simp_all add: pair_credit_def)
qed

interpretation pairing_budget: budget_machine "sys_step S" "system_ok dir" pair_credit "\<lambda>_. 0" page_gain for S dir
  by unfold_locales (simp add: sys_step_pays)

fun is_page :: "sys_event \<Rightarrow> bool" where
  "is_page (Page now rnd) = True"
| "is_page _ = False"

lemma gains_pages: "gains (sys_step S) page_gain sy es \<le> length (filter is_page es)"
proof (induction es arbitrary: sy)
  case Nil
  then show ?case by simp
next
  case (Cons e es)
  have "page_gain sy e \<le> (if is_page e then 1 else 0)" by (cases e) simp_all
  then show ?case using Cons.IH [of "snd (sys_step S sy e)"] by (simp split: if_splits)
qed

section \<open>A system just booted\<close>

lemma boot_ok:
  assumes "boot lb var idio io fresh w dd = Inr (S, sy)"
    and "typed_codec bts_ok (lb_al_codec lb)" "typed_codec btm_ok (lb_ws_codec lb)"
      "typed_codec btm_ok (lb_rc_codec lb)"
  shows "\<exists>cfg. from_env var = Inr cfg \<and> system_ok (data_dir cfg) sy \<and>
    w_state_path (su_watcher S) = (data_dir cfg, STATE_FILE) \<and> sv_pairing (sy_server sy) = None \<and>
    sv_ratelimit (sy_server sy) = Map.empty \<and> sy_job sy = Idle \<and> sy_round sy = Resting"
proof -
  from assms(1) obtain cfg keys dirs d al ws rc known where
    b: "from_env var = Inr cfg" "load_or_create (lb_keys lb) idio (data_dir cfg) fresh dd = (Inr keys, dirs, d)"
      "al_load (lb_al_codec lb) io (data_dir cfg) d = Inr al" "ws_load (lb_ws_codec lb) io (data_dir cfg) d = Inr ws"
      "rc_load (lb_rc_codec lb) io (data_dir cfg) d = Inr rc"
    and S: "S = setup_of lb var cfg keys"
    and sy: "sy = \<lparr>sy_server = \<lparr>sv_allowlist = al, sv_watch = ws, sv_pairing = pm_new, sv_replay = rc,
        sv_ratelimit = Map.empty, sv_fs = d, sv_backend = (electrs_new (electrs_addr cfg), w)\<rparr>, sy_job = Idle, sy_round = Resting, sy_known = known\<rparr>"
    by (auto simp: boot_def split: sum.splits prod.splits)
  have al: "al_ok al" "al_path al = (data_dir cfg, ALLOWLIST_FILE)"
    using b(3) al_load_ok [OF assms(2)] by (auto simp: al_load_Inr)
  obtain m where m: "load_json (lb_ws_codec lb) [] io (data_dir cfg, WATCHSETS_FILE) d = Inr m"
      "ws = \<lparr>ws_path = (data_dir cfg, WATCHSETS_FILE), ws_sets = m\<rparr>"
    using b(4) by (auto simp: ws_load_def Let_def split: sum.splits)
  have "btm_ok m" by (rule load_json_wf [where good = btm_ok, OF assms(3) _ m(1)]) simp
  then have ws: "ws_ok ws" "ws_path ws = (data_dir cfg, WATCHSETS_FILE)" using m(2) by (simp_all add: ws_ok_def)
  obtain n where n: "load_json (lb_rc_codec lb) [] io (data_dir cfg, SEEN_FILE) d = Inr n"
      "rc = \<lparr>rc_path = (data_dir cfg, SEEN_FILE), rc_seen = n\<rparr>"
    using b(5) by (auto simp: rc_load_def Let_def split: sum.splits)
  have "btm_ok n" by (rule load_json_wf [where good = btm_ok, OF assms(4) _ n(1)]) simp
  then have rc: "rc_ok rc" "rc_path rc = (data_dir cfg, SEEN_FILE)" using n(2) by (simp_all add: rc_ok_def)
  show ?thesis
    using b(1) al ws rc
    by (simp add: sy S setup_of_def Let_def system_ok_def server_ok_def in_dir_def rl_ok_def pm_ok_def pm_new_def)
qed

text \<open>The watcher of a booted server and its state are what \<open>Watcher::new\<close> makes over the files.\<close>

lemma boot_makes_watcher:
  assumes "boot lb var idio io fresh w dd = Inr (S, sy)"
  shows "\<exists>cfg. from_env var = Inr cfg \<and>
    watcher_new (electrs_backend (lb_runtime lb) (lb_client lb)) (network cfg) (lb_chain lb) (lb_iter lb) (lb_state_codec lb)
      (lb_pk_from_hex lb) var (data_dir cfg) io (sv_fs (sy_server sy)) = Inr (su_watcher S, sy_known sy)"
proof -
  from assms obtain cfg keys where "from_env var = Inr cfg" "S = setup_of lb var cfg keys"
    "watcher_load (lb_state_codec lb) io (data_dir cfg) (sv_fs (sy_server sy)) = Inr (sy_known sy)"
    by (auto simp: boot_def split: sum.splits prod.splits)
  then show ?thesis by (intro exI [of _ cfg]) (simp add: setup_of_def watcher_new_def Let_def)
qed

text \<open>
  Requests can arrive before the watcher's state is loaded. The transport does not touch the watcher's
  file, so a watcher made after any steps of the transport is the one made at boot.
\<close>

fun transport_event :: "sys_event \<Rightarrow> bool" where
  "transport_event (Arrive rq w env) = True"
| "transport_event Move = True"
| "transport_event Send = True"
| "transport_event _ = False"

lemma state_file_not_transport: "(dir, STATE_FILE) \<notin> transport_files dir"
  by (simp add: transport_files_def ALLOWLIST_FILE_def WATCHSETS_FILE_def SEEN_FILE_def STATE_FILE_def with_extension_def)

lemma transport_run_frame:
  assumes "system_ok dir sy" "list_all transport_event es"
  shows "sv_fs (sy_server (snd (exec (sys_step S) sy es))) (dir, STATE_FILE) = sv_fs (sy_server sy) (dir, STATE_FILE)"
proof -
  let ?good = "\<lambda>s. system_ok dir s \<and> sv_fs (sy_server s) (dir, STATE_FILE) = sv_fs (sy_server sy) (dir, STATE_FILE)"
  have "?good (snd (sys_step S s e))" if good: "?good s" and e: "transport_event e" for s e
  proof -
    have "sv_fs (sy_server (snd (sys_step S s e))) (dir, STATE_FILE) = sv_fs (sy_server s) (dir, STATE_FILE)"
    proof (cases rule: sys_step_cases [of e S s])
      case (move j st)
      have "in_dir dir (sy_server s)" using good by (simp add: system_ok_def)
      from job_step_frame [OF this state_file_not_transport move(2)] move(3) show ?thesis by simp
    qed (use e in simp_all)
    then show ?thesis using good sys_step_ok [of dir s S e] by simp
  qed
  then have "?good (snd (exec (sys_step S) sy es))"
    by (intro exec_keeps [where good = ?good]) (use assms in \<open>auto simp: list_all_iff\<close>)
  then show ?thesis ..
qed

lemma late_watcher_same:
  assumes "boot lb var idio io fresh w dd = Inr (S, sy)" "system_ok dir sy" "list_all transport_event es"
  shows "\<exists>cfg. from_env var = Inr cfg \<and> (data_dir cfg = dir \<longrightarrow>
    watcher_new (electrs_backend (lb_runtime lb) (lb_client lb)) (network cfg) (lb_chain lb) (lb_iter lb) (lb_state_codec lb)
      (lb_pk_from_hex lb) var dir io (sv_fs (sy_server (snd (exec (sys_step S) sy es)))) = Inr (su_watcher S, sy_known sy))"
proof -
  have "watcher_load c io dir (sv_fs (sy_server (snd (exec (sys_step S) sy es)))) = watcher_load c io dir (sv_fs (sy_server sy))"
    for c :: "wallet_state codec"
    unfolding watcher_load_def by (rule load_json_cong) (rule transport_run_frame [OF assms(2,3)])
  then show ?thesis using boot_makes_watcher [OF assms(1)] unfolding watcher_new_def by auto
qed

text \<open>Where a booted server keeps its files does not depend on what they hold.\<close>

lemma boot_paths:
  assumes "boot lb var idio io fresh w dd = Inr (S, sy)"
  shows "\<exists>cfg. from_env var = Inr cfg \<and> in_dir (data_dir cfg) (sy_server sy) \<and>
    w_state_path (su_watcher S) = (data_dir cfg, STATE_FILE)"
  using assms
  by (auto simp: boot_def setup_of_def in_dir_def al_load_Inr ws_load_def rc_load_def Let_def split: sum.splits prod.splits)

lemma boot_keys:
  assumes "boot lb var idio io fresh w (dirs, d) = Inr (S, sy)"
  shows "\<exists>cfg k dirs'. from_env var = Inr cfg \<and> ap_server_pubkey (su_app S) = lb_pubkey_hex lb k \<and>
    load_or_create (lb_keys lb) idio (data_dir cfg) fresh (dirs, d) = (Inr k, dirs', sv_fs (sy_server sy))"
  using assms by (auto simp: boot_def setup_of_def Let_def split: sum.splits prod.splits)

section \<open>A sample installation\<close>

definition sample_libs :: "(string, unit, bool, nat) libs" where
  "sample_libs =
     \<lparr>lb_keys = sample_keys, lb_pubkey_hex = (\<lambda>k. if k then ''a1a1'' else ''b2b2''), lb_chain = sample_lib,
      lb_crypto = toy_crypto, lb_order = id_order, lb_iter = id, lb_from_str = (\<lambda>_. None), lb_uuid_ok = (\<lambda>_. True),
      lb_pk_from_hex = Some, lb_al_codec = sample_codec [''aa''], lb_ws_codec = sample_codec [], lb_rc_codec = sample_codec [],
      lb_state_codec = sample_codec [], lb_runtime = clock_runtime, lb_client = silent_client\<rparr>"

lemma sample_libs_codecs:
  "typed_codec bts_ok (lb_al_codec sample_libs)" "typed_codec btm_ok (lb_ws_codec sample_libs)"
  "typed_codec btm_ok (lb_rc_codec sample_libs)"
  by (simp_all add: sample_libs_def sample_codec_typed bts_ok_def)

lemma sample_boot:
  obtains S sy where "boot sample_libs Map.empty id_fine io_fine True 7 (Map.empty, Map.empty) = Inr (S, sy)"
    "al_list (sv_allowlist (sy_server sy)) = []" "sv_ratelimit (sy_server sy) = Map.empty"
    "sv_replay (sy_server sy) = \<lparr>rc_path = (''./data'', SEEN_FILE), rc_seen = []\<rparr>"
    "ap_server_pubkey (su_app S) = ''a1a1''"
    "\<exists>S2 sy2. boot sample_libs Map.empty id_fine io_fine False 9 (Map.empty, sv_fs (sy_server sy)) = Inr (S2, sy2)"
    "ws_sets (sv_watch (sy_server sy)) = []"
proof -
  have "\<exists>S sy. boot sample_libs Map.empty id_fine io_fine True 7 (Map.empty, Map.empty) = Inr (S, sy) \<and>
    al_list (sv_allowlist (sy_server sy)) = [] \<and> sv_ratelimit (sy_server sy) = Map.empty \<and>
    sv_replay (sy_server sy) = \<lparr>rc_path = (''./data'', SEEN_FILE), rc_seen = []\<rparr> \<and> ap_server_pubkey (su_app S) = ''a1a1'' \<and>
    (\<exists>S2 sy2. boot sample_libs Map.empty id_fine io_fine False 9 (Map.empty, sv_fs (sy_server sy)) = Inr (S2, sy2)) \<and>
    ws_sets (sv_watch (sy_server sy)) = []"
    by (simp add: boot_def from_env_def load_or_create_def id_fine_def io_fine_def read_to_string_def write_secret_def
        sample_libs_def sample_keys_def al_load_def ws_load_def rc_load_def watcher_load_def load_json_def Let_def
        ALLOWLIST_FILE_def WATCHSETS_FILE_def SEEN_FILE_def STATE_FILE_def KEY_FILE_def setup_of_def al_list_def
        sample_trim)
  with that show thesis by blast
qed

definition sample_installation :: "(string, unit, usize) installation" where
  "sample_installation =
     \<lparr>su_app = \<lparr>ap_config = \<lparr>data_dir = ''/data'', electrs_addr = ''h:1'', relays = [], http_port = 8080, network = Bitcoin\<rparr>,
        ap_server_pubkey = ''a1a1'', ap_crypto = toy_crypto, ap_al_codec = sample_codec [''aa''],
        ap_preflight = (\<lambda>s. (Inr (), s))\<rparr>,
      su_transport = sample_transport sample_handlers, su_watcher = sample_watcher\<rparr>"

definition sample_system :: "usize system" where
  "sample_system = \<lparr>sy_server = sample_server 100, sy_job = Idle, sy_round = Resting, sy_known = [(''aa'', [])]\<rparr>"

lemma sample_system_ok: "system_ok ''/data'' sample_system"
  by (simp add: sample_system_def system_ok_def sample_server_ok sample_in_dir)

text \<open>A request with an unknown id from a sender without a bucket gets to the allowlist.\<close>

lemma fresh_request_admitted:
  assumes "rc_ok (sv_replay st)" "live_entry (sv_replay st) (env_id env) (rq_now rq) = None" "sv_ratelimit st w = None"
  shows "\<exists>rc d rl. job_step T (Busy Received rq w env, st) = (Busy Accepted rq w env, st\<lparr>sv_replay := rc, sv_fs := d\<rparr>) \<and>
    job_step T (Busy Accepted rq w env, st\<lparr>sv_replay := rc, sv_fs := d\<rparr>) =
      (Busy Admitted rq w env, st\<lparr>sv_replay := rc, sv_fs := d, sv_ratelimit := rl\<rparr>)"
proof -
  obtain b rc d where c: "check_and_insert (tr_rc_codec T) (rq_io_replay rq) (env_id env) (rq_now rq) (sv_replay st) (sv_fs st) = (b, rc, d)"
    by (metis prod_cases3)
  have "b" using check_result [OF assms(1)] assms(2) c by (metis fst_conv)
  moreover obtain ok rl where a: "allow w (rq_now rq) (sv_ratelimit st) = (ok, rl)" by fastforce
  moreover have "ok" using fresh_sender_allowed [of "sv_ratelimit st" w "rq_now rq"] assms(3) a by simp
  ultimately show ?thesis using c by auto
qed

lemma sample_request_fresh:
  "rc_ok (sv_replay (sample_server b))" "live_entry (sv_replay (sample_server b)) ''nope'' now = None"
  "sv_ratelimit (sample_server b) w = None"
  using sample_server_ok [of b] by (simp_all add: server_ok_def live_entry_def sample_server_def sample_rc_def)

lemma sample_admitted:
  assumes "env_id env = ''nope''"
  obtains rc d rl where
    "job_step T (Busy Received sample_rq w env, sample_server b) =
       (Busy Accepted sample_rq w env, (sample_server b)\<lparr>sv_replay := rc, sv_fs := d\<rparr>)"
    "job_step T (Busy Accepted sample_rq w env, (sample_server b)\<lparr>sv_replay := rc, sv_fs := d\<rparr>) =
       (Busy Admitted sample_rq w env, (sample_server b)\<lparr>sv_replay := rc, sv_fs := d, sv_ratelimit := rl\<rparr>)"
  using fresh_request_admitted [of "sample_server b" env sample_rq w T] sample_request_fresh assms by metis

text \<open>A known wallet with new transactions: two notifications.\<close>

lemma sample_news:
  "\<exists>out known d b. tick_wallet sample_watcher sample_te ''aa'' [''bc1a''] ([(''aa'', [])], f, 100) = ((Ret (Inr ()), out), known, d, b) \<and>
     (\<exists>n \<in> set out. nt_wallet n = ''aa'')"
  by (simp add: tick_wallet_def Let_def watched_def sample_watcher_def sample_lib_def parse_address_def map_filter_simps
      chunks.simps BATCH_def sample_backend_def scan_entry_def i32_max0_def sample_chars
      diff_def is_news_def send_deltas_def notify_def)

end
