(* ===== verification/Files.thy ===== *)
theory Files
  imports SystemRuns
begin

text \<open>
  The four JSON files of the data directory over a run: every step of every task either leaves a store's file
  alone or replaces it by the complete text of a value, whatever system calls fail on the way. So a later
  boot can always read them: no pattern of failures locks the server out of its own data.
\<close>

section \<open>What one operation may do to the files\<close>

text \<open>
  An operation on the store at \<open>p\<close> touches that file and its temporary file only, and the file afterwards
  holds what it held or a text that the store can read.
\<close>

definition replaces_at :: "path \<Rightarrow> (string \<Rightarrow> bool) \<Rightarrow> fs \<Rightarrow> fs \<Rightarrow> bool" where
  "replaces_at p good d d' \<longleftrightarrow>
     (\<forall>q. q \<noteq> p \<longrightarrow> q \<noteq> with_extension p ''tmp'' \<longrightarrow> d' q = d q) \<and>
     (d' p = d p \<or> (\<exists>f. d' p = Some f \<and> good (content f)))"

definition readable :: "'v codec \<Rightarrow> string \<Rightarrow> bool" where
  "readable c s \<longleftrightarrow> dec c s \<noteq> None"

text \<open>What a best-effort write needs of its codec: that its texts can be read, to whatever value.\<close>

definition rereads :: "'v codec \<Rightarrow> bool" where
  "rereads c \<longleftrightarrow> (\<forall>v s. enc c v = Some s \<longrightarrow> readable c s)"

lemma codec_ok_rereads: "codec_ok c \<Longrightarrow> rereads c"
  by (simp add: rereads_def codec_ok_def readable_def)

lemma state_codec_rereads: "state_codec_ok c \<Longrightarrow> rereads c"
  by (fastforce simp: rereads_def state_codec_ok_def readable_def)

lemma replaces_refl [simp]: "replaces_at p good d d"
  by (simp add: replaces_at_def)

lemma write_json_replaces:
  assumes "codec_ok c" "proper_target p"
  shows "replaces_at p (readable c) d (snd (write_json_atomic c io p v d))"
proof -
  obtain r d' where w: "write_json_atomic c io p v d = (r, d')" by fastforce
  have "d' p = d p \<or> (\<exists>f. d' p = Some f \<and> readable c (content f))"
  proof (cases r)
    case (Inl e)
    with write_json_err [of c io p v d e d'] assms(2) w show ?thesis by simp
  next
    case (Inr u)
    with w assms(2) obtain s where "enc c v = Some s" "d' p = Some \<lparr>content = s, mode = 384\<rparr>" by (auto elim: write_json_ok)
    then show ?thesis using assms(1) by (simp add: codec_ok_def readable_def)
  qed
  then show ?thesis using write_json_frame [of _ p c io v d] w by (simp add: replaces_at_def)
qed

lemma persist_replaces:
  assumes "rereads c" "proper_target p"
  shows "replaces_at p (readable c) d (snd (persist_best_effort c io p v d))"
proof -
  obtain b d' where w: "persist_best_effort c io p v d = (b, d')" by fastforce
  have "d' p = d p \<or> (\<exists>f. d' p = Some f \<and> readable c (content f))"
  proof (cases b)
    case False
    with persist_err [of c io p v d d'] assms(2) w show ?thesis by simp
  next
    case True
    with w assms(2) obtain s m where "enc c v = Some s" "d' p = Some \<lparr>content = s, mode = m\<rparr>" by (auto elim: persist_ok)
    then show ?thesis using assms(1) by (simp add: rereads_def)
  qed
  then show ?thesis using persist_frame [of _ p c io v d] w by (simp add: replaces_at_def)
qed

lemma al_add_replaces:
  "codec_ok c \<Longrightarrow> proper_target (al_path al) \<Longrightarrow> al_add c io k al d = (r, al', d') \<Longrightarrow>
     replaces_at (al_path al) (readable c) d d'"
  using write_json_replaces [of c "al_path al" d io "insort_insert k (al_wallets al)"]
  by (auto simp: al_add_def Let_def split: prod.splits)

lemma al_remove_replaces:
  "codec_ok c \<Longrightarrow> proper_target (al_path al) \<Longrightarrow> al_remove c io k al d = (r, al', d') \<Longrightarrow>
     replaces_at (al_path al) (readable c) d d'"
  using write_json_replaces [of c "al_path al" d io "remove1 k (al_wallets al)"]
  by (auto simp: al_remove_def Let_def split: prod.splits sum.splits if_splits)

lemma ws_replace_replaces:
  "codec_ok c \<Longrightarrow> proper_target (ws_path ws) \<Longrightarrow> ws_replace c io k xs ws d = (r, ws', d') \<Longrightarrow>
     replaces_at (ws_path ws) (readable c) d d'"
  using write_json_replaces [of c "ws_path ws" d io "if xs = [] then btm_remove k (ws_sets ws) else btm_insert k xs (ws_sets ws)"]
  by (auto simp: ws_replace_def Let_def split: prod.splits sum.splits)

lemma ws_remove_replaces:
  "codec_ok c \<Longrightarrow> proper_target (ws_path ws) \<Longrightarrow> ws_remove_wallet c io k ws d = (r, ws', d') \<Longrightarrow>
     replaces_at (ws_path ws) (readable c) d d'"
  using write_json_replaces [of c "ws_path ws" d io "btm_remove k (ws_sets ws)"]
  by (auto simp: ws_remove_wallet_def Let_def split: prod.splits if_splits)

lemma check_replaces:
  "codec_ok c \<Longrightarrow> proper_target (rc_path rc) \<Longrightarrow> check_and_insert c io i now rc d = (b, rc', d') \<Longrightarrow>
     replaces_at (rc_path rc) (readable c) d d'"
  using persist_replaces [OF codec_ok_rereads, of c "rc_path rc" d io]
  by (auto simp: check_and_insert_def Let_def split: if_splits)

lemma persist_state_replaces:
  "rereads (w_codec W) \<Longrightarrow> proper_target (w_state_path W) \<Longrightarrow>
     replaces_at (w_state_path W) (readable (w_codec W)) d (persist_state W io state d)"
  by (simp add: persist_state_def persist_replaces)

text \<open>Of the handlers only one writes, and only the watch sets.\<close>

lemma handle_writes:
  assumes "handle H io sender env (s, ws, d) = (r, s', ws', d')"
  shows "(ws' = ws \<and> d' = d) \<or> (\<exists>xs y. ws_replace (hd_codec H) io sender xs ws d = (y, ws', d'))"
  using assms by (auto simp: handle_def on_backend_def watch_addresses_def split: prod.splits sum.splits if_splits)

lemma round_writes:
  assumes "rereads (w_codec W)" "proper_target (w_state_path W)"
    and "round_step W te (r, known, st) = (out, r', known', st')"
  shows "replaces_at (w_state_path W) (readable (w_codec W)) (sv_fs st) (sv_fs st')"
proof -
  note p = persist_state_replaces [OF assms(1,2)]
  show ?thesis
    using assms(3)
  proof (cases "(W, te, r, known, st)" rule: round_step.cases)
    case (4 W te snapshot wallet addrs rest known st)
    then show ?thesis
      using assms(3) p by (auto simp: tick_wallet_def Let_def split: if_splits prod.splits run.splits sum.splits)
  qed (use assms(3) p in \<open>auto simp: Let_def\<close>)
qed

section \<open>The directory stays readable\<close>

definition DATA_FILES :: "string list" where
  "DATA_FILES = [ALLOWLIST_FILE, WATCHSETS_FILE, SEEN_FILE, STATE_FILE]"

text \<open>Which texts the loader of each file accepts.\<close>

definition accepts :: "('a, 't, 'k, 'w) libs \<Rightarrow> string \<Rightarrow> string \<Rightarrow> bool" where
  "accepts lb f =
     (if f = ALLOWLIST_FILE then readable (lb_al_codec lb)
      else if f = WATCHSETS_FILE then readable (lb_ws_codec lb)
      else if f = SEEN_FILE then readable (lb_rc_codec lb)
      else readable (lb_state_codec lb))"

definition data_ok :: "('a, 't, 'k, 'w) libs \<Rightarrow> string \<Rightarrow> fs \<Rightarrow> bool" where
  "data_ok lb dir d \<longleftrightarrow> (\<forall>f \<in> set DATA_FILES. \<forall>x. d (dir, f) = Some x \<longrightarrow> accepts lb f (content x))"

lemma file_names_distinct: "distinct DATA_FILES"
  by (simp add: DATA_FILES_def ALLOWLIST_FILE_def WATCHSETS_FILE_def SEEN_FILE_def STATE_FILE_def)

lemma accepts_simps [simp]:
  "accepts lb ALLOWLIST_FILE = readable (lb_al_codec lb)" "accepts lb WATCHSETS_FILE = readable (lb_ws_codec lb)"
  "accepts lb SEEN_FILE = readable (lb_rc_codec lb)" "accepts lb STATE_FILE = readable (lb_state_codec lb)"
  using file_names_distinct by (auto simp: accepts_def DATA_FILES_def)

lemma json_not_tmp: "f \<in> set DATA_FILES \<Longrightarrow> (dir, f) \<noteq> with_extension (dir', g) ''tmp''"
proof -
  assume "f \<in> set DATA_FILES"
  then have "last f = CHR ''n''"
    by (auto simp: DATA_FILES_def ALLOWLIST_FILE_def WATCHSETS_FILE_def SEEN_FILE_def STATE_FILE_def)
  moreover have "last (file_stem g @ ''.'' @ ''tmp'') = CHR ''p''" by simp
  ultimately show ?thesis by (auto simp: with_extension_def)
qed

lemma data_file_proper: "f \<in> set DATA_FILES \<Longrightarrow> proper_target (dir, f)"
  using json_not_tmp [of f dir dir f] by (auto simp: proper_target_def)

lemma replaced_data_ok:
  assumes "data_ok lb dir d" "replaces_at (dir, f) (accepts lb f) d d'" "f \<in> set DATA_FILES"
  shows "data_ok lb dir d'"
  unfolding data_ok_def
proof (intro ballI allI impI)
  fix g x
  assume g: "g \<in> set DATA_FILES" "d' (dir, g) = Some x"
  show "accepts lb g (content x)"
  proof (cases "g = f")
    case True
    then show ?thesis using assms g by (auto simp: replaces_at_def data_ok_def)
  next
    case False
    then have "d' (dir, g) = d (dir, g)" using assms(2) json_not_tmp [OF g(1)] by (simp add: replaces_at_def)
    then show ?thesis using assms(1) g by (simp add: data_ok_def)
  qed
qed

text \<open>The parts of an installation write with the codecs of the libraries.\<close>

definition built_with :: "('a, 't, 'k, 'w) libs \<Rightarrow> string \<Rightarrow> ('a, 't, 's) installation \<Rightarrow> bool" where
  "built_with lb dir S \<longleftrightarrow>
     tr_al_codec (su_transport S) = lb_al_codec lb \<and> ap_al_codec (su_app S) = lb_al_codec lb \<and>
     hd_codec (tr_handlers (su_transport S)) = lb_ws_codec lb \<and> tr_rc_codec (su_transport S) = lb_rc_codec lb \<and>
     w_codec (su_watcher S) = lb_state_codec lb \<and> w_state_path (su_watcher S) = (dir, STATE_FILE)"

text \<open>
  The codecs are those of their types: what they write they read back, the hash tables of the watcher's state in any
  order, and what they read of a \<open>BTreeSet\<close> or \<open>BTreeMap\<close>, whoever wrote the file, is sorted without duplicates.
\<close>

definition codecs_ok :: "('a, 't, 'k, 'w) libs \<Rightarrow> bool" where
  "codecs_ok lb \<longleftrightarrow> typed_codec bts_ok (lb_al_codec lb) \<and>
     typed_codec btm_ok (lb_ws_codec lb) \<and>
     typed_codec btm_ok (lb_rc_codec lb) \<and> state_codec_ok (lb_state_codec lb)"

lemma codecs_okD:
  "codecs_ok lb \<Longrightarrow> codec_ok (lb_al_codec lb)" "codecs_ok lb \<Longrightarrow> codec_ok (lb_ws_codec lb)"
  "codecs_ok lb \<Longrightarrow> codec_ok (lb_rc_codec lb)" "codecs_ok lb \<Longrightarrow> rereads (lb_state_codec lb)"
  by (simp_all add: codecs_ok_def typed_codec_def state_codec_rereads)

lemma store_rewrites_data_ok:
  assumes "data_ok lb dir d" "f \<in> set DATA_FILES" "replaces_at p (accepts lb f) d d'" "p = (dir, f)"
  shows "data_ok lb dir d'"
  using replaced_data_ok [OF assms(1) _ assms(2)] assms(3,4) by simp

lemma in_DATA_FILES [simp]:
  "ALLOWLIST_FILE \<in> set DATA_FILES" "WATCHSETS_FILE \<in> set DATA_FILES" "SEEN_FILE \<in> set DATA_FILES" "STATE_FILE \<in> set DATA_FILES"
  by (simp_all add: DATA_FILES_def)

lemma job_step_data_ok:
  assumes "codecs_ok lb" "tr_al_codec T = lb_al_codec lb" "hd_codec (tr_handlers T) = lb_ws_codec lb"
      "tr_rc_codec T = lb_rc_codec lb"
    and "in_dir dir st" "data_ok lb dir (sv_fs st)" "job_step T (j, st) = (j', st')"
  shows "data_ok lb dir (sv_fs st')"
proof -
  note ok = codecs_okD [OF assms(1)]
  have paths: "al_path (sv_allowlist st) = (dir, ALLOWLIST_FILE)" "ws_path (sv_watch st) = (dir, WATCHSETS_FILE)"
      "rc_path (sv_replay st) = (dir, SEEN_FILE)" using assms(5) by (simp_all add: in_dir_def)
  note keep = store_rewrites_data_ok [OF assms(6)] and proper = data_file_proper
  show ?thesis
    using assms(7)
  proof (cases rule: job_step_cases)
    case (replay rq w env b rc d)
    from check_replaces [OF _ _ replay(2)] ok(3) paths have "replaces_at (dir, SEEN_FILE) (accepts lb SEEN_FILE) (sv_fs st) d"
      by (simp add: assms(4) proper)
    from keep [OF _ this] replay(4) show ?thesis by simp
  next
    case (add rq w env r al d)
    from al_add_replaces [OF _ _ add(2)] ok(1) paths have "replaces_at (dir, ALLOWLIST_FILE) (accepts lb ALLOWLIST_FILE) (sv_fs st) d"
      by (simp add: assms(2) proper)
    from keep [OF _ this] add(4) show ?thesis by simp
  next
    case (remove rq w env r al d)
    from al_remove_replaces [OF _ _ remove(3)] ok(1) paths have "replaces_at (dir, ALLOWLIST_FILE) (accepts lb ALLOWLIST_FILE) (sv_fs st) d"
      by (simp add: assms(2) proper)
    from keep [OF _ this] remove(5) show ?thesis by simp
  next
    case (handler rq w env r)
    obtain x s ws d where h: "handle (tr_handlers T) (rq_io_watch rq) w env (sv_backend st, sv_watch st, sv_fs st) = (x, s, ws, d)"
      by (metis surj_pair)
    then have st': "sv_fs st' = d" using handler(2) by (auto simp: run_handler_def)
    from handle_writes [OF h] show ?thesis
    proof
      assume "\<exists>xs y. ws_replace (hd_codec (tr_handlers T)) (rq_io_watch rq) w xs (sv_watch st) (sv_fs st) = (y, ws, d)"
      then obtain xs y where "ws_replace (lb_ws_codec lb) (rq_io_watch rq) w xs (sv_watch st) (sv_fs st) = (y, ws, d)"
        using assms(3) by auto
      from ws_replace_replaces [OF _ _ this] ok(2) paths
      have "replaces_at (dir, WATCHSETS_FILE) (accepts lb WATCHSETS_FILE) (sv_fs st) d" by (simp add: proper)
      from keep [OF _ this] show ?thesis by (simp add: st')
    qed (use assms(6) st' in simp)
  next
    case (unlist rq w env r ws d)
    from ws_remove_replaces [OF _ _ unlist(2)] ok(2) paths
    have "replaces_at (dir, WATCHSETS_FILE) (accepts lb WATCHSETS_FILE) (sv_fs st) d" by (simp add: assms(3) proper)
    from keep [OF _ this] unlist(4) show ?thesis by simp
  qed (use assms(6) in simp_all)
qed

lemma sys_step_data_ok:
  assumes "codecs_ok lb" "built_with lb dir S" "system_ok dir sy" "data_ok lb dir (sv_fs (sy_server sy))"
  shows "data_ok lb dir (sv_fs (sy_server (snd (sys_step S sy e))))"
proof -
  note ok = codecs_okD [OF assms(1)] and built = assms(2) [unfolded built_with_def]
  have dir: "in_dir dir (sy_server sy)" using assms(3) by (simp add: system_ok_def)
  show ?thesis
  proof (cases rule: sys_step_cases [of e S sy])
    case (move j st)
    from job_step_data_ok [OF assms(1) _ _ _ dir assms(4) move(2)] built move(3) show ?thesis by simp
  next
    case (page now rnd p st)
    have "sv_fs st = sv_fs (sy_server sy)" using page(2) by (auto simp: current_payload_def split: prod.splits)
    then show ?thesis using assms(4) page(3) by simp
  next
    case (revoke io pk u st)
    obtain x al d where r: "al_remove (lb_al_codec lb) io pk (sv_allowlist (sy_server sy)) (sv_fs (sy_server sy)) = (x, al, d)"
      by (metis prod_cases3)
    then have st: "sv_fs st = d" using revoke(2) built by (auto simp: revoke_wallet_def)
    have p: "al_path (sv_allowlist (sy_server sy)) = (dir, ALLOWLIST_FILE)" using dir by (simp add: in_dir_def)
    from al_remove_replaces [OF ok(1) _ r] p have "replaces_at (dir, ALLOWLIST_FILE) (accepts lb ALLOWLIST_FILE) (sv_fs (sy_server sy)) d"
      by (simp add: data_file_proper)
    from replaced_data_ok [OF assms(4) this] st revoke(3) show ?thesis by simp
  next
    case (watch te out r known st)
    from round_writes [OF _ _ watch(2)] ok(4) built
    have "replaces_at (dir, STATE_FILE) (accepts lb STATE_FILE) (sv_fs (sy_server sy)) (sv_fs st)" by (simp add: data_file_proper)
    from replaced_data_ok [OF assms(4) this] watch(3) show ?thesis by simp
  qed (use assms(4) in simp_all)
qed

lemma run_data_ok:
  assumes "codecs_ok lb" "built_with lb dir S" "system_ok dir sy" "data_ok lb dir (sv_fs (sy_server sy))"
  shows "data_ok lb dir (sv_fs (sy_server (snd (exec (sys_step S) sy es))))"
proof -
  have "system_ok dir (snd (exec (sys_step S) sy es)) \<and>
      data_ok lb dir (sv_fs (sy_server (snd (exec (sys_step S) sy es))))"
    by (rule exec_keeps [where good = "\<lambda>s. system_ok dir s \<and> data_ok lb dir (sv_fs (sy_server s))"])
      (use assms in \<open>auto simp: sys_step_ok intro: sys_step_data_ok\<close>)
  then show ?thesis ..
qed

end
