(* ===== verification/Relay.thy ===== *)
theory Relay
  imports Transport Watcher
begin

text \<open>
  What travels over the relays: \<open>send_response\<close> and the loop of \<open>Transport::run\<close> (\<open>transport.rs\<close>), and the
  wrapping in \<open>Watcher::notify\<close> (\<open>watcher.rs\<close>). Gift wraps (NIP-59) and JSON text are the work of nostr and
  \<open>serde_json\<close>: parameters, with the laws the code relies on. A key pair is named by its public key.
\<close>

section \<open>Gift wraps and text\<close>

text \<open>
  Wrapping can fail and is randomised; its arguments are the random choice, the sender, the recipient, the
  kind and the content. Opening takes the recipient's keys.
\<close>

record 'ev nostr =
  ns_wrap :: "nat \<Rightarrow> string \<Rightarrow> string \<Rightarrow> 16 word \<Rightarrow> string \<Rightarrow> 'ev option"
  ns_open :: "string \<Rightarrow> 'ev \<Rightarrow> gift option"
  ns_is_wrap :: "'ev \<Rightarrow> bool"

record text_lib =
  tx_print :: "json \<Rightarrow> string"
  tx_parse :: "string \<Rightarrow> json option"

text \<open>A wrap opens for its recipient to what was wrapped; a value that is printed reads back normalised.\<close>

definition nostr_ok :: "'ev nostr \<Rightarrow> bool" where
  "nostr_ok N \<longleftrightarrow> (\<forall>rnd s r k c ev. ns_wrap N rnd s r k c = Some ev \<longrightarrow>
     ns_is_wrap N ev \<and> ns_open N r ev = Some \<lparr>gf_sender = s, gf_kind = k, gf_content = c\<rparr>)"

definition text_ok :: "text_lib \<Rightarrow> bool" where
  "text_ok X \<longleftrightarrow> (\<forall>j. json_ok j \<longrightarrow> tx_parse X (tx_print X j) = Some (json_norm j))"

text \<open>Reading a request from a text is reading it from the value of the text.\<close>

definition request_text_ok :: "text_lib \<Rightarrow> (string \<Rightarrow> request_envelope option) \<Rightarrow> bool" where
  "request_text_ok X from_str \<longleftrightarrow> (\<forall>j. json_ok j \<longrightarrow> from_str (tx_print X j) = request_of_json (json_norm j))"

section \<open>The transport\<close>

text \<open>What the notification stream of the relay pool yields.\<close>

datatype 'ev notif = Event 'ev | Other

definition send_response :: "'ev nostr \<Rightarrow> text_lib \<Rightarrow> nat \<Rightarrow> string \<Rightarrow> string \<Rightarrow> json \<Rightarrow> 'ev option" where
  "send_response N X rnd server recipient resp = ns_wrap N rnd server recipient KIND_RESPONSE (tx_print X resp)"

text \<open>
  The loop of \<open>run\<close> over a stream, with the events it publishes. Only gift wraps are looked at; a response
  that cannot be wrapped is logged and dropped. A panic of a handler ends the loop.
\<close>

type_synonym 'ev arrival = "'ev notif \<times> req_env \<times> nat"

fun run_loop ::
    "('a, 't, 's) transport \<Rightarrow> 'ev nostr \<Rightarrow> text_lib \<Rightarrow> string \<Rightarrow> 'ev arrival list \<Rightarrow> 's server
       \<Rightarrow> (unit run \<times> 'ev list) \<times> 's server" where
  "run_loop T N X server [] st = ((Ret (), []), st)"
| "run_loop T N X server ((Other, rq, rnd) # as) st = run_loop T N X server as st"
| "run_loop T N X server ((Event ev, rq, rnd) # as) st =
     (if \<not> ns_is_wrap N ev then run_loop T N X server as st
      else
        (case handle_event T (ns_open N server) rq ev st of
           (Panic, st') \<Rightarrow> ((Panic, []), st')
         | (Ret None, st') \<Rightarrow> run_loop T N X server as st'
         | (Ret (Some (recipient, resp)), st') \<Rightarrow>
             (case run_loop T N X server as st' of
                ((r, out), st'') \<Rightarrow>
                  ((r, (case send_response N X rnd server recipient resp of None \<Rightarrow> [] | Some w \<Rightarrow> [w]) @ out), st''))))"

section \<open>The watcher\<close>

definition send_notification :: "'ev nostr \<Rightarrow> text_lib \<Rightarrow> nat \<Rightarrow> string \<Rightarrow> notification \<Rightarrow> 'ev option" where
  "send_notification N X rnd server n = ns_wrap N rnd server (nt_wallet n) KIND_NOTIFY (tx_print X (notify_json n))"

section \<open>Lemmas\<close>

lemma wrapped:
  assumes "nostr_ok N" "ns_wrap N rnd s r k c = Some ev"
  shows "ns_is_wrap N ev" "ns_open N r ev = Some \<lparr>gf_sender = s, gf_kind = k, gf_content = c\<rparr>"
  using assms unfolding nostr_ok_def by blast+

lemma handle_event_answer:
  assumes "handle_event T gw rq ev st = (Ret (Some (to, j)), st')"
  obtains g r where "gw ev = Some g" "gf_kind g = KIND_REQUEST" "to = gf_sender g" "j = response_to_json r"
    "parse_request (tr_from_str T) (tr_uuid_ok T) (gf_content g) = Inl (Some r) \<or>
     (\<exists>env. parse_request (tr_from_str T) (tr_uuid_ok T) (gf_content g) = Inr env \<and>
        route T rq (gf_sender g) env st = (Ret (Some r), st'))"
  using assms by (auto simp: handle_event_def split: option.splits sum.splits prod.splits run.splits if_splits)

lemma answer_wrapped:
  assumes "handle_event T (ns_open N server) rq ev st = (Ret (Some (to, j)), st1)" "send_response N X rnd server to j = Some w"
  shows "\<exists>g resp. ns_open N server ev = Some g \<and> gf_kind g = KIND_REQUEST \<and>
    ns_wrap N rnd server (gf_sender g) KIND_RESPONSE (tx_print X (response_to_json resp)) = Some w"
  using assms(1)
proof (rule handle_event_answer)
  fix g resp
  assume "ns_open N server ev = Some g" "gf_kind g = KIND_REQUEST" "to = gf_sender g" "j = response_to_json resp"
  then show ?thesis using assms(2) unfolding send_response_def by metis
qed

section \<open>Properties\<close>

text \<open>
  The transport answers and nothing else: every event that the loop publishes is the wrapping of a
  response for the sender of a gift that arrived in a gift wrap as a request, whatever arrives.
\<close>

theorem answers_go_to_senders:
  assumes "run_loop T N X server as st = ((r, out), st')" "w \<in> set out"
  shows "\<exists>ev rq rnd g resp. (Event ev, rq, rnd) \<in> set as \<and> ns_is_wrap N ev \<and> ns_open N server ev = Some g \<and>
    gf_kind g = KIND_REQUEST \<and>
    ns_wrap N rnd server (gf_sender g) KIND_RESPONSE (tx_print X (response_to_json resp)) = Some w"
  using assms
proof (induction T N X server as st arbitrary: r out st' rule: run_loop.induct)
  case (3 T N X server ev rq rnd as st)
  show ?case
  proof (cases "ns_is_wrap N ev")
    case False
    then show ?thesis using 3 by fastforce
  next
    case True
    obtain x st1 where h: "handle_event T (ns_open N server) rq ev st = (x, st1)" by fastforce
    show ?thesis
    proof (cases x)
      case Panic
      then show ?thesis using 3 True h by auto
    next
      case (Ret y)
      show ?thesis
      proof (cases y)
        case None
        then show ?thesis using 3(2) [OF _ h [symmetric] Ret] 3(4,5) True h Ret by fastforce
      next
        case (Some p)
        obtain to j where p: "p = (to, j)" by fastforce
        obtain r1 out1 st2 where rest: "run_loop T N X server as st1 = ((r1, out1), st2)" by (metis surj_pair)
        have o: "out = (case send_response N X rnd server to j of None \<Rightarrow> [] | Some w \<Rightarrow> [w]) @ out1"
          using 3(4) True h Ret Some p rest by simp
        show ?thesis
        proof (cases "w \<in> set out1")
          case True
          with 3(3) [OF _ h [symmetric] Ret Some [unfolded p] _ rest] \<open>ns_is_wrap N ev\<close> show ?thesis by fastforce
        next
          case False
          then have w: "send_response N X rnd server to j = Some w" using o 3(5) by (auto split: option.splits)
          from h Ret Some p have "handle_event T (ns_open N server) rq ev st = (Ret (Some (to, j)), st1)" by simp
          from answer_wrapped [OF this w] True show ?thesis by (metis list.set_intros(1))
        qed
      qed
    qed
  qed
qed fastforce+

end
