(* ===== verification/SampleText.thy ===== *)
theory SampleText
  imports Relay
begin

text \<open>
  A text for JSON values and gift wraps in the clear: concrete functions that satisfy the laws the
  development relies on (\<open>text_ok\<close>, \<open>request_text_ok\<close>, \<open>nostr_ok\<close>), for the witnesses. Nothing here models
  code of the repository.
\<close>

section \<open>Printing\<close>

definition bits_of :: "u64 \<Rightarrow> string" where
  "bits_of w = map (\<lambda>i. if bit w i then CHR ''1'' else CHR ''0'') [0..<64]"

definition of_bits :: "string \<Rightarrow> u64" where
  "of_bits s = horner_sum of_bool 2 (map (\<lambda>c. c = CHR ''1'') s)"

lemma of_bits_of [simp]: "of_bits (bits_of w) = w"
proof -
  have "map (\<lambda>c. c = CHR ''1'') (bits_of w) = map (bit w) [0..<64]" by (simp add: bits_of_def comp_def)
  moreover have "take_bit 64 w = w" by transfer simp
  ultimately show ?thesis by (simp add: of_bits_def horner_sum_bit_eq_take_bit)
qed

lemma length_bits_of [simp]: "length (bits_of w) = 64"
  by (simp add: bits_of_def)

fun print_number :: "json_number \<Rightarrow> string" where
  "print_number (PosInt w) = CHR ''p'' # bits_of w"
| "print_number (NegInt w) = CHR ''m'' # bits_of (ucast w)"
| "print_number (Flt w) = CHR ''f'' # bits_of w"

text \<open>Every element of a list comes after a comma, and a bracket ends the list.\<close>

definition print_list :: "string list \<Rightarrow> string" where
  "print_list ss = concat (map (Cons CHR '','') ss) @ ''.''"

definition print_string :: "string \<Rightarrow> string" where
  "print_string s = print_list (map (\<lambda>c. [c]) s)"

primrec toy_print :: "json \<Rightarrow> string" where
  "toy_print JNull = ''n''"
| "toy_print (JBool b) = (if b then ''1'' else ''0'')"
| "toy_print (JNumber n) = print_number n"
| "toy_print (JString s) = CHR ''s'' # print_string s"
| "toy_print (JArray xs) = CHR ''a'' # print_list (map toy_print xs)"
| "toy_print (JObject ms) = CHR ''o'' # print_list (map (\<lambda>p. print_string (fst p) @ snd p) (map (map_prod id toy_print) ms))"

section \<open>Parsing\<close>

fun read_list :: "(string \<Rightarrow> ('a \<times> string) option) \<Rightarrow> nat \<Rightarrow> string \<Rightarrow> ('a list \<times> string) option" where
  "read_list item 0 s = None"
| "read_list item (Suc n) [] = None"
| "read_list item (Suc n) (c # s) =
     (if c = CHR ''.'' then Some ([], s)
      else
        (case item s of
           None \<Rightarrow> None
         | Some (x, r) \<Rightarrow> map_option (\<lambda>(xs, r'). (x # xs, r')) (read_list item n r)))"

fun read_char :: "string \<Rightarrow> (char \<times> string) option" where
  "read_char [] = None"
| "read_char (c # s) = Some (c, s)"

definition read_string :: "string \<Rightarrow> (string \<times> string) option" where
  "read_string s = read_list read_char (Suc (length s)) s"

definition read_member :: "(string \<Rightarrow> ('a \<times> string) option) \<Rightarrow> string \<Rightarrow> ((string \<times> 'a) \<times> string) option" where
  "read_member item s =
     Option.bind (read_string s) (\<lambda>(k, r). map_option (\<lambda>(v, r'). ((k, v), r')) (item r))"

fun toy_read :: "nat \<Rightarrow> string \<Rightarrow> (json \<times> string) option" where
  "toy_read 0 s = None"
| "toy_read (Suc n) [] = None"
| "toy_read (Suc n) (c # s) =
     (if c = CHR ''n'' then Some (JNull, s)
      else if c = CHR ''1'' then Some (JBool True, s)
      else if c = CHR ''0'' then Some (JBool False, s)
      else if c = CHR ''p'' then Some (JNumber (PosInt (of_bits (take 64 s))), drop 64 s)
      else if c = CHR ''m'' then Some (JNumber (NegInt (ucast (of_bits (take 64 s)))), drop 64 s)
      else if c = CHR ''f'' then Some (JNumber (Flt (of_bits (take 64 s))), drop 64 s)
      else if c = CHR ''s'' then map_option (\<lambda>(x, r). (JString x, r)) (read_string s)
      else if c = CHR ''a'' then map_option (\<lambda>(xs, r). (JArray xs, r)) (read_list (toy_read n) (Suc (length s)) s)
      else map_option (\<lambda>(ms, r). (JObject ms, r)) (read_list (read_member (toy_read n)) (Suc (length s)) s))"

definition toy_text :: text_lib where
  "toy_text =
     \<lparr>tx_print = toy_print,
      tx_parse = (\<lambda>s. case toy_read (length s) s of Some (j, []) \<Rightarrow> Some (json_norm j) | _ \<Rightarrow> None)\<rparr>"

definition toy_from_str :: "string \<Rightarrow> request_envelope option" where
  "toy_from_str s = Option.bind (tx_parse toy_text s) request_of_json"

section \<open>Reading what was printed\<close>

lemma read_list_print:
  assumes "\<And>x r. x \<in> set xs \<Longrightarrow> item (f x @ r) = Some (g x, r)" "length xs < n"
  shows "read_list item n (print_list (map f xs) @ r) = Some (map g xs, r)"
  using assms
proof (induction xs arbitrary: n)
  case Nil
  then show ?case by (cases n) (simp_all add: print_list_def)
next
  case (Cons x xs)
  then obtain m where n: "n = Suc m" "length xs < m" by (cases n) auto
  have "read_list item m (print_list (map f xs) @ r) = Some (map g xs, r)" by (rule Cons.IH) (use Cons.prems n in auto)
  then show ?case using Cons.prems(1) [of x] by (simp add: print_list_def n(1))
qed

lemma length_print_list: "length ss < Suc (length (print_list ss @ r))"
  by (induction ss) (auto simp: print_list_def)

lemma read_string_print [simp]: "read_string (print_string s @ r) = Some (s, r)"
  using read_list_print [of s read_char "\<lambda>c. [c]" "\<lambda>c. c" "Suc (length (print_string s @ r))" r]
    length_print_list [of "map (\<lambda>c. [c]) s" r]
  by (simp add: read_string_def print_string_def)

lemma print_list_member: "s \<in> set ss \<Longrightarrow> length s < length (print_list ss)"
  by (induction ss) (auto simp: print_list_def)

lemma toy_read_print: "length (toy_print j) \<le> n \<Longrightarrow> toy_read n (toy_print j @ r) = Some (j, r)"
proof (induction j arbitrary: n r)
  case (JNumber x)
  then show ?case by (cases x; cases n) simp_all
next
  case (JArray xs)
  then obtain m where n: "n = Suc m" "length (print_list (map toy_print xs)) \<le> m" by (cases n) auto
  have "x \<in> set xs \<Longrightarrow> toy_read m (toy_print x @ r) = Some (x, r)" for x r
    using JArray.IH print_list_member [of "toy_print x" "map toy_print xs"] n(2) by fastforce
  from read_list_print [of xs "toy_read m" toy_print "\<lambda>x. x", OF this] length_print_list [of "map toy_print xs" r]
  show ?case by (simp add: n(1))
next
  case (JObject ms)
  let ?f = "\<lambda>p. print_string (fst p) @ toy_print (snd p)"
  obtain m where n: "n = Suc m" "length (print_list (map ?f ms)) \<le> m" using JObject.prems by (cases n) (auto simp: comp_def)
  have "p \<in> set ms \<Longrightarrow> read_member (toy_read m) (?f p @ r) = Some (p, r)" for p r
  proof -
    assume p: "p \<in> set ms"
    then have "length (toy_print (snd p)) \<le> m" using print_list_member [of "?f p" "map ?f ms"] n(2) by fastforce
    then have "toy_read m (toy_print (snd p) @ r) = Some (snd p, r)"
      using JObject.IH [of p "snd p"] p by (cases p) auto
    then show ?thesis by (simp add: read_member_def)
  qed
  from read_list_print [of ms "read_member (toy_read m)" ?f "\<lambda>p. p", OF this] length_print_list [of "map ?f ms" r]
  show ?case by (simp add: n(1) comp_def)
next
  case (JBool b)
  then show ?case by (cases n; cases b) simp_all
next
  case (JString s)
  then show ?case by (cases n) simp_all
next
  case JNull
  then show ?case by (cases n) simp_all
qed

lemma toy_text_ok: "text_ok toy_text"
  using toy_read_print [OF order_refl, of _ "[]"] by (simp add: text_ok_def toy_text_def)

lemma toy_request_text_ok: "request_text_ok toy_text toy_from_str"
  using toy_text_ok by (simp add: request_text_ok_def text_ok_def toy_from_str_def)

section \<open>Codecs for stored values\<close>

definition toy_codec :: "('v \<Rightarrow> json) \<Rightarrow> (json \<Rightarrow> 'v option) \<Rightarrow> ('v \<Rightarrow> bool) \<Rightarrow> 'v codec" where
  "toy_codec to of_json good =
     \<lparr>enc = (\<lambda>v. if good v then Some (toy_print (to v)) else None),
      dec = (\<lambda>s. case toy_read (length s) s of
               Some (j, []) \<Rightarrow> (case of_json j of None \<Rightarrow> None | Some v \<Rightarrow> if good v then Some v else None)
             | _ \<Rightarrow> None)\<rparr>"

lemma toy_codec_typed: "(\<And>v. of_json (to v) = Some v) \<Longrightarrow> typed_codec good (toy_codec to of_json good)"
  using toy_read_print [OF order_refl, of _ "[]"]
  by (auto simp: typed_codec_def codec_ok_def toy_codec_def split: option.splits prod.splits list.splits if_splits)

lemma toy_codec_total: "good v \<Longrightarrow> enc (toy_codec to of_json good) v \<noteq> None"
  by (simp add: toy_codec_def)

definition string_list :: "json \<Rightarrow> string list option" where
  "string_list j = (case as_array j of None \<Rightarrow> None | Some vs \<Rightarrow> Some (List.map_filter as_str vs))"

lemma string_list_array [simp]: "string_list (JArray (map JString ss)) = Some ss"
proof -
  have "List.map_filter as_str (map JString ss) = ss" by (induction ss) (simp_all add: List.map_filter_simps)
  then show ?thesis by (simp add: string_list_def)
qed

definition table_json :: "(string \<times> string list) list \<Rightarrow> json" where
  "table_json m = JObject (map (map_prod id (\<lambda>ss. JArray (map JString ss))) m)"

definition table_of :: "json \<Rightarrow> (string \<times> string list) list option" where
  "table_of j = (case j of
     JObject ms \<Rightarrow> Some (List.map_filter (\<lambda>p. map_option (Pair (fst p)) (string_list (snd p))) ms)
   | _ \<Rightarrow> None)"

lemma table_of_json [simp]: "table_of (table_json m) = Some m"
proof -
  have "List.map_filter (\<lambda>p. map_option (Pair (fst p)) (string_list (snd p)))
      (map (map_prod id (\<lambda>ss. JArray (map JString ss))) m) = m"
    by (induction m) (auto simp: List.map_filter_simps)
  then show ?thesis by (simp add: table_of_def table_json_def)
qed

section \<open>Gift wraps in the clear\<close>

type_synonym toy_event = "string \<times> gift"

definition toy_nostr :: "toy_event nostr" where
  "toy_nostr =
     \<lparr>ns_wrap = (\<lambda>rnd s r k c. Some (r, \<lparr>gf_sender = s, gf_kind = k, gf_content = c\<rparr>)),
      ns_open = (\<lambda>r ev. if fst ev = r then Some (snd ev) else None), ns_is_wrap = (\<lambda>ev. True)\<rparr>"

lemma toy_nostr_ok: "nostr_ok toy_nostr"
  by (simp add: nostr_ok_def toy_nostr_def)

end
