(* ===== verification/Restart.thy ===== *)
theory Restart
  imports Files SampleText
begin

text \<open>
  Memory and disk of the whole server: as long as the writes of the two stores work, what a restart would
  load is what the server has in memory, after every step of every task, whatever happens to the
  best-effort writes of the replay cache and the watcher.
\<close>

section \<open>Stores in step with their files\<close>

definition synced ::
    "string list codec \<Rightarrow> (string, string list) btree_map codec \<Rightarrow> io_env \<Rightarrow> string \<Rightarrow> 's server \<Rightarrow> bool" where
  "synced ca cw rio dir st \<longleftrightarrow> al_load ca rio dir (sv_fs st) = Inr (sv_allowlist st) \<and>
     ws_load cw rio dir (sv_fs st) = Inr (sv_watch st)"

text \<open>The codecs write every well-formed value, and the system calls of a write work.\<close>

definition total_codec :: "('v \<Rightarrow> bool) \<Rightarrow> 'v codec \<Rightarrow> bool" where
  "total_codec good c \<longleftrightarrow> typed_codec good c \<and> (\<forall>v. good v \<longrightarrow> enc c v \<noteq> None)"

definition writable :: "string list codec \<Rightarrow> (string, string list) btree_map codec \<Rightarrow> bool" where
  "writable ca cw \<longleftrightarrow> total_codec bts_ok ca \<and> total_codec btm_ok cw"

definition io_works :: "io_env \<Rightarrow> bool" where
  "io_works io \<longleftrightarrow> io_write io = WriteOk \<and> io_chmod io \<and> io_rename io"

fun event_works :: "sys_event \<Rightarrow> bool" where
  "event_works (Arrive rq w env) = (io_works (rq_io_allowlist rq) \<and> io_works (rq_io_watch rq))"
| "event_works (Revoke io pk) = io_works io"
| "event_works _ = True"

fun job_works :: "job \<Rightarrow> bool" where
  "job_works (Busy ph rq w env) = (io_works (rq_io_allowlist rq) \<and> io_works (rq_io_watch rq))"
| "job_works _ = True"

lemma write_works: "io_works io \<Longrightarrow> enc c v \<noteq> None \<Longrightarrow> fst (write_json_atomic c io p v d) = Inr ()"
  by (auto simp: io_works_def write_json_atomic_def write_json_calls_def Let_def)

lemma write_loads:
  assumes "typed_codec good c" "proper_target p" "io_read rio" "io_works io" "enc c v \<noteq> None"
    and "write_json_atomic c io p v d = (r, d')"
  shows "load_json c v0 rio p d' = Inr v"
  using written_loads [OF assms(1-3)] write_works [OF assms(4,5), of p d] assms(6) by (metis fst_conv)

lemma al_add_synced:
  assumes "writable ca cw" "io_read rio" "io_works io" "al_ok al" "al_path al = (dir, ALLOWLIST_FILE)"
    and "al_add ca io k al d = (r, al', d')"
  shows "al_load ca rio dir d' = Inr al'"
proof -
  have al: "al' = al\<lparr>al_wallets := insort_insert k (al_wallets al)\<rparr>"
      "write_json_atomic ca io (dir, ALLOWLIST_FILE) (al_wallets al') d = (r, d')"
    using assms(5,6) by (auto simp: al_add_def Let_def split: prod.splits)
  have "bts_ok (al_wallets al')" using al_add_effect [OF assms(4,6)] by (simp add: al_ok_def)
  then have "enc ca (al_wallets al') \<noteq> None" "typed_codec bts_ok ca" using assms(1) by (auto simp: writable_def total_codec_def)
  from write_loads [OF this(2) allowlist_path_proper assms(2,3) this(1) al(2)] show ?thesis
    using assms(5) by (simp add: al_load_Inr al(1))
qed

lemma al_remove_synced:
  assumes "writable ca cw" "io_read rio" "io_works io" "al_ok al" "al_load ca rio dir d = Inr al"
    and "al_remove ca io k al d = (r, al', d')"
  shows "al_load ca rio dir d' = Inr al'"
proof (cases "k \<in> set (al_wallets al)")
  case False
  then show ?thesis using assms(5,6) by (simp add: al_remove_def Let_def remove1_idem)
next
  case True
  have p: "al_path al = (dir, ALLOWLIST_FILE)" using assms(5) by (simp add: al_load_Inr)
  obtain x where al: "al' = al\<lparr>al_wallets := remove1 k (al_wallets al)\<rparr>"
      "write_json_atomic ca io (dir, ALLOWLIST_FILE) (al_wallets al') d = (x, d')"
    using True assms(6) p by (auto simp: al_remove_def Let_def split: prod.splits sum.splits)
  have "bts_ok (al_wallets al')" using al_remove_effect [OF assms(4,6)] by (simp add: al_ok_def)
  then have "enc ca (al_wallets al') \<noteq> None" "typed_codec bts_ok ca" using assms(1) by (auto simp: writable_def total_codec_def)
  from write_loads [OF this(2) allowlist_path_proper assms(2,3) this(1) al(2)] show ?thesis
    using p by (simp add: al_load_Inr al(1))
qed

lemma ws_load_Inr:
  "ws_load c io dir d = Inr ws \<longleftrightarrow>
     load_json c [] io (dir, WATCHSETS_FILE) d = Inr (ws_sets ws) \<and> ws_path ws = (dir, WATCHSETS_FILE)"
  by (auto simp: ws_load_def Let_def split: sum.splits)

lemma ws_written:
  assumes "writable ca cw" "io_read rio" "io_works io" "ws_ok ws'" "ws_path ws' = (dir, WATCHSETS_FILE)"
    and "write_json_atomic cw io (dir, WATCHSETS_FILE) (ws_sets ws') d = (x, d')"
  shows "ws_load cw rio dir d' = Inr ws'"
proof -
  have "btm_ok (ws_sets ws')" using assms(4) by (simp add: ws_ok_def)
  then have "enc cw (ws_sets ws') \<noteq> None" "typed_codec btm_ok cw" using assms(1) by (auto simp: writable_def total_codec_def)
  from write_loads [OF this(2) watchsets_path_proper assms(2,3) this(1) assms(6)] show ?thesis
    using assms(5) by (simp add: ws_load_Inr)
qed

lemma ws_replace_synced:
  assumes "writable ca cw" "io_read rio" "io_works io" "ws_ok ws" "ws_path ws = (dir, WATCHSETS_FILE)"
    and "ws_replace cw io k xs ws d = (r, ws', d')"
  shows "ws_load cw rio dir d' = Inr ws'"
proof -
  have "\<exists>x. write_json_atomic cw io (dir, WATCHSETS_FILE) (ws_sets ws') d = (x, d')"
    using assms(5,6) by (auto simp: ws_replace_def Let_def split: prod.splits sum.splits)
  then obtain x where "write_json_atomic cw io (dir, WATCHSETS_FILE) (ws_sets ws') d = (x, d')" ..
  with ws_written [OF assms(1-3), of ws' dir d x d'] ws_replace_memory [OF assms(4,6)] assms(5) show ?thesis by simp
qed

lemma ws_remove_synced:
  assumes "writable ca cw" "io_read rio" "io_works io" "ws_ok ws" "ws_load cw rio dir d = Inr ws"
    and "ws_remove_wallet cw io k ws d = (r, ws', d')"
  shows "ws_load cw rio dir d' = Inr ws'"
proof (cases "map_of (ws_sets ws) k = None")
  case True
  then have "filter (\<lambda>p. fst p \<noteq> k) (ws_sets ws) = ws_sets ws" by (auto simp: map_of_eq_None_iff filter_id_conv)
  then show ?thesis using True assms(5,6) by (simp add: ws_remove_wallet_def Let_def btm_remove_def)
next
  case False
  have p: "ws_path ws = (dir, WATCHSETS_FILE)" using assms(5) by (simp add: ws_load_Inr)
  have "\<exists>x. write_json_atomic cw io (dir, WATCHSETS_FILE) (ws_sets ws') d = (x, d')"
    using False assms(6) p by (auto simp: ws_remove_wallet_def Let_def split: prod.splits)
  then obtain x where "write_json_atomic cw io (dir, WATCHSETS_FILE) (ws_sets ws') d = (x, d')" ..
  with ws_written [OF assms(1-3), of ws' dir d x d'] ws_remove_memory [OF assms(4,6)] p show ?thesis by simp
qed

section \<open>Every step keeps them in step\<close>

lemma paths_apart:
  "(dir, ALLOWLIST_FILE) \<noteq> with_extension (dir, f) ''tmp''" "(dir, WATCHSETS_FILE) \<noteq> with_extension (dir, f) ''tmp''"
  by (rule json_not_tmp, simp)+

lemma files_apart:
  "ALLOWLIST_FILE \<noteq> WATCHSETS_FILE" "ALLOWLIST_FILE \<noteq> SEEN_FILE" "ALLOWLIST_FILE \<noteq> STATE_FILE"
  "WATCHSETS_FILE \<noteq> SEEN_FILE" "WATCHSETS_FILE \<noteq> STATE_FILE"
  using file_names_distinct by (simp_all add: DATA_FILES_def)

lemma ws_load_cong: "d (dir, WATCHSETS_FILE) = d' (dir, WATCHSETS_FILE) \<Longrightarrow> ws_load c rio dir d = ws_load c rio dir d'"
  by (simp add: ws_load_def Let_def load_json_cong [of d "(dir, WATCHSETS_FILE)" d'])

lemma synced_in_dir: "synced ca cw rio dir st \<Longrightarrow> al_path (sv_allowlist st) = (dir, ALLOWLIST_FILE) \<and>
    ws_path (sv_watch st) = (dir, WATCHSETS_FILE)"
  by (simp add: synced_def al_load_Inr ws_load_Inr)

lemma synced_untouched:
  assumes "synced ca cw rio dir st" "sv_allowlist st' = sv_allowlist st" "sv_watch st' = sv_watch st"
    and "sv_fs st' (dir, ALLOWLIST_FILE) = sv_fs st (dir, ALLOWLIST_FILE)"
    and "sv_fs st' (dir, WATCHSETS_FILE) = sv_fs st (dir, WATCHSETS_FILE)"
  shows "synced ca cw rio dir st'"
  using assms al_load_cong [of "sv_fs st'" dir "sv_fs st" ca rio] ws_load_cong [of "sv_fs st'" dir "sv_fs st" cw rio]
  by (simp add: synced_def)

lemma synced_al:
  assumes "synced ca cw rio dir st" "al_load ca rio dir d = Inr al" "d (dir, WATCHSETS_FILE) = sv_fs st (dir, WATCHSETS_FILE)"
  shows "synced ca cw rio dir (st\<lparr>sv_allowlist := al, sv_fs := d\<rparr>)"
  using assms ws_load_cong [of d dir "sv_fs st" cw rio] by (simp add: synced_def)

lemma synced_ws:
  assumes "synced ca cw rio dir st" "ws_load cw rio dir d = Inr ws" "d (dir, ALLOWLIST_FILE) = sv_fs st (dir, ALLOWLIST_FILE)"
  shows "synced ca cw rio dir (st\<lparr>sv_watch := ws, sv_fs := d\<rparr>)"
  using assms al_load_cong [of d dir "sv_fs st" ca rio] by (simp add: synced_def)

lemma handler_synced:
  assumes "writable ca cw" "io_read rio" "io_works (rq_io_watch rq)" "server_ok st" "synced ca cw rio dir st"
    and "hd_codec (tr_handlers T) = cw" "run_handler T rq w env st = (r, st')"
  shows "synced ca cw rio dir st'"
proof -
  let ?H = "tr_handlers T" and ?al = "(dir, ALLOWLIST_FILE)"
  note paths = synced_in_dir [OF assms(5)]
  obtain x s ws d where h: "handle ?H (rq_io_watch rq) w env (sv_backend st, sv_watch st, sv_fs st) = (x, s, ws, d)"
    by (metis surj_pair)
  then have st': "st' = st\<lparr>sv_backend := s, sv_watch := ws, sv_fs := d\<rparr>" using assms(7) by (simp add: run_handler_def)
  have frame: "d ?al = sv_fs st ?al" by (rule handle_frame [OF _ _ h]) (use paths files_apart paths_apart in simp_all)
  have "(ws = sv_watch st \<and> d = sv_fs st) \<or>
      (\<exists>xs y. ws_replace cw (rq_io_watch rq) w xs (sv_watch st) (sv_fs st) = (y, ws, d))"
    using handle_writes [OF h] assms(6) by simp
  then have "ws_load cw rio dir d = Inr ws"
    using ws_replace_synced [OF assms(1-3)] assms(4,5) paths by (auto simp: synced_def server_ok_def)
  from synced_ws [OF assms(5) this frame] show ?thesis by (simp add: st' synced_def)
qed

lemma job_step_synced:
  assumes "writable ca cw" "io_read rio" "job_works j" "server_ok st" "in_dir dir st" "synced ca cw rio dir st"
    and "tr_al_codec T = ca" "hd_codec (tr_handlers T) = cw" "job_step T (j, st) = (j', st')"
  shows "synced ca cw rio dir st'"
proof -
  have oks: "al_ok (sv_allowlist st)" "ws_ok (sv_watch st)" using assms(4) by (simp_all add: server_ok_def)
  note paths = synced_in_dir [OF assms(6)]
  have rc: "rc_path (sv_replay st) = (dir, SEEN_FILE)" using assms(5) by (simp add: in_dir_def)
  show ?thesis
    using assms(9)
  proof (cases rule: job_step_cases)
    case (replay rq w env b rc' d)
    have "d (dir, f) = sv_fs st (dir, f)" if "f \<in> {ALLOWLIST_FILE, WATCHSETS_FILE}" for f
      by (rule check_frame [OF replay(2)]) (use that rc files_apart paths_apart in auto)
    then show ?thesis using replay(4) by (intro synced_untouched [OF assms(6)]) simp_all
  next
    case (add rq w env r al d)
    have io: "io_works (rq_io_allowlist rq)" using assms(3) add(1) by simp
    have a: "al_add ca (rq_io_allowlist rq) w (sv_allowlist st) (sv_fs st) = (r, al, d)" using add(2) assms(7) by simp
    have "d (dir, WATCHSETS_FILE) = sv_fs st (dir, WATCHSETS_FILE)"
      using al_add_frame [of "(dir, WATCHSETS_FILE)" "sv_allowlist st" ca "rq_io_allowlist rq" w "sv_fs st"] a paths
        files_apart paths_apart by simp
    with synced_al [OF assms(6) al_add_synced [OF assms(1,2) io oks(1) _ a]] paths add(4) show ?thesis by simp
  next
    case (remove rq w env r al d)
    have io: "io_works (rq_io_allowlist rq)" using assms(3) remove(1) by simp
    have a: "al_remove ca (rq_io_allowlist rq) w (sv_allowlist st) (sv_fs st) = (r, al, d)" using remove(3) assms(7) by simp
    have "d (dir, WATCHSETS_FILE) = sv_fs st (dir, WATCHSETS_FILE)"
      using al_remove_frame [of "(dir, WATCHSETS_FILE)" "sv_allowlist st" ca "rq_io_allowlist rq" w "sv_fs st"] a paths
        files_apart paths_apart by simp
    with synced_al [OF assms(6) al_remove_synced [OF assms(1,2) io oks(1) _ a]] assms(6) remove(5) show ?thesis
      by (simp add: synced_def)
  next
    case (handler rq w env r)
    from handler_synced [OF assms(1,2) _ assms(4,6,8) handler(2)] assms(3) handler(1) show ?thesis by simp
  next
    case (unlist rq w env r ws d)
    have io: "io_works (rq_io_watch rq)" using assms(3) unlist(1) by simp
    have a: "ws_remove_wallet cw (rq_io_watch rq) w (sv_watch st) (sv_fs st) = (r, ws, d)" using unlist(2) assms(8) by simp
    have "d (dir, ALLOWLIST_FILE) = sv_fs st (dir, ALLOWLIST_FILE)" using ws_remove_frame [OF _ a] paths by simp
    with synced_ws [OF assms(6) ws_remove_synced [OF assms(1,2) io oks(2) _ a]] assms(6) unlist(4) show ?thesis
      by (simp add: synced_def)
  qed (use assms(6) in \<open>simp_all add: synced_def\<close>)
qed

lemma watch_synced:
  assumes "synced ca cw rio dir st" "w_state_path W = (dir, STATE_FILE)" "round_step W te (r, known, st) = (out, r', known', st')"
  shows "synced ca cw rio dir st'"
proof -
  have q: "persist_state W io state d (dir, f) = d (dir, f)" if "f \<in> {ALLOWLIST_FILE, WATCHSETS_FILE}" for io state d f
    by (rule persist_state_frame) (use that assms(2) files_apart paths_apart in auto)
  have "sv_fs st' (dir, f) = sv_fs st (dir, f)" if "f \<in> {ALLOWLIST_FILE, WATCHSETS_FILE}" for f
    using assms(3)
  proof (cases "(W, te, r, known, st)" rule: round_step.cases)
    case (4 W te snapshot wallet addrs rest known st)
    then show ?thesis
      using assms(3) q [OF that]
      by (auto simp: tick_wallet_def Let_def split: if_splits prod.splits run.splits sum.splits)
  qed (use assms(3) q [OF that] in \<open>auto simp: Let_def\<close>)
  moreover have "sv_allowlist st' = sv_allowlist st \<and> sv_watch st' = sv_watch st" using round_keeps [OF assms(3)] by auto
  ultimately show ?thesis by (intro synced_untouched [OF assms(1)]) simp_all
qed

lemma revoke_synced:
  assumes "writable ca cw" "io_read rio" "io_works io" "server_ok st" "synced ca cw rio dir st" "ap_al_codec A = ca"
    and "revoke_wallet A io pk st = (u, st')"
  shows "synced ca cw rio dir st'"
proof -
  obtain r al d where a: "al_remove ca io pk (sv_allowlist st) (sv_fs st) = (r, al, d)" by (metis prod_cases3)
  then have st': "st' = st\<lparr>sv_allowlist := al, sv_fs := d\<rparr>" using assms(6,7) by (simp add: revoke_wallet_def)
  have "d (dir, WATCHSETS_FILE) = sv_fs st (dir, WATCHSETS_FILE)"
    using al_remove_frame [of "(dir, WATCHSETS_FILE)" "sv_allowlist st" ca io pk "sv_fs st"] a synced_in_dir [OF assms(5)]
      files_apart paths_apart by simp
  with synced_al [OF assms(5) al_remove_synced [OF assms(1-3) _ _ a]] assms(4,5) show ?thesis
    by (simp add: st' synced_def server_ok_def)
qed

definition resumable ::
    "string list codec \<Rightarrow> (string, string list) btree_map codec \<Rightarrow> io_env \<Rightarrow> string \<Rightarrow> 's system \<Rightarrow> bool" where
  "resumable ca cw rio dir sy \<longleftrightarrow> system_ok dir sy \<and> synced ca cw rio dir (sy_server sy) \<and> job_works (sy_job sy)"

lemma job_works_step: "job_works j \<Longrightarrow> job_step T (j, st) = (j', st') \<Longrightarrow> job_works j'"
  by (cases rule: job_step_cases [of T j st j' st']) auto

lemma sys_step_resumable:
  assumes "writable ca cw" "io_read rio" "built_with lb dir S" "ca = lb_al_codec lb" "cw = lb_ws_codec lb"
    and "resumable ca cw rio dir sy" "event_works e"
  shows "resumable ca cw rio dir (snd (sys_step S sy e))"
proof -
  have ok: "system_ok dir sy" "server_ok (sy_server sy)" "in_dir dir (sy_server sy)" "synced ca cw rio dir (sy_server sy)"
      "job_works (sy_job sy)"
    using assms(6) by (simp_all add: resumable_def system_ok_def)
  have w: "tr_al_codec (su_transport S) = ca" "ap_al_codec (su_app S) = ca" "hd_codec (tr_handlers (su_transport S)) = cw"
      "w_state_path (su_watcher S) = (dir, STATE_FILE)" using assms(3-5) by (simp_all add: built_with_def)
  have "synced ca cw rio dir (sy_server (snd (sys_step S sy e))) \<and> job_works (sy_job (snd (sys_step S sy e)))"
  proof (cases rule: sys_step_cases [of e S sy])
    case (arrive rq u env)
    then show ?thesis using ok(4,5) assms(7) by simp
  next
    case (move j st)
    from job_step_synced [OF assms(1,2) ok(5,2,3,4) w(1,3) move(2)] job_works_step [OF ok(5) move(2)] move(3,4)
    show ?thesis by simp
  next
    case send
    then show ?thesis using ok(4,5) by auto
  next
    case (page now rnd p st)
    have "\<exists>pm. st = sy_server sy\<lparr>sv_pairing := pm\<rparr>" using page(2) by (auto simp: current_payload_def split: prod.splits)
    then show ?thesis using ok(4,5) page(3,4) by (auto simp: synced_def)
  next
    case (revoke io pk u st)
    from revoke_synced [OF assms(1,2) _ ok(2,4) w(2) revoke(2)] assms(7) revoke ok(5) show ?thesis by simp
  next
    case (watch te out r known st)
    from watch_synced [OF ok(4) w(4) watch(2)] watch ok(5) show ?thesis by simp
  qed (use ok(4,5) in \<open>simp_all add: synced_def\<close>)
  then show ?thesis using sys_step_ok [OF ok(1)] by (simp add: resumable_def)
qed

lemma run_resumable:
  assumes "writable (lb_al_codec lb) (lb_ws_codec lb)" "io_read rio" "built_with lb dir S"
    and "resumable (lb_al_codec lb) (lb_ws_codec lb) rio dir sy" "list_all event_works es"
  shows "resumable (lb_al_codec lb) (lb_ws_codec lb) rio dir (snd (exec (sys_step S) sy es))"
  by (rule exec_keeps [where good = "resumable (lb_al_codec lb) (lb_ws_codec lb) rio dir", OF assms(4)])
    (use assms in \<open>auto simp: list_all_iff intro: sys_step_resumable\<close>)

section \<open>Booting\<close>

lemma boot_cases:
  assumes "boot lb var idio io fresh w (dirs, d) = Inr (S, sy)"
  obtains cfg keys dirs' d' al ws rc known where
    "from_env var = Inr cfg" "load_or_create (lb_keys lb) idio (data_dir cfg) fresh (dirs, d) = (Inr keys, dirs', d')"
    "al_load (lb_al_codec lb) io (data_dir cfg) d' = Inr al" "ws_load (lb_ws_codec lb) io (data_dir cfg) d' = Inr ws"
    "rc_load (lb_rc_codec lb) io (data_dir cfg) d' = Inr rc" "watcher_load (lb_state_codec lb) io (data_dir cfg) d' = Inr known"
    "S = setup_of lb var cfg keys" "sv_allowlist (sy_server sy) = al" "sv_watch (sy_server sy) = ws" "sv_fs (sy_server sy) = d'"
  using assms by (auto simp: boot_def split: sum.splits prod.splits)

lemma boot_runs:
  assumes "from_env var = Inr cfg" "load_or_create (lb_keys lb) idio (data_dir cfg) fresh (dirs, d) = (Inr keys, dirs', d')"
    "al_load (lb_al_codec lb) io (data_dir cfg) d' = Inr al" "ws_load (lb_ws_codec lb) io (data_dir cfg) d' = Inr ws"
    "rc_load (lb_rc_codec lb) io (data_dir cfg) d' = Inr rc" "watcher_load (lb_state_codec lb) io (data_dir cfg) d' = Inr known"
  shows "\<exists>S sy. boot lb var idio io fresh w (dirs, d) = Inr (S, sy)"
  using assms by (simp add: boot_def)

lemma boot_built: "from_env var = Inr cfg \<Longrightarrow> boot lb var idio io fresh w dd = Inr (S, sy) \<Longrightarrow> built_with lb (data_dir cfg) S"
  by (auto simp: boot_def built_with_def setup_of_def handlers_new_def Let_def split: sum.splits prod.splits)

text \<open>Loading succeeds exactly on a readable directory.\<close>

lemma load_json_runs:
  "(\<forall>x. d p = Some x \<longrightarrow> readable c (content x)) \<Longrightarrow> io_read io \<Longrightarrow> \<exists>v. load_json c v0 io p d = Inr v"
  by (cases "d p") (auto simp: load_json_def read_to_string_def readable_def split: option.splits)

lemma load_json_readable: "load_json c v0 io p d = Inr v \<Longrightarrow> d p = Some x \<Longrightarrow> readable c (content x)"
  by (auto simp: load_json_def read_to_string_def readable_def split: if_splits option.splits)

lemma data_ok_loads:
  assumes "data_ok lb dir d" "io_read io"
  obtains al ws rc known where "al_load (lb_al_codec lb) io dir d = Inr al" "ws_load (lb_ws_codec lb) io dir d = Inr ws"
    "rc_load (lb_rc_codec lb) io dir d = Inr rc" "watcher_load (lb_state_codec lb) io dir d = Inr known"
proof -
  have l: "\<exists>v. load_json c v0 io (dir, f) d = Inr v" if "f \<in> set DATA_FILES" "readable c = accepts lb f" for c :: "'v codec" and v0 f
    by (rule load_json_runs [OF _ assms(2)]) (use assms(1) that in \<open>simp add: data_ok_def\<close>)
  obtain a m r k where "load_json (lb_al_codec lb) [] io (dir, ALLOWLIST_FILE) d = Inr a"
      "load_json (lb_ws_codec lb) [] io (dir, WATCHSETS_FILE) d = Inr m"
      "load_json (lb_rc_codec lb) [] io (dir, SEEN_FILE) d = Inr r" "load_json (lb_state_codec lb) [] io (dir, STATE_FILE) d = Inr k"
    using l [of ALLOWLIST_FILE "lb_al_codec lb" "[]"] l [of WATCHSETS_FILE "lb_ws_codec lb" "[]"]
      l [of SEEN_FILE "lb_rc_codec lb" "[]"] l [of STATE_FILE "lb_state_codec lb" "[]"] by auto
  then show thesis
    by (intro that) (simp_all add: al_load_def ws_load_def rc_load_def watcher_load_def)
qed

lemma boot_data_ok:
  assumes "from_env var = Inr cfg" "boot lb var idio io fresh w (dirs, d) = Inr (S, sy)"
  shows "data_ok lb (data_dir cfg) (sv_fs (sy_server sy))"
  using assms(2)
proof (cases rule: boot_cases)
  case (1 cfg' keys dirs' d' al ws rc known)
  then obtain a m r k where l: "load_json (lb_al_codec lb) [] io (data_dir cfg, ALLOWLIST_FILE) d' = Inr a"
      "load_json (lb_ws_codec lb) [] io (data_dir cfg, WATCHSETS_FILE) d' = Inr m"
      "load_json (lb_rc_codec lb) [] io (data_dir cfg, SEEN_FILE) d' = Inr r"
      "load_json (lb_state_codec lb) [] io (data_dir cfg, STATE_FILE) d' = Inr k"
    using assms(1) by (auto simp: al_load_Inr ws_load_Inr rc_load_def watcher_load_def Let_def split: sum.splits)
  have "accepts lb f (content x)" if "f \<in> set DATA_FILES" "d' (data_dir cfg, f) = Some x" for f x
    using that load_json_readable [OF l(1)] load_json_readable [OF l(2)] load_json_readable [OF l(3)] load_json_readable [OF l(4)]
    by (auto simp: DATA_FILES_def)
  then show ?thesis using 1 by (simp add: data_ok_def)
qed

lemma boot_in_dir:
  assumes "boot lb var idio io fresh w (dirs, d) = Inr (S, sy)" "codecs_ok lb" "from_env var = Inr cfg"
  shows "system_ok (data_dir cfg) sy \<and> w_state_path (su_watcher S) = (data_dir cfg, STATE_FILE) \<and> sy_job sy = Idle"
  using boot_ok [OF assms(1)] assms(2,3) by (auto simp: codecs_ok_def)

text \<open>
  The key file is as the first boot left it and the data files are readable, so a later boot whose own
  reads work gets through.
\<close>

lemma reboot_runs:
  assumes "boot lb var idio io fresh w (dirs, d) = Inr (S, sy)" "codecs_ok lb" "key_lib_ok (lb_keys lb)"
    and "id_mkdir idio2" "id_chmod_dir idio2" "io_read (id_file idio2)" "io_read io2"
  shows "\<exists>S2 sy2. boot lb var idio2 io2 fresh2 w2 (dirs2, sv_fs (sy_server (snd (exec (sys_step S) sy es)))) = Inr (S2, sy2)"
proof -
  let ?d = "sv_fs (sy_server (snd (exec (sys_step S) sy es)))"
  obtain cfg k dirs' where b: "from_env var = Inr cfg"
      "load_or_create (lb_keys lb) idio (data_dir cfg) fresh (dirs, d) = (Inr k, dirs', sv_fs (sy_server sy))"
    using assms(1) by (auto elim: boot_cases)
  note ok = boot_in_dir [OF assms(1,2) b(1)]
  obtain s m where key: "sv_fs (sy_server sy) (data_dir cfg, KEY_FILE) = Some \<lparr>content = s, mode = m\<rparr>"
      "kl_parse (lb_keys lb) (str_trim s) = Some k"
    using key_file_holds [OF assms(3) b(2)] by blast
  have "?d (data_dir cfg, KEY_FILE) = sv_fs (sy_server sy) (data_dir cfg, KEY_FILE)"
    by (rule run_frame [OF _ key_file_not_a_store]) (use ok in \<open>simp_all add: system_ok_def\<close>)
  then obtain dirs3 where load: "load_or_create (lb_keys lb) idio2 (data_dir cfg) fresh2 (dirs2, ?d) = (Inr k, dirs3, ?d)"
    using key assms(4-6) by (auto simp: load_or_create_def Let_def read_to_string_def)
  have "data_ok lb (data_dir cfg) ?d"
    using run_data_ok [OF assms(2) boot_built [OF b(1) assms(1)] _ boot_data_ok [OF b(1) assms(1)]] ok by simp
  from data_ok_loads [OF this assms(7)] boot_runs [OF b(1) load] show ?thesis by metis
qed

lemma load_json_anyhow: "load_json c v0 io p d = Inr v \<Longrightarrow> io_read rio \<Longrightarrow> load_json c v0 rio p d = Inr v"
  by (auto simp: load_json_def read_to_string_def split: option.splits if_splits)

lemma boot_resumable:
  assumes "boot lb var idio io fresh w (dirs, d) = Inr (S, sy)" "codecs_ok lb" "io_read rio" "from_env var = Inr cfg"
  shows "resumable (lb_al_codec lb) (lb_ws_codec lb) rio (data_dir cfg) sy"
proof -
  have "synced (lb_al_codec lb) (lb_ws_codec lb) rio (data_dir cfg) (sy_server sy)"
    using assms(1)
  proof (cases rule: boot_cases)
    case (1 cfg' keys dirs' d' al ws rc known)
    have al: "al_load (lb_al_codec lb) rio (data_dir cfg') d' = Inr al"
      using 1(3) load_json_anyhow [OF _ assms(3), where c = "lb_al_codec lb"] unfolding al_load_Inr by blast
    have ws: "ws_load (lb_ws_codec lb) rio (data_dir cfg') d' = Inr ws"
      using 1(4) load_json_anyhow [OF _ assms(3), where c = "lb_ws_codec lb"] unfolding ws_load_Inr by blast
    have "cfg' = cfg" using 1(1) assms(4) by simp
    then show ?thesis unfolding synced_def 1(8-10) using al ws by simp
  qed
  then show ?thesis using boot_in_dir [OF assms(1,2,4)] by (simp add: resumable_def)
qed

lemma boot_loads:
  assumes "boot lb var idio io fresh w (dirs, d) = Inr (S, sy)" "from_env var = Inr cfg"
    and "al_load (lb_al_codec lb) io (data_dir cfg) d = Inr al" "ws_load (lb_ws_codec lb) io (data_dir cfg) d = Inr ws"
  shows "sv_allowlist (sy_server sy) = al \<and> sv_watch (sy_server sy) = ws"
proof -
  obtain r dirs' d' where k: "load_or_create (lb_keys lb) idio (data_dir cfg) fresh (dirs, d) = (r, dirs', d')"
    by (metis surj_pair)
  have "KEY_FILE \<noteq> ALLOWLIST_FILE" "KEY_FILE \<noteq> WATCHSETS_FILE"
    by (simp_all add: KEY_FILE_def ALLOWLIST_FILE_def WATCHSETS_FILE_def)
  with key_file_only [OF k] have "d' (data_dir cfg, ALLOWLIST_FILE) = d (data_dir cfg, ALLOWLIST_FILE)"
      "d' (data_dir cfg, WATCHSETS_FILE) = d (data_dir cfg, WATCHSETS_FILE)" by simp_all
  then have "al_load (lb_al_codec lb) io (data_dir cfg) d' = Inr al" "ws_load (lb_ws_codec lb) io (data_dir cfg) d' = Inr ws"
    using assms(3,4) al_load_cong [of d' "data_dir cfg" d] ws_load_cong [of d' "data_dir cfg" d] by simp_all
  then show ?thesis using assms(1,2) k by (auto simp: boot_def split: sum.splits prod.splits)
qed

section \<open>Properties\<close>

text \<open>
  C8. The server can always be restarted: boot, let any run go by, with whatever system calls failing and
  whatever write stopping half way, and a later boot over the files it left succeeds as soon as its own reads
  work; no failure can leave behind a file that a loader refuses.
\<close>

theorem restart_succeeds:
  assumes "boot lb var idio io fresh w (dirs, d) = Inr (S, sy)" "codecs_ok lb" "key_lib_ok (lb_keys lb)"
    and "id_mkdir idio2" "id_chmod_dir idio2" "io_read (id_file idio2)" "io_read io2"
  shows "\<exists>S2 sy2. boot lb var idio2 io2 fresh2 w2 (dirs2, sv_fs (sy_server (snd (exec (sys_step S) sy es)))) = Inr (S2, sy2)"
  by (rule reboot_runs [OF assms])

text \<open>
  C7. A restart resumes where the server stopped: after any run in which the writes of the two stores worked,
  stopped between any two steps, a boot over the files loads exactly the allowlist and the watch sets that
  the server had in memory; it does not matter what failed in the replay cache's and the watcher's
  best-effort writes.
\<close>

theorem restart_resumes:
  assumes "boot lb var idio io fresh w (dirs, d) = Inr (S, sy)" "codecs_ok lb"
    and "writable (lb_al_codec lb) (lb_ws_codec lb)" "io_read io2" "list_all event_works es"
    and "st = sy_server (snd (exec (sys_step S) sy es))"
    and "boot lb var idio2 io2 fresh2 w2 (dirs2, sv_fs st) = Inr (S2, sy2)"
  shows "sv_allowlist (sy_server sy2) = sv_allowlist st \<and> sv_watch (sy_server sy2) = sv_watch st"
proof -
  obtain cfg where cfg: "from_env var = Inr cfg" using assms(1) by (auto elim: boot_cases)
  from run_resumable [OF assms(3,4) boot_built [OF cfg assms(1)] boot_resumable [OF assms(1,2,4) cfg] assms(5)]
  have "synced (lb_al_codec lb) (lb_ws_codec lb) io2 (data_dir cfg) st" by (simp add: assms(6) resumable_def)
  then show ?thesis by (intro boot_loads [OF assms(7) cfg]) (simp_all add: synced_def)
qed


section \<open>Witnesses\<close>

definition writable_libs :: "(string, unit, bool, nat) libs" where
  "writable_libs = sample_libs
     \<lparr>lb_al_codec := toy_codec (\<lambda>ss. JArray (map JString ss)) string_list bts_ok,
      lb_ws_codec := toy_codec table_json table_of btm_ok\<rparr>"

lemma writable_libs_codecs: "codecs_ok writable_libs" "writable (lb_al_codec writable_libs) (lb_ws_codec writable_libs)"
  "key_lib_ok (lb_keys writable_libs)"
proof -
  have "typed_codec btm_ok (lb_ws_codec writable_libs)" "typed_codec bts_ok (lb_al_codec writable_libs)"
    by (simp_all add: writable_libs_def toy_codec_typed)
  moreover have "enc (lb_al_codec writable_libs) v \<noteq> None" if "bts_ok v" for v
    using toy_codec_total [of bts_ok, OF that] by (simp add: writable_libs_def)
  moreover have "enc (lb_ws_codec writable_libs) m \<noteq> None" if "btm_ok m" for m
    using toy_codec_total [of btm_ok, OF that] by (simp add: writable_libs_def)
  moreover have "typed_codec btm_ok (lb_rc_codec writable_libs)" "state_codec_ok (lb_state_codec writable_libs)"
    by (simp_all add: writable_libs_def sample_libs_def sample_codec_typed)
      (simp add: sample_codec_def state_codec_ok_def same_state_def)
  ultimately show "codecs_ok writable_libs" "writable (lb_al_codec writable_libs) (lb_ws_codec writable_libs)"
    by (simp_all add: codecs_ok_def writable_def total_codec_def)
  show "key_lib_ok (lb_keys writable_libs)" by (simp add: writable_libs_def sample_libs_def sample_keys_ok)
qed

definition one_wallet :: fs where
  "one_wallet = [(''./data'', ALLOWLIST_FILE) \<mapsto> \<lparr>content = toy_print (JArray [JString ''aa'']), mode = 384\<rparr>]"

lemma one_wallet_boot:
  obtains S sy where "boot writable_libs Map.empty id_fine io_fine True 7 (Map.empty, one_wallet) = Inr (S, sy)"
    "al_wallets (sv_allowlist (sy_server sy)) = [''aa'']"
proof -
  let ?d = "one_wallet((''./data'', KEY_FILE) \<mapsto> \<lparr>content = ''a1'', mode = 384\<rparr>)" and ?lb = writable_libs
  have cfg: "\<exists>cfg. from_env Map.empty = Inr cfg \<and> data_dir cfg = ''./data''" by (simp add: from_env_def)
  then obtain cfg :: config where cfg: "from_env Map.empty = Inr cfg" "data_dir cfg = ''./data''" by blast
  have k: "load_or_create (lb_keys ?lb) id_fine (data_dir cfg) True (Map.empty, one_wallet) = (Inr True, [''./data'' \<mapsto> 448], ?d)"
    by (simp add: cfg load_or_create_def id_fine_def io_fine_def read_to_string_def write_secret_def one_wallet_def
        writable_libs_def sample_libs_def sample_keys_def Let_def KEY_FILE_def ALLOWLIST_FILE_def)
  have "enc (lb_al_codec ?lb) [''aa''] = Some (toy_print (JArray [JString ''aa'']))"
    by (simp add: writable_libs_def toy_codec_def bts_ok_def)
  from load_json_stored [OF codecs_okD(1) [OF writable_libs_codecs(1)] this, of io_fine ?d "(''./data'', ALLOWLIST_FILE)" 384 "[]"]
  have al: "al_load (lb_al_codec ?lb) io_fine (data_dir cfg) ?d = Inr \<lparr>al_path = (''./data'', ALLOWLIST_FILE), al_wallets = [''aa'']\<rparr>"
    by (simp add: al_load_Inr cfg io_fine_def one_wallet_def KEY_FILE_def ALLOWLIST_FILE_def)
  have none: "?d (''./data'', f) = None" if "f \<in> {WATCHSETS_FILE, SEEN_FILE, STATE_FILE}" for f
    using that by (auto simp: one_wallet_def KEY_FILE_def ALLOWLIST_FILE_def WATCHSETS_FILE_def SEEN_FILE_def STATE_FILE_def)
  then have "ws_load (lb_ws_codec ?lb) io_fine (data_dir cfg) ?d = Inr \<lparr>ws_path = (''./data'', WATCHSETS_FILE), ws_sets = []\<rparr>"
      "rc_load (lb_rc_codec ?lb) io_fine (data_dir cfg) ?d = Inr \<lparr>rc_path = (''./data'', SEEN_FILE), rc_seen = []\<rparr>"
      "watcher_load (lb_state_codec ?lb) io_fine (data_dir cfg) ?d = Inr []"
    by (simp_all add: ws_load_def rc_load_def watcher_load_def load_json_def read_to_string_def cfg)
  with cfg(1) k al have "\<exists>S sy. boot ?lb Map.empty id_fine io_fine True 7 (Map.empty, one_wallet) = Inr (S, sy) \<and>
      al_wallets (sv_allowlist (sy_server sy)) = [''aa'']" by (simp add: boot_def)
  with that show thesis by blast
qed

theorem restart_succeeds_witness:
  "\<exists>S sy S2 sy2. boot writable_libs Map.empty id_fine io_fine True 7 (Map.empty, one_wallet) = Inr (S, sy) \<and>
     boot writable_libs Map.empty id_fine io_fine False 9
       (Map.empty, sv_fs (sy_server (snd (exec (sys_step S) sy [Revoke (io_fine\<lparr>io_write := StopsAfter ''[''\<rparr>) ''aa''])))) = Inr (S2, sy2)"
proof -
  obtain S sy where b: "boot writable_libs Map.empty id_fine io_fine True 7 (Map.empty, one_wallet) = Inr (S, sy)"
    by (rule one_wallet_boot)
  have io: "id_mkdir id_fine" "id_chmod_dir id_fine" "io_read (id_file id_fine)" "io_read io_fine"
    by (simp_all add: id_fine_def io_fine_def)
  from b restart_succeeds [OF b writable_libs_codecs(1,3) io] show ?thesis by blast
qed

theorem restart_resumes_witness:
  "\<exists>S sy S2 sy2. boot writable_libs Map.empty id_fine io_fine True 7 (Map.empty, one_wallet) = Inr (S, sy) \<and>
     boot writable_libs Map.empty id_fine io_fine False 9
       (Map.empty, sv_fs (sy_server (snd (exec (sys_step S) sy [Revoke io_fine ''aa''])))) = Inr (S2, sy2) \<and>
     al_list (sv_allowlist (sy_server sy2)) = []"
proof -
  obtain S sy where b: "boot writable_libs Map.empty id_fine io_fine True 7 (Map.empty, one_wallet) = Inr (S, sy)"
      "al_wallets (sv_allowlist (sy_server sy)) = [''aa'']"
    by (rule one_wallet_boot)
  let ?st = "sy_server (snd (exec (sys_step S) sy [Revoke io_fine ''aa'']))"
  have io: "id_mkdir id_fine" "id_chmod_dir id_fine" "io_read (id_file id_fine)" "io_read io_fine"
    by (simp_all add: id_fine_def io_fine_def)
  obtain S2 sy2 where b2: "boot writable_libs Map.empty id_fine io_fine False 9 (Map.empty, sv_fs ?st) = Inr (S2, sy2)"
    using reboot_runs [OF b(1) writable_libs_codecs(1,3) io] by blast
  have e: "list_all event_works [Revoke io_fine ''aa'']" by (simp add: io_works_def io_fine_def)
  have "sv_allowlist (sy_server sy2) = sv_allowlist ?st"
    using restart_resumes [OF b(1) writable_libs_codecs(1,2) io(4) e refl b2] by simp
  moreover have "al_list (sv_allowlist ?st) = []"
    using b(2) by (simp add: al_list_def sys_step.simps revoke_wallet_def al_remove_def split: prod.split sum.split)
  ultimately show ?thesis using b(1) b2 by auto
qed

end
