(* ===== verification/Isolation.thy ===== *)
theory Isolation
  imports Restart
begin

text \<open>
  What a wallet can learn from the answers of \<open>Transport::route\<close> (\<open>server/src/transport.rs\<close>): nothing about other
  wallets. Together with \<open>other_wallets_untouched\<close>, which says that it cannot change anything of theirs, this is
  the isolation of wallets.
\<close>

section \<open>The outcome of a write does not show what is written\<close>

lemma write_result:
  assumes "enc c v \<noteq> None"
  shows "fst (write_json_atomic c io p v d) = (if io_works io then Inr () else Inl IoError)"
  using assms
  by (auto simp: io_works_def write_json_atomic_def write_json_calls_def Let_def
      split: write_fault.splits prod.splits bool.splits if_splits)

lemma al_add_outcome:
  assumes "total_codec bts_ok c" "al_ok al"
  shows "fst (al_add c io k al d) = (if io_works io then Inr () else Inl IoError)"
proof -
  have "bts_ok (insort_insert k (al_wallets al))" using assms(2) by (simp add: al_ok_def)
  then have "enc c (insort_insert k (al_wallets al)) \<noteq> None" using assms(1) by (simp add: total_codec_def)
  from write_result [OF this, of io "al_path al" d] show ?thesis
    by (auto simp: al_add_def Let_def split: prod.splits if_splits)
qed

lemma al_remove_outcome:
  assumes "total_codec bts_ok c" "al_ok al"
  shows "fst (al_remove c io k al d) =
    (if is_paired al k then if io_works io then Inr True else Inl IoError else Inr False)"
proof -
  have "bts_ok (remove1 k (al_wallets al))" using assms(2) by (simp add: al_ok_def)
  then have "enc c (remove1 k (al_wallets al)) \<noteq> None" using assms(1) by (simp add: total_codec_def)
  from write_result [OF this, of io "al_path al" d] show ?thesis
    by (auto simp: al_remove_def is_paired_def Let_def split: prod.splits sum.splits if_splits)
qed

lemma ws_replace_outcome:
  assumes "total_codec btm_ok c" "ws_ok ws"
  shows "fst (ws_replace c io k xs ws d) = (if io_works io then Inr (length xs) else Inl IoError)"
proof -
  let ?s = "if xs = [] then btm_remove k (ws_sets ws) else btm_insert k xs (ws_sets ws)"
  have "ws_ok (fst (snd (ws_replace c io k xs ws d)))"
    using ws_replace_memory [OF assms(2), of c io k xs d] by (metis prod.collapse)
  then have "btm_ok ?s" by (auto simp: ws_replace_def Let_def ws_ok_def split: prod.splits sum.splits if_splits)
  then have "enc c ?s \<noteq> None" using assms(1) by (simp add: total_codec_def)
  from write_result [OF this, of io "ws_path ws" d] show ?thesis
    by (auto simp: ws_replace_def Let_def split: prod.splits sum.splits if_splits)
qed

section \<open>What the answer to a request depends on\<close>

text \<open>
  Two states that look the same to a wallet with a request: the id is new in both or in neither, its bucket
  is the same, it is paired in both or in neither, the node's adapter is in the same state, and so is the
  pairing secret if the request is to pair.
\<close>

definition same_view :: "u64 \<Rightarrow> string \<Rightarrow> request_envelope \<Rightarrow> 's server \<Rightarrow> 's server \<Rightarrow> bool" where
  "same_view now w env st1 st2 \<longleftrightarrow>
     (live_entry (sv_replay st1) (env_id env) now = None \<longleftrightarrow> live_entry (sv_replay st2) (env_id env) now = None) \<and>
     sv_ratelimit st1 w = sv_ratelimit st2 w \<and>
     (is_paired (sv_allowlist st1) w \<longleftrightarrow> is_paired (sv_allowlist st2) w) \<and>
     sv_backend st1 = sv_backend st2 \<and> (msg_type env = ''pair'' \<longrightarrow> sv_pairing st1 = sv_pairing st2)"

lemma allow_answer: "rl1 w = rl2 w \<Longrightarrow> fst (allow w now rl1) = fst (allow w now rl2)"
  by (simp add: allow_def Let_def split: prod.splits)

lemma handle_answer:
  assumes "total_codec btm_ok (hd_codec H)" "ws_ok ws1" "ws_ok ws2"
  shows "fst (handle H io w env (s, ws1, d1)) = fst (handle H io w env (s, ws2, d2))"
proof -
  have "fst (watch_addresses H io w env (ws1, d1)) = fst (watch_addresses H io w env (ws2, d2))"
  proof (cases "validate_addresses (hd_lib H) (payload env) (hd_network H) MAX_WATCH_ADDRESSES")
    case (Inr addrs)
    then show ?thesis
      using ws_replace_outcome [OF assms(1,2), of io w "map fst addrs" d1] ws_replace_outcome [OF assms(1,3), of io w "map fst addrs" d2]
      by (auto simp: watch_addresses_def split: prod.splits sum.splits if_splits)
  qed (simp add: watch_addresses_def)
  then show ?thesis by (auto simp: handle_def on_backend_def split: prod.splits)
qed

lemma pair_answer:
  assumes "total_codec bts_ok (tr_al_codec T)" "al_ok (sv_allowlist st1)" "al_ok (sv_allowlist st2)"
    and "is_paired (sv_allowlist st1) w \<longleftrightarrow> is_paired (sv_allowlist st2) w" "sv_pairing st1 = sv_pairing st2"
  shows "fst (handle_pair T rq w env st1) = fst (handle_pair T rq w env st2)"
  using assms(4,5) al_add_outcome [OF assms(1,2), of "rq_io_allowlist rq" w "sv_fs st1"]
    al_add_outcome [OF assms(1,3), of "rq_io_allowlist rq" w "sv_fs st2"]
  by (auto simp: handle_pair_def split: prod.splits sum.splits bool.splits if_splits)

lemma unpair_answer:
  assumes "total_codec bts_ok (tr_al_codec T)" "al_ok (sv_allowlist st1)" "al_ok (sv_allowlist st2)"
    and "is_paired (sv_allowlist st1) w \<longleftrightarrow> is_paired (sv_allowlist st2) w"
  shows "fst (handle_unpair T rq w env st1) = fst (handle_unpair T rq w env st2)"
  using assms(4) al_remove_outcome [OF assms(1,2), of "rq_io_allowlist rq" w "sv_fs st1"]
    al_remove_outcome [OF assms(1,3), of "rq_io_allowlist rq" w "sv_fs st2"]
  by (auto simp: handle_unpair_def split: prod.splits sum.splits bool.splits if_splits)

lemma dispatch_answer:
  assumes "total_codec bts_ok (tr_al_codec T)" "total_codec btm_ok (hd_codec (tr_handlers T))" "server_ok st1" "server_ok st2"
    and "is_paired (sv_allowlist st1) w \<longleftrightarrow> is_paired (sv_allowlist st2) w" "sv_backend st1 = sv_backend st2"
    and "msg_type env = ''pair'' \<longrightarrow> sv_pairing st1 = sv_pairing st2"
  shows "fst (dispatch T rq w env st1) = fst (dispatch T rq w env st2)"
proof -
  have ok: "al_ok (sv_allowlist st1)" "al_ok (sv_allowlist st2)" "ws_ok (sv_watch st1)" "ws_ok (sv_watch st2)"
    using assms(3,4) by (simp_all add: server_ok_def)
  have h: "fst (run_handler T rq w env st1) = fst (run_handler T rq w env st2)"
    using handle_answer [OF assms(2) ok(3,4), of "rq_io_watch rq" w env "sv_backend st1" "sv_fs st1" "sv_fs st2"] assms(6)
    by (auto simp: run_handler_def split: prod.splits)
  show ?thesis
    using assms(5,7) h pair_answer [OF assms(1) ok(1,2) assms(5), of rq env] unpair_answer [OF assms(1) ok(1,2) assms(5), of rq env]
    by (auto simp: dispatch_def split: prod.splits)
qed

section \<open>Property\<close>

text \<open>
  C29. Answers reveal nothing of other wallets: the answer to a request, or its absence, is the same in any
  two states that look the same to its sender, whoever else is paired and whatever they watch, and whatever the
  files hold.
\<close>

theorem answers_depend_on_own_state:
  assumes "total_codec bts_ok (tr_al_codec T)" "total_codec btm_ok (hd_codec (tr_handlers T))"
    and "server_ok st1" "server_ok st2" "same_view (rq_now rq) w env st1 st2"
  shows "fst (route T rq w env st1) = fst (route T rq w env st2)"
proof -
  have rc: "rc_ok (sv_replay st1)" "rc_ok (sv_replay st2)" using assms(3,4) by (simp_all add: server_ok_def)
  obtain b1 rc1 d1 where c1: "check_and_insert (tr_rc_codec T) (rq_io_replay rq) (env_id env) (rq_now rq) (sv_replay st1) (sv_fs st1) = (b1, rc1, d1)"
    by (metis prod_cases3)
  obtain b2 rc2 d2 where c2: "check_and_insert (tr_rc_codec T) (rq_io_replay rq) (env_id env) (rq_now rq) (sv_replay st2) (sv_fs st2) = (b2, rc2, d2)"
    by (metis prod_cases3)
  have b: "b1 = b2" using check_result [OF rc(1)] check_result [OF rc(2)] c1 c2 assms(5) unfolding same_view_def by (metis fst_conv)
  obtain ok1 rl1 ok2 rl2 where a: "allow w (rq_now rq) (sv_ratelimit st1) = (ok1, rl1)" "allow w (rq_now rq) (sv_ratelimit st2) = (ok2, rl2)"
    by fastforce
  have ok: "ok1 = ok2" using allow_answer [of "sv_ratelimit st1" w "sv_ratelimit st2" "rq_now rq"] a assms(5) by (simp add: same_view_def)
  let ?st1 = "st1\<lparr>sv_replay := rc1, sv_fs := d1, sv_ratelimit := rl1\<rparr>" and ?st2 = "st2\<lparr>sv_replay := rc2, sv_fs := d2, sv_ratelimit := rl2\<rparr>"
  have "server_ok ?st1" "server_ok ?st2"
    using assms(3,4) check_keeps_ok [OF rc(1) c1] check_keeps_ok [OF rc(2) c2] allow_keeps_ok [OF _ a(1)] allow_keeps_ok [OF _ a(2)]
    by (simp_all add: server_ok_def)
  then have "fst (dispatch T rq w env ?st1) = fst (dispatch T rq w env ?st2)"
    using assms(5) by (intro dispatch_answer [OF assms(1,2)]) (simp_all add: same_view_def)
  then show ?thesis using b ok by (auto simp: route_def c1 c2 a split: prod.splits run.splits bool.splits)
qed

section \<open>Witness\<close>

text \<open>A second wallet with a watch set makes no difference to a stranger.\<close>

definition writable_transport :: "(string, unit, usize) transport" where
  "writable_transport = (sample_transport (sample_handlers\<lparr>hd_codec := lb_ws_codec writable_libs\<rparr>))
     \<lparr>tr_al_codec := lb_al_codec writable_libs\<rparr>"

theorem answers_depend_on_own_state_witness:
  "fst (route writable_transport sample_rq ''evil'' (sample_env ''ping'' JNull) (sample_server 100)) =
   fst (route writable_transport sample_rq ''evil'' (sample_env ''ping'' JNull)
     ((sample_server 100)\<lparr>sv_allowlist := sample_al\<lparr>al_wallets := [''aa'', ''cc'']\<rparr>, sv_watch := sample_ws\<lparr>ws_sets := [(''cc'', [''bc1c''])]\<rparr>\<rparr>))"
proof -
  let ?st = "sample_server (100 :: usize)"
  let ?st2 = "?st\<lparr>sv_allowlist := sample_al\<lparr>al_wallets := [''aa'', ''cc'']\<rparr>, sv_watch := sample_ws\<lparr>ws_sets := [(''cc'', [''bc1c''])]\<rparr>\<rparr>"
  have c: "total_codec bts_ok (tr_al_codec writable_transport)" "total_codec btm_ok (hd_codec (tr_handlers writable_transport))"
    using writable_libs_codecs(2) by (simp_all add: writable_transport_def sample_transport_def writable_def)
  have ok: "server_ok ?st" by (rule sample_server_ok)
  then have ok2: "server_ok ?st2"
    by (simp add: server_ok_def al_ok_def bts_ok_def ws_ok_def btm_ok_def)
  have v: "same_view (rq_now sample_rq) ''evil'' (sample_env ''ping'' JNull) ?st ?st2"
    by (simp add: same_view_def sample_server_def sample_al_def is_paired_def sample_env_def)
  from answers_depend_on_own_state [OF c ok ok2 v] show ?thesis .
qed

end
