(* ===== verification/WatcherRuns.thy ===== *)
theory WatcherRuns
  imports WatcherProps
begin

text \<open>
  The notifications of the watcher of \<open>server/src/watcher.rs\<close> over a run of its ticks: between two ticks that know
  a wallet, each transaction that came up and each that got its first confirmation is notified once; summed over
  a run, that is at most once as unconfirmed and once as confirmed.
\<close>

section \<open>What a tick adds to the notifications about one transaction\<close>

definition confirmed :: "observation \<Rightarrow> string \<Rightarrow> bool" where
  "confirmed m t = (case map_of m t of None \<Rightarrow> False | Some h \<Rightarrow> 0 < h)"

definition notices :: "string \<Rightarrow> string \<Rightarrow> bool \<Rightarrow> notification list \<Rightarrow> nat" where
  "notices pk t conf ns = length (filter (\<lambda>n. nt_wallet n = pk \<and> nt_txid n = t \<and> (0 < nt_height n) = conf) ns)"

text \<open>The notices due when a wallet's known transactions go from one table to another.\<close>

definition due :: "string \<Rightarrow> bool \<Rightarrow> observation \<Rightarrow> observation \<Rightarrow> nat" where
  "due t conf a b =
     (if conf then (if confirmed b t \<and> \<not> confirmed a t then 1 else 0)
      else (if map_of b t \<noteq> None \<and> \<not> confirmed b t \<and> map_of a t = None then 1 else 0))"

definition told :: "string \<Rightarrow> bool \<Rightarrow> observation option \<Rightarrow> observation option \<Rightarrow> nat \<Rightarrow> bool" where
  "told t conf kn kn' k \<longleftrightarrow> (kn = None \<longrightarrow> k = 0) \<and> (\<forall>a b. kn = Some a \<longrightarrow> kn' = Some b \<longrightarrow> k = due t conf a b)"

lemma notices_simps [simp]:
  "notices pk t conf [] = 0" "notices pk t conf (xs @ ys) = notices pk t conf xs + notices pk t conf ys"
  by (simp_all add: notices_def)

lemma notices_other: "\<forall>n \<in> set ns. nt_wallet n \<noteq> pk \<Longrightarrow> notices pk t conf ns = 0"
  by (auto simp: notices_def filter_empty_conv)

lemma due_same [simp]: "due t conf a a = 0"
  by (auto simp: due_def)

lemma told_same [simp]: "told t conf kn kn 0"
  by (auto simp: told_def)

lemma notices_deltas:
  assumes "w_from_hex W w = Some pk"
  shows "notices pk t conf (send_deltas W w f touched ds) = news_count t conf ds"
proof -
  have "notices pk t conf (sent_to pk f A ds) = length (filter (\<lambda>p. fst (snd p) = t \<and> (0 < snd (snd p)) = conf) (enumerate 0 ds))" for A
    by (simp add: notices_def sent_to_def filter_map comp_def split_beta)
  also have "\<dots> = length (filter (\<lambda>p. fst p = t \<and> (0 < snd p) = conf) (map snd (enumerate 0 ds)))"
    by (simp only: filter_map comp_def length_map)
  finally show ?thesis unfolding send_deltas_known [OF assms] by (simp add: news_count_def)
qed

lemma news_due:
  assumes "iter_ok iter" "hm_ok b"
  shows "news_count t conf (diff iter (Some a) b) = due t conf a b"
  unfolding news_count_diff [OF assms]
  by (auto simp: due_def confirmed_def is_news_def word_neq_0_conv split: option.splits)

text \<open>The table that a scan fills has each transaction once.\<close>

lemma scan_chunk_ok: "hm_ok (fst ct) \<Longrightarrow> scan_chunk L as k hists ct = Ret ct' \<Longrightarrow> hm_ok (fst ct')"
proof (induction L as k hists ct rule: scan_chunk.induct)
  case (2 L as k hist hists ct)
  have "hm_ok (fst (foldl (scan_entry L a) ct hist))" for a
    using 2(2) by (induction hist arbitrary: ct) (simp_all add: scan_entry_def Let_def)
  with 2 show ?case by (simp split: if_splits)
qed simp

lemma scan_chunks_ok: "hm_ok (fst ct) \<Longrightarrow> scan_chunks W as i cs ct s = (Ret (Inr ct'), s') \<Longrightarrow> hm_ok (fst ct')"
proof (induction W as i cs ct s rule: scan_chunks.induct)
  case (2 W as i c cs ct s)
  then show ?case by (auto split: prod.splits sum.splits run.splits dest: scan_chunk_ok)
qed simp

lemma tick_wallet_told:
  assumes "iter_ok (w_iter W)" "w_from_hex W w = Some pk"
    and "tick_wallet W te w addrs (state, d, s) = ((r, out), (state', d', s'))"
  shows "told t conf (map_of state w) (map_of state' w) (notices pk t conf out)"
proof -
  consider "out = []" "state' = state"
    | cur touched where "hm_ok cur" "state' = hm_insert w cur state"
        "out = send_deltas W w (te_fresh te w) touched (diff (w_iter W) (map_of state w) cur)"
    using assms(3) scan_chunks_ok [of "([], [])"]
    by (fastforce simp: tick_wallet_def Let_def split: if_splits prod.splits run.splits sum.splits)
  then show ?thesis
  proof cases
    case 2
    have "notices pk t conf out = news_count t conf (diff (w_iter W) (map_of state w) cur)"
      unfolding 2(3) by (rule notices_deltas [OF assms(2)])
    then show ?thesis
      using news_due [OF assms(1) 2(1)] 2(2) by (cases "map_of state w") (auto simp: told_def diff_def news_count_def)
  qed simp
qed

lemma tick_wallets_told:
  assumes "iter_ok (w_iter W)" "w_from_hex W w = Some pk" "distinct (map fst snap)"
    and "\<forall>v \<in> fst ` set snap. w_from_hex W v = Some pk \<longrightarrow> v = w"
    and "tick_wallets W te snap (state, d, s) = ((r, out), (state', d', s'))"
  shows "told t conf (map_of state w) (map_of state' w) (notices pk t conf out)"
  using assms(3-5)
proof (induction snap arbitrary: state d s r out state' d' s')
  case Nil
  then show ?case by simp
next
  case (Cons p snap)
  obtain v addrs where p: "p = (v, addrs)" by (cases p)
  have dist: "distinct (map fst snap)" "v \<notin> fst ` set snap" and keys: "\<forall>u \<in> fst ` set snap. w_from_hex W u = Some pk \<longrightarrow> u = w"
    using Cons.prems(1,2) by (auto simp: p)
  show ?case
  proof (cases "te_paired te v")
    case False
    then show ?thesis using Cons.IH [OF dist(1) keys] Cons.prems(3) by (simp add: p)
  next
    case True
    obtain r1 o1 state1 d1 s1 where t: "tick_wallet W te v addrs (state, d, s) = ((r1, o1), (state1, d1, s1))"
      by (metis surj_pair)
    obtain r2 o2 state2 d2 s2 where rest: "tick_wallets W te snap (state1, d1, s1) = ((r2, o2), (state2, d2, s2))"
      by (metis surj_pair)
    note one = tick_wallet_out [OF t] and more = tick_wallets_out [OF rest dist(1)]
    have out: "out = o1 \<and> state' = state1 \<or> out = o1 @ o2 \<and> state' = state2"
      using Cons.prems(3) True t rest by (auto simp: p split: run.splits)
    show ?thesis
    proof (cases "v = w")
      case True
      have o2: "notices pk t conf o2 = 0" by (rule notices_other) (use more keys dist(2) True assms(2) in force)
      have "map_of state2 w = map_of state1 w" using more dist(2) True by blast
      with o2 tick_wallet_told [OF assms(1,2), of te addrs state d s r1 o1 state1 d1 s1 t conf] t out True
      show ?thesis by auto
    next
      case False
      have o1: "notices pk t conf o1 = 0" by (rule notices_other) (use one Cons.prems(2) False in \<open>force simp: p\<close>)
      have same: "map_of state1 w = map_of state w" using one False by simp
      with Cons.IH [OF dist(1) keys rest] o1 out show ?thesis by auto
    qed
  qed
qed

lemma map_of_filter_keys: "map_of (filter (\<lambda>p. Q (fst p)) m) k = (if Q k then map_of m k else None)"
  by (induction m) auto

lemma tick_told:
  assumes "iter_ok (w_iter W)" "w_from_hex W w = Some pk" "btm_ok snap"
    and "\<forall>v \<in> fst ` set snap. w_from_hex W v = Some pk \<longrightarrow> v = w"
    and "tick W te snap (state, d, s) = ((r, out), (state', d', s'))"
  shows "told t conf (map_of state w) (map_of state' w) (notices pk t conf out)"
proof -
  obtain r1 o1 state1 d1 s1 where t: "tick_wallets W te snap (state, d, s) = ((r1, o1), (state1, d1, s1))"
    by (metis surj_pair)
  have "distinct (map fst snap)" using assms(3) by (simp add: btm_ok_def bts_ok_def)
  note one = tick_wallets_told [OF assms(1,2) this assms(4) t, of _ conf]
  have "out = o1 \<and> (state' = state1 \<or> state' = filter (\<lambda>p. map_of snap (fst p) \<noteq> None) state1)"
    using assms(5) t by (auto simp: tick_def Let_def split: run.splits)
  then show ?thesis
    using one map_of_filter_keys [of "\<lambda>k. map_of snap k \<noteq> None" state1 w] by (auto simp: told_def split: if_splits)
qed

section \<open>Summing up over a run\<close>

text \<open>Nothing known disappears, and nothing confirmed loses its confirmation.\<close>

definition grows :: "observation \<Rightarrow> observation \<Rightarrow> bool" where
  "grows a b \<longleftrightarrow> (\<forall>t. map_of a t \<noteq> None \<longrightarrow> map_of b t \<noteq> None \<and> (confirmed a t \<longrightarrow> confirmed b t))"

lemma confirmed_known: "confirmed m t \<Longrightarrow> map_of m t \<noteq> None"
  by (cases "map_of m t") (simp_all add: confirmed_def)

lemma due_total:
  fixes K :: "nat \<Rightarrow> observation" and j :: nat and t :: string
  defines "T \<equiv> \<lambda>n. \<Sum>i = j..<n. due t True (K i) (K (Suc i))" and "F \<equiv> \<lambda>n. \<Sum>i = j..<n. due t False (K i) (K (Suc i))"
  assumes "\<forall>i. j \<le> i \<longrightarrow> i < n \<longrightarrow> grows (K i) (K (Suc i))" "j \<le> n"
  shows "T n = (if confirmed (K n) t \<and> \<not> confirmed (K j) t then 1 else 0) \<and> F n \<le> 1 \<and>
    (map_of (K j) t \<noteq> None \<longrightarrow> F n = 0) \<and> (map_of (K j) t = None \<and> map_of (K n) t \<noteq> None \<longrightarrow> 1 \<le> F n + T n) \<and>
    (0 < F n \<longrightarrow> map_of (K n) t \<noteq> None) \<and> (map_of (K j) t \<noteq> None \<longrightarrow> map_of (K n) t \<noteq> None) \<and>
    (confirmed (K j) t \<longrightarrow> confirmed (K n) t)"
  using assms(4,3)
proof (induction n rule: nat_induct_at_least)
  case base
  then show ?case by (cases "map_of (K j) t") (simp_all add: T_def F_def)
next
  case (Suc n)
  have g: "map_of (K n) t \<noteq> None \<longrightarrow> map_of (K (Suc n)) t \<noteq> None \<and> (confirmed (K n) t \<longrightarrow> confirmed (K (Suc n)) t)"
    using Suc by (simp add: grows_def)
  have T: "T (Suc n) = T n + (if confirmed (K (Suc n)) t \<and> \<not> confirmed (K n) t then 1 else 0)"
    and F: "F (Suc n) = F n + (if map_of (K (Suc n)) t \<noteq> None \<and> \<not> confirmed (K (Suc n)) t \<and> map_of (K n) t = None then 1 else 0)"
    using Suc.hyps by (simp_all add: T_def F_def due_def)
  have IH: "T n = (if confirmed (K n) t \<and> \<not> confirmed (K j) t then 1 else 0)" "F n \<le> 1" "map_of (K j) t \<noteq> None \<longrightarrow> F n = 0"
      "map_of (K j) t = None \<and> map_of (K n) t \<noteq> None \<longrightarrow> 1 \<le> F n + T n" "0 < F n \<longrightarrow> map_of (K n) t \<noteq> None"
      "map_of (K j) t \<noteq> None \<longrightarrow> map_of (K n) t \<noteq> None" "confirmed (K j) t \<longrightarrow> confirmed (K n) t"
    using Suc.IH Suc.prems by auto
  show ?case
    unfolding T F using IH g confirmed_known [of "K n" t] confirmed_known [of "K (Suc n)" t] confirmed_known [of "K j" t]
    by (cases "map_of (K j) t = None"; cases "map_of (K n) t = None"; cases "map_of (K (Suc n)) t = None";
        cases "confirmed (K (Suc n)) t"; cases "confirmed (K n) t") simp_all
qed

lemma notices_concat: "notices pk t conf (concat nss) = (\<Sum>i<length nss. notices pk t conf (nss ! i))"
proof (induction nss rule: rev_induct)
  case (snoc ns nss)
  then show ?case by (simp add: nth_append)
qed simp

section \<open>Property\<close>

text \<open>The watcher's ticks one after the other, each with its environment and its snapshot of the watch sets.\<close>

definition ticks_run ::
    "('a, 't, 's) watcher \<Rightarrow> 's tick_state \<Rightarrow> (tick_env \<times> (string, string list) btree_map) list
       \<Rightarrow> (unit run \<times> notification list) list \<times> 's tick_state" where
  "ticks_run W = exec (\<lambda>st x. tick W (fst x) (snd x) st)"

text \<open>What the watcher knows of a wallet after the first \<open>i\<close> ticks.\<close>

definition known_after ::
    "('a, 't, 's) watcher \<Rightarrow> 's tick_state \<Rightarrow> (tick_env \<times> (string, string list) btree_map) list \<Rightarrow> string \<Rightarrow> nat
       \<Rightarrow> observation option" where
  "known_after W st ticks w i = map_of (fst (snd (ticks_run W st (take i ticks)))) w"

lemma run_told:
  assumes "iter_ok (w_iter W)" "w_from_hex W w = Some pk" "i < length ticks"
    and "\<forall>x \<in> set ticks. btm_ok (snd x) \<and> (\<forall>v \<in> fst ` set (snd x). w_from_hex W v = Some pk \<longrightarrow> v = w)"
  shows "told t conf (known_after W st ticks w i) (known_after W st ticks w (Suc i))
    (notices pk t conf (snd (fst (ticks_run W st ticks) ! i)))"
proof -
  obtain state d s where a: "snd (ticks_run W st (take i ticks)) = (state, d, s)" by (metis prod_cases3)
  obtain r out state' d' s' where b: "tick W (fst (ticks ! i)) (snd (ticks ! i)) (state, d, s) = ((r, out), (state', d', s'))"
    by (metis surj_pair)
  note n = exec_nth [OF assms(3), of "\<lambda>st x. tick W (fst x) (snd x) st" st, folded ticks_run_def]
  have "fst (ticks_run W st ticks) ! i = (r, out)" "snd (ticks_run W st (take (Suc i) ticks)) = (state', d', s')"
    using n a b by simp_all
  moreover have "ticks ! i \<in> set ticks" using assms(3) by simp
  ultimately show ?thesis using tick_told [OF assms(1,2) _ _ b, of t conf] assms(4) a by (simp add: known_after_def)
qed

text \<open>
  C26. Exactly one notification per event: run any ticks of the watcher, over any wallets and with any failures, and
  take a wallet whose key no other watched wallet has; from the tick \<open>j\<close> on the watcher knows it, and as long as
  nothing it knows of the wallet disappears or loses its confirmation (no replacement, no reorganisation), the wallet
  is told of a transaction as confirmed exactly once if it got confirmed after that first observation and never
  otherwise, at most once as unconfirmed, and never so if it was there at first; and it is told of every transaction
  that came up since.
\<close>

theorem notified_exactly_once:
  assumes "iter_ok (w_iter W)" "w_from_hex W w = Some pk"
    and "\<forall>x \<in> set ticks. btm_ok (snd x) \<and> (\<forall>v \<in> fst ` set (snd x). w_from_hex W v = Some pk \<longrightarrow> v = w)"
    and "j \<le> length ticks" "\<forall>i < j. known_after W st ticks w i = None" "known_after W st ticks w j = Some first"
    and "\<forall>i. j \<le> i \<longrightarrow> i < length ticks \<longrightarrow>
      (\<exists>a b. known_after W st ticks w i = Some a \<and> known_after W st ticks w (Suc i) = Some b \<and> grows a b)"
  shows "let ns = concat (map snd (fst (ticks_run W st ticks))); z = the (known_after W st ticks w (length ticks)) in
    notices pk t True ns = (if confirmed z t \<and> \<not> confirmed first t then 1 else 0) \<and>
    notices pk t False ns \<le> 1 \<and>
    (map_of first t \<noteq> None \<longrightarrow> notices pk t False ns = 0) \<and>
    (map_of first t = None \<and> map_of z t \<noteq> None \<longrightarrow> 1 \<le> notices pk t False ns + notices pk t True ns)"
proof -
  let ?n = "length ticks" and ?K = "\<lambda>i. the (known_after W st ticks w i)" and ?outs = "fst (ticks_run W st ticks)"
  have len: "length ?outs = ?n" by (simp add: ticks_run_def)
  note told = run_told [OF assms(1,2) _ assms(3)]
  have sum: "notices pk t conf (concat (map snd ?outs)) = (\<Sum>i = j..<?n. due t conf (?K i) (?K (Suc i)))" for conf
  proof -
    have "notices pk t conf (concat (map snd ?outs)) = (\<Sum>i = 0..<?n. notices pk t conf (snd (?outs ! i)))"
      by (simp add: notices_concat len atLeast0LessThan)
    also have "\<dots> = (\<Sum>i = 0..<j. notices pk t conf (snd (?outs ! i))) + (\<Sum>i = j..<?n. notices pk t conf (snd (?outs ! i)))"
      by (rule sum.atLeastLessThan_concat [symmetric]) (use assms(4) in simp_all)
    also have "(\<Sum>i = 0..<j. notices pk t conf (snd (?outs ! i))) = 0"
      using told [of _ t conf] assms(4,5) by (auto simp: told_def)
    also have "(\<Sum>i = j..<?n. notices pk t conf (snd (?outs ! i))) = (\<Sum>i = j..<?n. due t conf (?K i) (?K (Suc i)))"
    proof (rule sum.cong [OF refl])
      fix i
      assume i: "i \<in> {j..<?n}"
      then obtain a b where "known_after W st ticks w i = Some a" "known_after W st ticks w (Suc i) = Some b"
        using assms(7) by auto
      with told [of i t conf] i show "notices pk t conf (snd (?outs ! i)) = due t conf (?K i) (?K (Suc i))"
        by (simp add: told_def)
    qed
    finally show ?thesis by simp
  qed
  have "\<forall>i. j \<le> i \<longrightarrow> i < ?n \<longrightarrow> grows (?K i) (?K (Suc i))" using assms(7) by fastforce
  from due_total [OF this assms(4), of t] assms(6) show ?thesis by (auto simp: Let_def sum)
qed

section \<open>Witness\<close>

text \<open>A node that reports a transaction without a block first, and with its block from then on.\<close>

definition mining_watcher :: "(string, unit, usize) watcher" where
  "mining_watcher = sample_watcher\<lparr>w_electrs := sample_backend\<lparr>be_histories :=
     (\<lambda>ss s. (Inr (map (\<lambda>_. [\<lparr>his_tx_hash = [99], his_height = (if s = 100 then - 1 else 91)\<rparr>]) ss), s + 1))\<rparr>\<rparr>"

lemma mining_tick:
  assumes "state \<in> {[], [(''aa'', m)]}"
  obtains out d' where "tick mining_watcher sample_te [(''aa'', [''bc1a''])] (state, d, s) =
    ((Ret (), out), ([(''aa'', [(''c'', if s = 100 then 0 else 91)])], d', s + 1))"
proof -
  have w: "watched mining_watcher [''bc1a''] = [(''bc1a'', map of_char ''bc1a'')]"
    by (simp add: watched_def mining_watcher_def sample_watcher_def sample_lib_def parse_address_def map_filter_simps)
  have sc: "scan_chunks mining_watcher [''bc1a''] 0 (chunks BATCH [x]) ([], []) s =
      (Ret (Inr ([(''c'', if s = 100 then 0 else 91)], [(''c'', [''bc1a''])])), s + 1)" for x :: script
    by (simp add: chunks.simps BATCH_def mining_watcher_def sample_watcher_def sample_backend_def sample_lib_def
        scan_entry_def sample_chars i32_max0_def Let_def)
  have "\<exists>out d'. tick mining_watcher sample_te [(''aa'', [''bc1a''])] (state, d, s) =
      ((Ret (), out), ([(''aa'', [(''c'', if s = 100 then 0 else 91)])], d', s + 1))"
    using assms by (auto simp: tick_def tick_wallet_def w sc sample_te_def Let_def)
  with that show thesis by blast
qed

theorem notified_exactly_once_witness:
  "let tick = (sample_te, [(''aa'', [''bc1a''])]); ns = concat (map snd (fst (ticks_run mining_watcher ([], Map.empty, 100) [tick, tick])))
   in notices ''aa'' ''c'' True ns = 1 \<and> notices ''aa'' ''c'' False ns = 0"
proof -
  let ?tick = "(sample_te, [(''aa'', [''bc1a''])])" and ?st = "([], Map.empty, 100) :: usize tick_state"
  let ?known = "known_after mining_watcher ?st [?tick, ?tick] ''aa''"
  obtain out d where t1: "tick mining_watcher sample_te [(''aa'', [''bc1a''])] ?st = ((Ret (), out), ([(''aa'', [(''c'', 0)])], d, 101))"
    by (rule mining_tick [of "[]" "[]" Map.empty 100]) simp_all
  obtain out2 d2 where t2: "tick mining_watcher sample_te [(''aa'', [''bc1a''])] ([(''aa'', [(''c'', 0)])], d, 101) =
      ((Ret (), out2), ([(''aa'', [(''c'', 91)])], d2, 102))"
    by (rule mining_tick [of "[(''aa'', [(''c'', 0)])]" "[(''c'', 0)]" d 101]) simp_all
  have k: "?known 0 = None" "?known 1 = Some [(''c'', 0)]" "?known 2 = Some [(''c'', 91)]"
    by (simp_all add: known_after_def ticks_run_def t1 t2 numeral_2_eq_2)
  have i: "iter_ok (w_iter mining_watcher)" and key: "w_from_hex mining_watcher ''aa'' = Some ''aa''"
    by (simp_all add: mining_watcher_def sample_watcher_def iter_ok_def)
  have snaps: "\<forall>x \<in> set [?tick, ?tick]. btm_ok (snd x) \<and>
      (\<forall>v \<in> fst ` set (snd x). w_from_hex mining_watcher v = Some ''aa'' \<longrightarrow> v = ''aa'')"
    by (simp add: btm_ok_def bts_ok_def)
  have g: "grows [(''c'', 0)] [(''c'', 91)]" by (auto simp: grows_def confirmed_def)
  have grow: "\<forall>i. 1 \<le> i \<longrightarrow> i < length [?tick, ?tick] \<longrightarrow>
      (\<exists>a b. ?known i = Some a \<and> ?known (Suc i) = Some b \<and> grows a b)"
  proof (intro allI impI)
    fix i :: nat
    assume "1 \<le> i" "i < length [?tick, ?tick]"
    then have i: "i = 1" "Suc i = 2" by simp_all
    show "\<exists>a b. ?known i = Some a \<and> ?known (Suc i) = Some b \<and> grows a b" unfolding i(2) unfolding i(1) using k(2,3) g by blast
  qed
  have one: "1 \<le> length [?tick, ?tick]" "\<forall>i < 1. ?known i = None" using k(1) by simp_all
  note w = notified_exactly_once [OF i key snaps one k(2) grow, of "''c''"]
  have z: "the (?known (length [?tick, ?tick])) = [(''c'', 91)]" using k(3) by (simp add: numeral_2_eq_2)
  show ?thesis using w unfolding z Let_def by (simp add: confirmed_def)
qed

end
