(* ===== verification/Gate.thy ===== *)
theory Gate
  imports Electrs
begin

text \<open>
  \<open>Electrs::call\<close> of \<open>server/src/electrs.rs\<close> under concurrency: the transport, the watcher and the health
  page call it at the same time. Every call is a little state machine; the gate (a fair semaphore with one
  permit), the two stamps behind mutexes and the tasks on the blocking pool are shared. A step is what
  runs between two awaits of one call. A task whose call timed out, or whose caller went away (the web
  server drops the handler of a closed connection), stays on the pool until it ends by itself.
\<close>

section \<open>Calls, the gate and the steps\<close>

type_synonym call_id = nat

text \<open>
  The stages of a call: waiting for the permit; sleeping until the given time for the spacing; waiting for
  the task until the given deadline; answered; dropped by its caller.
\<close>

datatype stage =
    Waiting
  | Spacing nat
  | Working nat
  | Answered "backend_error + unit"
  | Gone

record gate =
  gt_now :: nat
  gt_cooldown :: "nat option"
  gt_last :: "nat option"
  gt_holder :: "call_id option"
  gt_queue :: "call_id list"
  gt_stage :: "call_id \<rightharpoonup> stage"
  gt_tasks :: "call_id list"
  gt_starts :: "nat list"

text \<open>\<open>gt_starts\<close> records when work was started on the backend, the newest first.\<close>

definition gate_new :: gate where
  "gate_new =
     \<lparr>gt_now = 0, gt_cooldown = None, gt_last = None, gt_holder = None, gt_queue = [],
      gt_stage = Map.empty, gt_tasks = [], gt_starts = []\<rparr>"

definition cooling :: "gate \<Rightarrow> bool" where
  "cooling g = (case gt_cooldown g of None \<Rightarrow> False | Some until \<Rightarrow> gt_now g < until)"

definition spacing_left :: "gate \<Rightarrow> nat" where
  "spacing_left g = (case gt_last g of None \<Rightarrow> 0 | Some t \<Rightarrow> CALL_SPACING - (gt_now g - t))"

definition abandoned :: "gate \<Rightarrow> call_id \<Rightarrow> bool" where
  "abandoned g c \<longleftrightarrow> gt_stage g c = Some (Answered (Inl Timeout)) \<or> gt_stage g c = Some Gone"

datatype gate_event =
    Enter call_id
  | Acquire call_id
  | Start call_id
  | Finish call_id "string option"
  | Expire call_id
  | Drop call_id
  | TaskEnds call_id
  | Pass nat

text \<open>The answer of a finished task: a value, or the text of an error of the client or of the join.\<close>

definition answer_of :: "string option \<Rightarrow> backend_error + unit" where
  "answer_of r = (case r of None \<Rightarrow> Inr () | Some msg \<Rightarrow> Inl (Electrum msg))"

inductive gate_step :: "(call_id \<Rightarrow> nat) \<Rightarrow> gate \<Rightarrow> gate_event \<Rightarrow> gate \<Rightarrow> bool" for timeout where
  refused: "gt_stage g c = None \<Longrightarrow> cooling g \<Longrightarrow>
    gate_step timeout g (Enter c) (g\<lparr>gt_stage := (gt_stage g)(c \<mapsto> Answered (Inl Cooldown))\<rparr>)"
| queued: "gt_stage g c = None \<Longrightarrow> \<not> cooling g \<Longrightarrow>
    gate_step timeout g (Enter c) (g\<lparr>gt_stage := (gt_stage g)(c \<mapsto> Waiting), gt_queue := gt_queue g @ [c]\<rparr>)"
| acquired: "gt_holder g = None \<Longrightarrow> gt_queue g = c # q \<Longrightarrow>
    gate_step timeout g (Acquire c)
      (g\<lparr>gt_holder := Some c, gt_queue := q, gt_last := Some (gt_now g),
         gt_stage := (gt_stage g)(c \<mapsto> Spacing (gt_now g + spacing_left g))\<rparr>)"
| started: "gt_stage g c = Some (Spacing u) \<Longrightarrow> u \<le> gt_now g \<Longrightarrow>
    gate_step timeout g (Start c)
      (g\<lparr>gt_stage := (gt_stage g)(c \<mapsto> Working (gt_now g + timeout c)), gt_tasks := c # gt_tasks g,
         gt_starts := gt_now g # gt_starts g\<rparr>)"
| finished: "gt_stage g c = Some (Working u) \<Longrightarrow>
    gate_step timeout g (Finish c r)
      (g\<lparr>gt_stage := (gt_stage g)(c \<mapsto> Answered (answer_of r)), gt_holder := None, gt_tasks := remove1 c (gt_tasks g)\<rparr>)"
| expired: "gt_stage g c = Some (Working u) \<Longrightarrow> u \<le> gt_now g \<Longrightarrow>
    gate_step timeout g (Expire c)
      (g\<lparr>gt_stage := (gt_stage g)(c \<mapsto> Answered (Inl Timeout)), gt_holder := None,
         gt_cooldown := Some (gt_now g + COOLDOWN)\<rparr>)"
| left_queue: "gt_stage g c = Some Waiting \<Longrightarrow>
    gate_step timeout g (Drop c) (g\<lparr>gt_stage := (gt_stage g)(c \<mapsto> Gone), gt_queue := remove1 c (gt_queue g)\<rparr>)"
| left_spacing: "gt_stage g c = Some (Spacing u) \<Longrightarrow>
    gate_step timeout g (Drop c) (g\<lparr>gt_stage := (gt_stage g)(c \<mapsto> Gone), gt_holder := None\<rparr>)"
| left_working: "gt_stage g c = Some (Working u) \<Longrightarrow>
    gate_step timeout g (Drop c) (g\<lparr>gt_stage := (gt_stage g)(c \<mapsto> Gone), gt_holder := None\<rparr>)"
| task_ends: "c \<in> set (gt_tasks g) \<Longrightarrow> abandoned g c \<Longrightarrow>
    gate_step timeout g (TaskEnds c) (g\<lparr>gt_tasks := remove1 c (gt_tasks g)\<rparr>)"
| passes: "gate_step timeout g (Pass n) (g\<lparr>gt_now := gt_now g + n\<rparr>)"

inductive_simps gate_step_simps:
  "gate_step timeout g (Enter c) h" "gate_step timeout g (Acquire c) h" "gate_step timeout g (Start c) h"
  "gate_step timeout g (Finish c r) h" "gate_step timeout g (Expire c) h" "gate_step timeout g (Drop c) h"
  "gate_step timeout g (TaskEnds c) h" "gate_step timeout g (Pass n) h"

section \<open>The steps as a function\<close>

text \<open>Every event has at most one outcome, so that a run can be computed.\<close>

fun gate_do :: "(call_id \<Rightarrow> nat) \<Rightarrow> gate \<Rightarrow> gate_event \<Rightarrow> gate option" where
  "gate_do timeout g (Enter c) =
     (if gt_stage g c \<noteq> None then None
      else if cooling g then Some (g\<lparr>gt_stage := (gt_stage g)(c \<mapsto> Answered (Inl Cooldown))\<rparr>)
      else Some (g\<lparr>gt_stage := (gt_stage g)(c \<mapsto> Waiting), gt_queue := gt_queue g @ [c]\<rparr>))"
| "gate_do timeout g (Acquire c) =
     (if gt_holder g = None \<and> gt_queue g \<noteq> [] \<and> hd (gt_queue g) = c then
        Some (g\<lparr>gt_holder := Some c, gt_queue := tl (gt_queue g), gt_last := Some (gt_now g),
                gt_stage := (gt_stage g)(c \<mapsto> Spacing (gt_now g + spacing_left g))\<rparr>)
      else None)"
| "gate_do timeout g (Start c) =
     (case gt_stage g c of
        Some (Spacing u) \<Rightarrow>
          if u \<le> gt_now g then
            Some (g\<lparr>gt_stage := (gt_stage g)(c \<mapsto> Working (gt_now g + timeout c)), gt_tasks := c # gt_tasks g,
                    gt_starts := gt_now g # gt_starts g\<rparr>)
          else None
      | _ \<Rightarrow> None)"
| "gate_do timeout g (Finish c r) =
     (case gt_stage g c of
        Some (Working u) \<Rightarrow>
          Some (g\<lparr>gt_stage := (gt_stage g)(c \<mapsto> Answered (answer_of r)), gt_holder := None, gt_tasks := remove1 c (gt_tasks g)\<rparr>)
      | _ \<Rightarrow> None)"
| "gate_do timeout g (Expire c) =
     (case gt_stage g c of
        Some (Working u) \<Rightarrow>
          if u \<le> gt_now g then
            Some (g\<lparr>gt_stage := (gt_stage g)(c \<mapsto> Answered (Inl Timeout)), gt_holder := None,
                    gt_cooldown := Some (gt_now g + COOLDOWN)\<rparr>)
          else None
      | _ \<Rightarrow> None)"
| "gate_do timeout g (Drop c) =
     (case gt_stage g c of
        Some Waiting \<Rightarrow> Some (g\<lparr>gt_stage := (gt_stage g)(c \<mapsto> Gone), gt_queue := remove1 c (gt_queue g)\<rparr>)
      | Some (Spacing u) \<Rightarrow> Some (g\<lparr>gt_stage := (gt_stage g)(c \<mapsto> Gone), gt_holder := None\<rparr>)
      | Some (Working u) \<Rightarrow> Some (g\<lparr>gt_stage := (gt_stage g)(c \<mapsto> Gone), gt_holder := None\<rparr>)
      | _ \<Rightarrow> None)"
| "gate_do timeout g (TaskEnds c) =
     (if c \<in> set (gt_tasks g) \<and> (gt_stage g c = Some (Answered (Inl Timeout)) \<or> gt_stage g c = Some Gone) then
        Some (g\<lparr>gt_tasks := remove1 c (gt_tasks g)\<rparr>)
      else None)"
| "gate_do timeout g (Pass n) = Some (g\<lparr>gt_now := gt_now g + n\<rparr>)"

lemma gate_do_step: "gate_do timeout g e = Some h \<longleftrightarrow> gate_step timeout g e h"
proof (cases e)
  case (Acquire c)
  then show ?thesis by (cases "gt_queue g") (auto simp: gate_step_simps)
qed (auto simp: gate_step_simps abandoned_def split: option.splits stage.splits)

fun gate_run :: "(call_id \<Rightarrow> nat) \<Rightarrow> gate \<Rightarrow> gate_event list \<Rightarrow> gate option" where
  "gate_run timeout g [] = Some g"
| "gate_run timeout g (e # es) = Option.bind (gate_do timeout g e) (\<lambda>h. gate_run timeout h es)"

lemma gate_run_path: "gate_run timeout g es = Some h \<Longrightarrow> path (gate_step timeout) g es h"
proof (induction es arbitrary: g)
  case Nil
  then show ?case by (simp add: path_nil)
next
  case (Cons e es)
  then obtain k where "gate_do timeout g e = Some k" "gate_run timeout k es = Some h"
    by (auto simp: bind_eq_Some_conv)
  with Cons.IH path_step [of "gate_step timeout"] show ?case by (simp add: gate_do_step)
qed

end
