(* ===== verification/GateProps.thy ===== *)
theory GateProps
  imports Gate
begin

text \<open>
  Properties of \<open>Electrs::call\<close> of \<open>server/src/electrs.rs\<close> under concurrency: who holds the permit, the pace of
  the work started, the tasks that outlive their calls, the breaker, and one caller alone.
\<close>

section \<open>The invariant\<close>

definition active :: "gate \<Rightarrow> call_id \<Rightarrow> bool" where
  "active g c \<longleftrightarrow> (\<exists>u. gt_stage g c = Some (Spacing u) \<or> gt_stage g c = Some (Working u))"

definition working :: "gate \<Rightarrow> call_id \<Rightarrow> bool" where
  "working g c \<longleftrightarrow> (\<exists>u. gt_stage g c = Some (Working u))"

text \<open>What the queue, the permit and the pool say of a call in each of its stages.\<close>

definition call_ok :: "gate \<Rightarrow> call_id \<Rightarrow> bool" where
  "call_ok g c =
     (case gt_stage g c of
        None \<Rightarrow> c \<notin> set (gt_queue g) \<and> gt_holder g \<noteq> Some c \<and> c \<notin> set (gt_tasks g)
      | Some st \<Rightarrow>
          (case st of
             Waiting \<Rightarrow> c \<in> set (gt_queue g) \<and> gt_holder g \<noteq> Some c \<and> c \<notin> set (gt_tasks g)
           | Spacing u \<Rightarrow> c \<notin> set (gt_queue g) \<and> gt_holder g = Some c \<and> c \<notin> set (gt_tasks g)
           | Working u \<Rightarrow> c \<notin> set (gt_queue g) \<and> gt_holder g = Some c \<and> c \<in> set (gt_tasks g)
           | Answered r \<Rightarrow> c \<notin> set (gt_queue g) \<and> gt_holder g \<noteq> Some c \<and> (c \<in> set (gt_tasks g) \<longrightarrow> r = Inl Timeout)
           | Gone \<Rightarrow> c \<notin> set (gt_queue g) \<and> gt_holder g \<noteq> Some c))"

definition permit_ok :: "gate \<Rightarrow> bool" where
  "permit_ok g \<longleftrightarrow> distinct (gt_queue g) \<and> distinct (gt_tasks g) \<and> (\<forall>c. call_ok g c)"

lemma permit_ok_new: "permit_ok gate_new"
  by (simp add: permit_ok_def gate_new_def call_ok_def)

lemma permit_ok_call: "permit_ok g \<Longrightarrow> call_ok g c"
  by (simp add: permit_ok_def)

lemma waiting_queued: "permit_ok g \<Longrightarrow> c \<in> set (gt_queue g) \<longleftrightarrow> gt_stage g c = Some Waiting"
  using permit_ok_call [of g c] by (auto simp: call_ok_def split: option.splits stage.splits)

lemma active_holder: "permit_ok g \<Longrightarrow> active g c \<longleftrightarrow> gt_holder g = Some c"
  using permit_ok_call [of g c] by (auto simp: call_ok_def active_def split: option.splits stage.splits)

lemma task_stage: "permit_ok g \<Longrightarrow> c \<in> set (gt_tasks g) \<Longrightarrow> working g c \<or> abandoned g c"
  using permit_ok_call [of g c] by (auto simp: call_ok_def working_def abandoned_def split: option.splits stage.splits)

lemma permit_ok_step:
  assumes "permit_ok g" "gate_step timeout g e h"
  shows "permit_ok h"
proof -
  have q: "distinct (gt_queue g)" "distinct (gt_tasks g)" using assms(1) by (simp_all add: permit_ok_def)
  note ok = permit_ok_call [OF assms(1)]
  have holds: "gt_stage g c = Some (Spacing u) \<Longrightarrow> gt_holder g = Some c"
      "gt_stage g c = Some (Working u) \<Longrightarrow> gt_holder g = Some c" for c u
    using active_holder [OF assms(1), of c] by (auto simp: active_def)
  note split = call_ok_def abandoned_def answer_of_def
  have "call_ok h d" for d
    using assms(2)
    by cases (use ok [of d] q in \<open>auto simp: split dest: holds split: option.splits stage.splits if_splits\<close>)
  moreover have "distinct (gt_queue h) \<and> distinct (gt_tasks h)"
    using assms(2)
  proof cases
    case (queued c)
    then show ?thesis using ok [of c] q by (simp add: call_ok_def)
  next
    case (started c u)
    then show ?thesis using ok [of c] q by (simp add: call_ok_def)
  qed (use q in auto)
  ultimately show ?thesis by (simp add: permit_ok_def)
qed

interpretation permit: stable_relation "gate_step timeout" permit_ok for timeout
  by unfold_locales (rule permit_ok_step)

section \<open>Pacing\<close>

text \<open>
  Of three consecutive starts the last is at least 100 ms after the first. What makes it so: a call that
  sleeps for the spacing will not start before that, and the stamp is never older than the last but one start.
\<close>

fun paced :: "nat list \<Rightarrow> bool" where
  "paced (a # b # c # ts) \<longleftrightarrow> c + CALL_SPACING \<le> a \<and> b \<le> a \<and> paced (b # c # ts)"
| "paced [a, b] \<longleftrightarrow> b \<le> a"
| "paced _ \<longleftrightarrow> True"

fun stamp_covers :: "nat list \<Rightarrow> nat option \<Rightarrow> bool" where
  "stamp_covers (a # b # ts) m \<longleftrightarrow> (\<exists>s. m = Some s \<and> b \<le> s)"
| "stamp_covers [a] m \<longleftrightarrow> m \<noteq> None"
| "stamp_covers [] m \<longleftrightarrow> True"

fun sleep_covers :: "nat list \<Rightarrow> nat option \<Rightarrow> nat \<Rightarrow> bool" where
  "sleep_covers (a # b # ts) m u \<longleftrightarrow> b + CALL_SPACING \<le> u \<and> (\<exists>s. m = Some s \<and> a \<le> s)"
| "sleep_covers [a] m u \<longleftrightarrow> (\<exists>s. m = Some s \<and> a \<le> s)"
| "sleep_covers [] m u \<longleftrightarrow> m \<noteq> None"

definition paced_ok :: "gate \<Rightarrow> bool" where
  "paced_ok g \<longleftrightarrow> permit_ok g \<and> paced (gt_starts g) \<and> (\<forall>t \<in> set (gt_starts g). t \<le> gt_now g) \<and>
     (\<forall>s. gt_last g = Some s \<longrightarrow> s \<le> gt_now g) \<and> stamp_covers (gt_starts g) (gt_last g) \<and>
     (\<forall>c u. gt_stage g c = Some (Spacing u) \<longrightarrow> sleep_covers (gt_starts g) (gt_last g) u)"

lemma paced_ok_new: "paced_ok gate_new"
  by (simp add: paced_ok_def permit_ok_new) (simp add: gate_new_def)

lemma acquire_covers:
  assumes "\<forall>t \<in> set ts. t \<le> now" "\<forall>s. m = Some s \<longrightarrow> s \<le> now" "stamp_covers ts m"
  shows "stamp_covers ts (Some now)"
    and "sleep_covers ts (Some now) (now + (case m of None \<Rightarrow> 0 | Some t \<Rightarrow> CALL_SPACING - (now - t)))"
  using assms by (cases "(ts, m)" rule: stamp_covers.cases; force)+

lemma start_covers:
  assumes "sleep_covers ts m u" "u \<le> now" "\<forall>t \<in> set ts. t \<le> now" "paced ts"
  shows "stamp_covers (now # ts) m" and "paced (now # ts)"
  using assms by (cases "(ts, m, u)" rule: sleep_covers.cases; force)+

lemma one_spacing: "permit_ok g \<Longrightarrow> gt_holder g = None \<Longrightarrow> gt_stage g c \<noteq> Some (Spacing u)"
  using active_holder [of g c] by (auto simp: active_def)

lemma spacing_alone:
  assumes "permit_ok g" "gt_stage g c = Some (Spacing u)" "gt_stage g d = Some (Spacing v)"
  shows "d = c"
proof -
  have "active g c" "active g d" using assms(2,3) by (auto simp: active_def)
  with assms(1) show ?thesis by (simp add: active_holder)
qed

lemma paced_ok_step:
  assumes "paced_ok g" "gate_step timeout g e h"
  shows "paced_ok h"
proof -
  have p: "permit_ok h" using permit_ok_step assms by (auto simp: paced_ok_def)
  show ?thesis
    using assms(2)
  proof cases
    case (acquired c q)
    have none: "gt_stage g d \<noteq> Some (Spacing v)" for d v
      using one_spacing assms(1) acquired(3) by (simp add: paced_ok_def)
    show ?thesis
      using p assms(1) none acquire_covers [of "gt_starts g" "gt_now g" "gt_last g"]
      by (auto simp: paced_ok_def acquired(2) spacing_left_def)
  next
    case (started c u)
    have alone: "gt_stage g d = Some (Spacing v) \<Longrightarrow> d = c" for d v
      using spacing_alone assms(1) started(3) by (auto simp: paced_ok_def)
    have "sleep_covers (gt_starts g) (gt_last g) u" using assms(1) started(3) by (simp add: paced_ok_def)
    then show ?thesis
      using p assms(1) started(4) start_covers [of "gt_starts g" "gt_last g" u "gt_now g"] alone
      by (auto simp: paced_ok_def started(2) dest: alone)
  qed (use assms(1) p in \<open>auto simp: paced_ok_def split: if_splits\<close>)
qed

interpretation pacing: stable_relation "gate_step timeout" paced_ok for timeout
  by unfold_locales (rule paced_ok_step)

lemma paced_nth: "paced ts \<Longrightarrow> i + 2 < length ts \<Longrightarrow> ts ! (i + 2) + CALL_SPACING \<le> ts ! i"
proof (induction ts arbitrary: i rule: paced.induct)
  case (1 a b c ts)
  then show ?case by (cases i) auto
qed auto

section \<open>Abandoned tasks\<close>

fun gives_up :: "gate_event \<Rightarrow> bool" where
  "gives_up (Expire c) = True"
| "gives_up (Drop c) = True"
| "gives_up _ = False"

lemma working_unique: "permit_ok g \<Longrightarrow> working g c \<Longrightarrow> gt_holder g = Some c"
  using active_holder [of g c] by (auto simp: active_def working_def)

lemma filter_one_more:
  assumes "distinct xs" "\<And>x. P x \<Longrightarrow> Q x \<or> x = c"
  shows "length (filter P xs) \<le> length (filter Q xs) + 1"
proof -
  have "card {x \<in> set xs. P x} \<le> card (insert c {x \<in> set xs. Q x})"
    using assms(2) by (intro card_mono) auto
  also have "\<dots> \<le> card {x \<in> set xs. Q x} + 1" by (simp add: card_insert_if)
  finally show ?thesis
    using assms(1) by (metis distinct_card distinct_filter set_filter)
qed

text \<open>How many tasks on the pool belong to calls that gave up.\<close>

definition orphans :: "gate \<Rightarrow> nat" where
  "orphans g = length (filter (abandoned g) (gt_tasks g))"

lemma tasks_split:
  assumes "permit_ok g"
  shows "length (gt_tasks g) \<le> 1 + orphans g"
proof -
  have d: "distinct (filter (working g) (gt_tasks g))" using assms by (simp add: permit_ok_def)
  have "set (filter (working g) (gt_tasks g)) \<subseteq> set_option (gt_holder g)"
    using working_unique [OF assms] by auto
  then have "card (set (filter (working g) (gt_tasks g))) \<le> card (set_option (gt_holder g))"
    by (intro card_mono) auto
  also have "\<dots> \<le> 1" by (cases "gt_holder g") auto
  finally have w: "length (filter (working g) (gt_tasks g)) \<le> 1"
    using distinct_card [OF d] by simp
  have "filter (\<lambda>c. \<not> working g c) (gt_tasks g) = filter (abandoned g) (gt_tasks g)"
  proof (rule filter_cong [OF refl])
    fix c
    assume "c \<in> set (gt_tasks g)"
    then show "(\<not> working g c) = abandoned g c"
      using task_stage [OF assms, of c] by (auto simp: working_def abandoned_def)
  qed
  then show ?thesis using w sum_length_filter_compl [of "working g" "gt_tasks g"] by (simp add: orphans_def)
qed

lemma orphans_one_more:
  assumes "permit_ok g" "gt_tasks h = gt_tasks g" "gt_stage h = (gt_stage g)(c \<mapsto> x)"
  shows "orphans h \<le> orphans g + 1"
proof -
  have "abandoned h d \<Longrightarrow> abandoned g d \<or> d = c" for d
    using assms(3) by (auto simp: abandoned_def split: if_splits)
  from filter_one_more [OF _ this, of "gt_tasks g"] assms(1,2) show ?thesis
    by (simp add: orphans_def permit_ok_def)
qed

lemma orphans_kept:
  assumes "distinct (gt_tasks h)" "set (gt_tasks h) \<subseteq> insert c (set (gt_tasks g))" "\<not> abandoned h c"
    and "\<And>d. d \<noteq> c \<Longrightarrow> abandoned h d \<Longrightarrow> abandoned g d"
  shows "orphans h \<le> orphans g"
proof -
  have "set (filter (abandoned h) (gt_tasks h)) \<subseteq> set (filter (abandoned g) (gt_tasks g))"
  proof
    fix x
    assume "x \<in> set (filter (abandoned h) (gt_tasks h))"
    then have x: "x \<in> set (gt_tasks h)" "abandoned h x" by auto
    with assms(3) have "x \<noteq> c" by auto
    with x assms(2) assms(4) [of x] show "x \<in> set (filter (abandoned g) (gt_tasks g))" by auto
  qed
  then have "card (set (filter (abandoned h) (gt_tasks h))) \<le> card (set (filter (abandoned g) (gt_tasks g)))"
    by (rule card_mono [rotated]) simp
  moreover have "card (set (filter (abandoned h) (gt_tasks h))) = length (filter (abandoned h) (gt_tasks h))"
    using assms(1) by (metis distinct_card distinct_filter)
  ultimately show ?thesis using card_length [of "filter (abandoned g) (gt_tasks g)"] by (simp add: orphans_def)
qed

lemma orphans_step:
  assumes "permit_ok g" "gate_step timeout g e h"
  shows "orphans h \<le> orphans g + (if gives_up e then 1 else 0)"
proof -
  have d: "distinct (gt_tasks h)" using permit_ok_step [OF assms] by (simp add: permit_ok_def)
  show ?thesis
    using assms(2)
  proof cases
    case (refused c)
    then have "orphans h \<le> orphans g"
      using d permit_ok_call [OF assms(1), of c]
      by (intro orphans_kept [of h c]) (auto simp: abandoned_def)
    then show ?thesis by simp
  next
    case (queued c)
    then have "orphans h \<le> orphans g" using d by (intro orphans_kept [of h c]) (auto simp: abandoned_def)
    then show ?thesis by simp
  next
    case (acquired c q)
    then have "orphans h \<le> orphans g" using d by (intro orphans_kept [of h c]) (auto simp: abandoned_def)
    then show ?thesis by simp
  next
    case (started c u)
    then have "orphans h \<le> orphans g" using d by (intro orphans_kept [of h c]) (auto simp: abandoned_def)
    then show ?thesis by simp
  next
    case (finished c u r)
    then have "orphans h \<le> orphans g"
      using d notin_set_remove1 [of _ "gt_tasks g"]
      by (intro orphans_kept [of h c]) (auto simp: abandoned_def answer_of_def split: option.splits)
    then show ?thesis by simp
  next
    case (task_ends c)
    have "length (filter (abandoned g) (remove1 c (gt_tasks g))) \<le> length (filter (abandoned g) (gt_tasks g))"
      by (simp add: filter_remove1 length_remove1)
    moreover have "abandoned h = abandoned g" using task_ends by (auto simp: abandoned_def)
    ultimately show ?thesis using task_ends by (simp add: orphans_def)
  next
    case (passes n)
    moreover have "abandoned h = abandoned g" using passes by (auto simp: abandoned_def)
    ultimately show ?thesis by (simp add: orphans_def)
  qed (use orphans_one_more [OF assms(1)] in auto)
qed

lemma path_orphans:
  "path (gate_step timeout) s es g \<Longrightarrow> s = gate_new \<Longrightarrow> permit_ok g \<and> orphans g \<le> length (filter gives_up es)"
proof (induction rule: path.induct)
  case (path_nil s)
  then show ?case using permit_ok_new by (simp add: gate_new_def orphans_def)
next
  case (path_snoc s es g e h)
  then have "permit_ok g" "orphans g \<le> length (filter gives_up es)" by auto
  with orphans_step [OF _ path_snoc.hyps(2)] permit_ok_step [OF _ path_snoc.hyps(2)] show ?case by force
qed

section \<open>The breaker\<close>

lemma cooldown_step:
  "gate_step timeout g e h \<Longrightarrow> gt_now g \<le> gt_now h \<and>
     (\<forall>u. gt_cooldown g = Some u \<longrightarrow> t \<le> u \<and> t \<le> gt_now g + COOLDOWN \<longrightarrow> (\<exists>v. gt_cooldown h = Some v \<and> t \<le> v))"
  by (erule gate_step.cases) auto

lemma cooldown_stays:
  "path (gate_step timeout) g es h \<Longrightarrow> \<exists>u. gt_cooldown g = Some u \<and> t \<le> u \<Longrightarrow> t \<le> gt_now g + COOLDOWN \<Longrightarrow>
     gt_now g \<le> gt_now h \<and> (\<exists>v. gt_cooldown h = Some v \<and> t \<le> v)"
proof (induction rule: path.induct)
  case (path_nil g)
  then show ?case by simp
next
  case (path_snoc g es h e k)
  then have "gt_now g \<le> gt_now h" "\<exists>v. gt_cooldown h = Some v \<and> t \<le> v" by auto
  with cooldown_step [OF path_snoc.hyps(2), of t] path_snoc.prems(2) show ?case by fastforce
qed

section \<open>One caller alone\<close>

text \<open>
  The sequential \<open>call\<close> of the theory \<open>Electrs\<close>, on a clock that only the call itself moves, is a run of the
  gate in which nobody else calls.
\<close>

definition erased :: "backend_error + 'a \<Rightarrow> backend_error + unit" where
  "erased r = (case r of Inl e \<Rightarrow> Inl e | Inr _ \<Rightarrow> Inr ())"

definition same_gate :: "gate \<Rightarrow> electrs \<times> nat \<Rightarrow> bool" where
  "same_gate g s \<longleftrightarrow> gt_cooldown g = cooldown_until (fst s) \<and> gt_last g = last_call (fst s) \<and> gt_now g = snd s \<and>
     gt_holder g = None \<and> gt_queue g = []"

text \<open>Work takes time, and it is only given up after its timeout.\<close>

definition honest_work :: "(nat, 'a) work \<Rightarrow> bool" where
  "honest_work f \<longleftrightarrow> (\<forall>url t w. w \<le> snd (f url t w)) \<and>
     (\<forall>url t w. fst (f url t w) = TimedOut \<longrightarrow> w + t \<le> snd (f url t w))"

lemma clock_runtime_simps [simp]:
  "rt_now clock_runtime w = w" "rt_acquire clock_runtime w = w" "rt_sleep clock_runtime d w = w + d"
  by (simp_all add: clock_runtime_def)

lemma spacing_left_updates [simp]:
  "spacing_left (g\<lparr>gt_stage := st\<rparr>) = spacing_left g" "spacing_left (g\<lparr>gt_queue := q\<rparr>) = spacing_left g"
  by (simp_all add: spacing_left_def split: option.split)

lemma lone_start:
  assumes "same_gate g (el, now)" "gt_stage g c = None" "\<not> in_cooldown clock_runtime el now"
    and "call_start clock_runtime el now = (el1, w)"
  shows "\<exists>es h. path (gate_step timeout) g es h \<and> gt_cooldown h = cooldown_until el1 \<and> gt_last h = last_call el1 \<and>
    gt_now h = w \<and> gt_holder h = Some c \<and> gt_queue h = [] \<and> gt_stage h c = Some (Working (w + timeout c)) \<and>
    c \<in> set (gt_tasks h)"
proof -
  let ?es = "[Enter c, Acquire c, Pass (w - now), Start c]"
  have "\<not> cooling g" using assms(1,3) by (auto simp: same_gate_def cooling_def in_cooldown_def split: option.splits)
  moreover have "w = now + spacing_left g" "el1 = el\<lparr>last_call := Some now\<rparr>"
    using assms(1,4) by (cases "last_call el"; auto simp: same_gate_def call_start_def spacing_left_def Let_def split: if_splits)+
  moreover have "g = g\<lparr>gt_holder := None, gt_queue := []\<rparr>" using assms(1) by (simp add: same_gate_def)
  ultimately obtain h where h: "gate_run timeout g ?es = Some h" "gt_cooldown h = cooldown_until el1"
      "gt_last h = last_call el1" "gt_now h = w" "gt_holder h = Some c" "gt_queue h = []"
      "gt_stage h c = Some (Working (w + timeout c))" "c \<in> set (gt_tasks h)"
    using assms(1,2) by (auto simp: same_gate_def)
  with gate_run_path [OF h(1)] show ?thesis by blast
qed

section \<open>Properties\<close>

text \<open>
  C20. One call at a time: however the calls of the transport, the watcher and the web pages interleave, at
  most one call is between its permit and its answer, its task is on the pool while it waits for it, and
  the pool holds at most that one task and those of the calls that were given up, by timeout or by their
  caller.
\<close>

theorem gate_one_at_a_time:
  assumes "path (gate_step timeout) gate_new es g"
  shows "(active g c \<and> active g d \<longrightarrow> c = d) \<and> (working g c \<longrightarrow> c \<in> set (gt_tasks g)) \<and>
    length (gt_tasks g) \<le> 1 + length (filter gives_up es)"
proof -
  have p: "permit_ok g" and n: "orphans g \<le> length (filter gives_up es)"
    using path_orphans [OF assms] by auto
  have "working g c \<Longrightarrow> c \<in> set (gt_tasks g)"
    using permit_ok_call [OF p, of c] by (auto simp: call_ok_def working_def)
  with p n tasks_split [OF p] show ?thesis by (auto simp: active_holder)
qed

text \<open>
  Pacing under concurrency: of any three consecutive starts of work on the backend, by whichever
  callers, the last comes at least 100 ms after the first (\<open>gt_starts\<close> has the newest first).
\<close>

theorem gate_keeps_pace:
  assumes "path (gate_step timeout) gate_new es g" "i + 2 < length (gt_starts g)"
  shows "gt_starts g ! (i + 2) + 100 \<le> gt_starts g ! i"
proof -
  have "paced_ok g" using pacing.path_keeps [OF assms(1) paced_ok_new] .
  with paced_nth [OF _ assms(2)] show ?thesis by (simp add: paced_ok_def CALL_SPACING_def)
qed

text \<open>
  C35. Fast failure for newcomers: once a call timed out, every call that arrives within the next 15 seconds
  is answered with \<open>Cooldown\<close> at once, whatever happened in between, and nothing else changes.
\<close>

theorem gate_fails_fast:
  assumes "gate_step timeout g (Expire c) g1" "path (gate_step timeout) g1 es g2"
    and "gt_now g2 < gt_now g1 + 15000" "gate_step timeout g2 (Enter d) g3"
  shows "g3 = g2\<lparr>gt_stage := (gt_stage g2)(d \<mapsto> Answered (Inl Cooldown))\<rparr>"
proof -
  have "\<exists>until. gt_cooldown g1 = Some until \<and> gt_now g + COOLDOWN \<le> until" "gt_now g1 = gt_now g"
    using assms(1) by (auto simp: gate_step_simps)
  with cooldown_stays [OF assms(2)] have "cooling g2"
    using assms(3) by (fastforce simp: cooling_def COOLDOWN_def)
  with assms(4) show ?thesis by (auto simp: gate_step_simps)
qed

text \<open>
  What the gate does not promise: a call that waited for the permit does not look at the cooldown again,
  and the task of a call that timed out keeps running. There is a run of two calls, the node being silent,
  after which the breaker is tripped and yet both tasks are at work on the node.
\<close>

theorem gate_overlap:
  "\<exists>es g. path (gate_step (\<lambda>_. DEFAULT_TIMEOUT)) gate_new es g \<and> cooling g \<and> working g 1 \<and> gt_tasks g = [1, 0]"
proof -
  let ?es = "[Enter 0, Acquire 0, Start 0, Enter 1, Pass 30000, Expire 0, Acquire 1, Start 1]"
  obtain g where g: "gate_run (\<lambda>_. DEFAULT_TIMEOUT) gate_new ?es = Some g" "cooling g" "working g 1" "gt_tasks g = [1, 0]"
    by (simp add: gate_new_def cooling_def spacing_left_def DEFAULT_TIMEOUT_def CALL_SPACING_def COOLDOWN_def working_def)
  with gate_run_path [OF g(1)] show ?thesis by blast
qed

text \<open>
  C21. The sequential model refines the gate: \<open>call\<close>, on a clock that only the call moves and from an idle
  gate with the same stamps, is a run of the gate with one caller, which ends with the same answer, the
  same stamps, at the same time and idle again.
\<close>

theorem call_is_gate_run:
  assumes "same_gate g s" "gt_stage g c = None" "honest_work f"
    and "call clock_runtime (timeout c) f s = (r, s')"
  shows "\<exists>es h. path (gate_step timeout) g es h \<and> gt_stage h c = Some (Answered (erased r)) \<and> same_gate h s'"
proof -
  obtain el now where s: "s = (el, now)" by fastforce
  show ?thesis
  proof (cases "in_cooldown clock_runtime el now")
    case True
    then have "cooling g" "r = Inl Cooldown" "s' = s"
      using assms(1,4) by (auto simp: s same_gate_def cooling_def in_cooldown_def call_def split: option.splits)
    then obtain h where "gate_run timeout g [Enter c] = Some h" "gt_stage h c = Some (Answered (erased r))" "same_gate h s'"
      using assms(1,2) by (auto simp: same_gate_def erased_def)
    with gate_run_path show ?thesis by blast
  next
    case False
    obtain el1 w where cs: "call_start clock_runtime el now = (el1, w)" by fastforce
    obtain es k where k: "path (gate_step timeout) g es k" "gt_cooldown k = cooldown_until el1" "gt_last k = last_call el1"
        "gt_now k = w" "gt_holder k = Some c" "gt_queue k = []" "gt_stage k c = Some (Working (w + timeout c))"
        "c \<in> set (gt_tasks k)"
      using lone_start [OF assms(1) [unfolded s] assms(2) False cs] by blast
    obtain x w' where x: "f (el_url el1) (timeout c) w = (x, w')" by fastforce
    have t: "w \<le> w'" "x = TimedOut \<Longrightarrow> w + timeout c \<le> w'"
      using assms(3) x by (metis honest_work_def fst_conv snd_conv)+
    define e where "e = (case x of Done v \<Rightarrow> Finish c None | RpcFailed m \<Rightarrow> Finish c (Some m)
      | JoinFailed m \<Rightarrow> Finish c (Some m) | TimedOut \<Rightarrow> Expire c)"
    obtain h where h: "gate_run timeout k [Pass (w' - w), e] = Some h" "gt_stage h c = Some (Answered (erased r))" "same_gate h s'"
      using assms(4) cs x False t k
      by (cases x) (auto simp: s call_def e_def same_gate_def erased_def answer_of_def)
    from path_trans [OF k(1) gate_run_path [OF h(1)]] h show ?thesis by blast
  qed
qed

section \<open>Witnesses\<close>

lemmas gate_eval = gate_new_def cooling_def spacing_left_def CALL_SPACING_def COOLDOWN_def working_def answer_of_def

theorem gate_one_at_a_time_witness:
  "\<exists>g. gate_run (\<lambda>_. 50) gate_new [Enter 0, Enter 1, Acquire 0, Start 0, Pass 50, Expire 0, Acquire 1] = Some g \<and>
     gt_holder g = Some 1 \<and> length (gt_tasks g) \<le> 2"
proof -
  obtain g where g: "gate_run (\<lambda>_. 50) gate_new [Enter 0, Enter 1, Acquire 0, Start 0, Pass 50, Expire 0, Acquire 1] = Some g"
      "gt_holder g = Some 1"
    by (simp add: gate_eval)
  from gate_one_at_a_time [OF gate_run_path [OF g(1)], of 0 0] have "length (gt_tasks g) \<le> 2" by simp
  with g show ?thesis by blast
qed

theorem gate_keeps_pace_witness:
  "\<exists>g. gate_run (\<lambda>_. 50) gate_new
       [Enter 0, Acquire 0, Start 0, Finish 0 None, Enter 1, Acquire 1, Pass 100, Start 1, Finish 1 None,
        Enter 2, Acquire 2, Start 2] = Some g \<and>
     gt_starts g = [100, 100, 0] \<and> gt_starts g ! 2 + 100 \<le> gt_starts g ! 0"
proof -
  let ?es = "[Enter 0, Acquire 0, Start 0, Finish 0 None, Enter 1, Acquire 1, Pass 100, Start 1, Finish 1 None,
        Enter 2, Acquire 2, Start 2]"
  obtain g where g: "gate_run (\<lambda>_. 50) gate_new ?es = Some g" "gt_starts g = [100, 100, 0]"
    by (simp add: gate_eval)
  have "0 + 2 < length (gt_starts g)" by (simp add: g(2))
  from gate_keeps_pace [OF gate_run_path [OF g(1)] this] g show ?thesis by simp
qed

theorem gate_fails_fast_witness:
  "\<exists>g h. gate_run (\<lambda>_. 50) gate_new [Enter 0, Acquire 0, Start 0, Pass 50, Expire 0, Pass 14999] = Some g \<and>
     gate_step (\<lambda>_. 50) g (Enter 1) h \<and> gt_stage h 1 = Some (Answered (Inl Cooldown))"
proof -
  obtain g0 where g0: "gate_run (\<lambda>_. 50) gate_new [Enter 0, Acquire 0, Start 0, Pass 50] = Some g0" "gt_now g0 = 50"
      "gt_stage g0 0 = Some (Working 50)" "gt_stage g0 1 = None"
    by (simp add: gate_eval)
  obtain g1 where s1: "gate_step (\<lambda>_. 50) g0 (Expire 0) g1" "gt_now g1 = 50" "gt_stage g1 1 = None" "gt_cooldown g1 = Some 15050"
    using g0 by (auto simp: gate_step_simps COOLDOWN_def)
  let ?g2 = "g1\<lparr>gt_now := gt_now g1 + 14999\<rparr>"
  have s2: "path (gate_step (\<lambda>_. 50)) g1 [Pass 14999] ?g2" by (rule path_one) (rule gate_step.passes)
  obtain h where s3: "gate_step (\<lambda>_. 50) ?g2 (Enter 1) h" using s1 by (auto simp: gate_step_simps cooling_def)
  have "gt_now ?g2 < gt_now g1 + 15000" by simp
  from gate_fails_fast [OF s1(1) s2 this s3] have "gt_stage h 1 = Some (Answered (Inl Cooldown))" by simp
  moreover have "gate_run (\<lambda>_. 50) gate_new [Enter 0, Acquire 0, Start 0, Pass 50, Expire 0, Pass 14999] = Some ?g2"
    using g0(1) s1(1) by (simp add: gate_do_step [symmetric] bind_eq_Some_conv) (auto simp: gate_eval)
  ultimately show ?thesis using s3 by blast
qed

theorem call_is_gate_run_witness:
  "\<exists>es h. path (gate_step (\<lambda>_. 50)) gate_new es h \<and> gt_stage h 0 = Some (Answered (Inl Timeout)) \<and>
     gt_cooldown h = Some 15050"
proof -
  let ?f = "hanging_work :: (nat, unit) work"
  have s: "same_gate gate_new (electrs_new ''h:1'', 0)" by (simp add: same_gate_def gate_new_def electrs_new_def)
  have h: "honest_work ?f" by (simp add: honest_work_def hanging_work_def)
  have c: "call clock_runtime ((\<lambda>_ :: call_id. 50) 0) ?f (electrs_new ''h:1'', 0) =
      (Inl Timeout, (electrs_new ''h:1'')\<lparr>last_call := Some 0, cooldown_until := Some 15050\<rparr>, 50)"
    by (simp add: call_def in_cooldown_def electrs_new_def call_start_def hanging_work_def COOLDOWN_def Let_def)
  have "gt_stage gate_new 0 = None" by (simp add: gate_new_def)
  from call_is_gate_run [OF s this h c] show ?thesis by (auto simp: erased_def same_gate_def)
qed

end
