(* ===== verification/GateTurns.thy ===== *)
theory GateTurns
  imports GateProps
begin

text \<open>
  The waiting at the gate of \<open>Electrs::call\<close> (\<open>server/src/electrs.rs\<close>): with timers that fire on time, every call
  has its answer by a time that is fixed when it arrives, by the number of calls before it, whatever the node
  does and whoever arrives later.
\<close>

section \<open>Timers that fire on time\<close>

text \<open>
  The clock does not pass a moment at which something is due: a free permit is handed to the first in the queue
  at once, a sleep ends and a timeout fires at their time. Everything else may come at any moment.
\<close>

fun in_time :: "gate \<Rightarrow> gate_event \<Rightarrow> bool" where
  "in_time g (Pass n) =
     (case gt_holder g of
        None \<Rightarrow> gt_queue g = []
      | Some c \<Rightarrow>
          (case gt_stage g c of
             Some (Spacing u) \<Rightarrow> gt_now g + n \<le> u
           | Some (Working u) \<Rightarrow> gt_now g + n \<le> u
           | _ \<Rightarrow> True))"
| "in_time g _ = True"

definition prompt_step :: "(call_id \<Rightarrow> nat) \<Rightarrow> gate \<Rightarrow> gate_event \<Rightarrow> gate \<Rightarrow> bool" where
  "prompt_step timeout g e h \<longleftrightarrow> gate_step timeout g e h \<and> in_time g e"

text \<open>What the timers wait for is ahead, and no further than the spacing and the timeouts.\<close>

definition timers_ok :: "nat \<Rightarrow> gate \<Rightarrow> bool" where
  "timers_ok m g \<longleftrightarrow> permit_ok g \<and>
     (\<forall>c u. gt_stage g c = Some (Spacing u) \<longrightarrow> gt_now g \<le> u \<and> u \<le> gt_now g + CALL_SPACING) \<and>
     (\<forall>c u. gt_stage g c = Some (Working u) \<longrightarrow> gt_now g \<le> u \<and> u \<le> gt_now g + m)"

lemma timers_ok_new: "timers_ok m gate_new"
  by (simp add: timers_ok_def permit_ok_new) (simp add: gate_new_def)

lemma spacing_left_le: "spacing_left g \<le> CALL_SPACING"
  by (simp add: spacing_left_def split: option.split)

lemma timers_ok_step:
  assumes "\<forall>c. timeout c \<le> m" "timers_ok m g" "prompt_step timeout g e h"
  shows "timers_ok m h"
proof -
  have s: "gate_step timeout g e h" "in_time g e" using assms(3) by (simp_all add: prompt_step_def)
  have p: "permit_ok g" using assms(2) by (simp add: timers_ok_def)
  then have q: "permit_ok h" using permit_ok_step s(1) by blast
  have old: "gt_stage g c = Some (Spacing u) \<Longrightarrow> gt_now g \<le> u \<and> u \<le> gt_now g + CALL_SPACING"
      "gt_stage g c = Some (Working u) \<Longrightarrow> gt_now g \<le> u \<and> u \<le> gt_now g + m" for c u
    using assms(2) by (simp_all add: timers_ok_def)
  have held: "gt_stage g c = Some (Spacing u) \<Longrightarrow> gt_holder g = Some c" "gt_stage g c = Some (Working u) \<Longrightarrow> gt_holder g = Some c" for c u
    using active_holder [OF p, of c] by (auto simp: active_def)
  have "gt_stage h c = Some (Spacing u) \<Longrightarrow> gt_now h \<le> u \<and> u \<le> gt_now h + CALL_SPACING" for c u
    using s(1)
  proof cases
    case (passes n)
    then show "gt_stage h c = Some (Spacing u) \<Longrightarrow> ?thesis" using s(2) old(1) [of c u] held(1) [of c u] by simp
  qed (auto dest: old simp: spacing_left_le split: if_splits)
  moreover have "gt_stage h c = Some (Working u) \<Longrightarrow> gt_now h \<le> u \<and> u \<le> gt_now h + m" for c u
    using s(1)
  proof cases
    case (passes n)
    then show "gt_stage h c = Some (Working u) \<Longrightarrow> ?thesis" using s(2) old(2) [of c u] held(2) [of c u] by simp
  qed (auto dest: old simp: assms(1) split: if_splits)
  ultimately show ?thesis using q by (simp add: timers_ok_def)
qed

lemma timers_ok_path:
  assumes "\<forall>c. timeout c \<le> m" "timers_ok m g" "path (prompt_step timeout) g es h"
  shows "timers_ok m h"
  using assms(3,2) by (induction rule: path.induct) (auto intro: timers_ok_step [OF assms(1)])

section \<open>When a call is through\<close>

definition unserved :: "gate \<Rightarrow> call_id \<Rightarrow> bool" where
  "unserved g c \<longleftrightarrow> gt_stage g c = Some Waiting \<or> active g c"

text \<open>How many calls are before one in the queue, and until when the permit is held at the latest.\<close>

definition place :: "gate \<Rightarrow> call_id \<Rightarrow> nat" where
  "place g c = length (takeWhile (\<lambda>d. d \<noteq> c) (gt_queue g))"

definition held_until :: "nat \<Rightarrow> gate \<Rightarrow> nat" where
  "held_until m g =
     (case gt_holder g of
        None \<Rightarrow> gt_now g
      | Some d \<Rightarrow>
          (case gt_stage g d of
             Some (Spacing u) \<Rightarrow> u + m
           | Some (Working u) \<Rightarrow> u
           | _ \<Rightarrow> gt_now g))"

definition through_by :: "nat \<Rightarrow> gate \<Rightarrow> call_id \<Rightarrow> nat" where
  "through_by m g c =
     (if gt_stage g c = Some Waiting then held_until m g + (place g c + 1) * (CALL_SPACING + m) else held_until m g)"

lemma held_until_bounds:
  assumes "timers_ok m g"
  shows "gt_now g \<le> held_until m g" "held_until m g \<le> gt_now g + (CALL_SPACING + m)"
  using assms by (force simp: held_until_def timers_ok_def split: option.splits stage.splits)+

lemma place_append: "c \<in> set (gt_queue g) \<Longrightarrow> gt_queue h = gt_queue g @ ds \<Longrightarrow> place h c = place g c"
  by (simp add: place_def)

lemma place_new: "c \<notin> set (gt_queue g) \<Longrightarrow> gt_queue h = gt_queue g @ [c] \<Longrightarrow> place h c = length (gt_queue g)"
  by (simp add: place_def takeWhile_append)

lemma takeWhile_remove: "length (takeWhile (\<lambda>d. d \<noteq> c) (remove1 b xs)) \<le> length (takeWhile (\<lambda>d. d \<noteq> c) xs)" if "b \<noteq> c"
  using that by (induction xs) auto

lemma place_remove: "b \<noteq> c \<Longrightarrow> gt_queue h = remove1 b (gt_queue g) \<Longrightarrow> place h c \<le> place g c"
  using takeWhile_remove by (simp add: place_def)

lemma through_mono:
  assumes "held_until m h \<le> held_until m g" "gt_stage h c = gt_stage g c" "place h c \<le> place g c"
  shows "through_by m h c \<le> through_by m g c"
proof -
  have "(place h c + 1) * (CALL_SPACING + m) \<le> (place g c + 1) * (CALL_SPACING + m)" using assms(3) by (intro mult_le_mono1) simp
  from add_le_mono [OF assms(1) this] assms(1) show ?thesis
    unfolding through_by_def assms(2) by (cases "gt_stage g c = Some Waiting") (simp_all only: simp_thms if_True if_False)
qed

lemma held_mono:
  assumes "gt_holder h = gt_holder g" "gt_now h = gt_now g" "\<And>d. gt_holder g = Some d \<Longrightarrow> gt_stage h d = gt_stage g d"
  shows "held_until m h = held_until m g"
  using assms by (cases "gt_holder g") (simp_all add: held_until_def split: option.split stage.split)

lemma holder_stage:
  assumes "permit_ok g" "gt_holder g = Some d"
  obtains u where "gt_stage g d = Some (Spacing u)" | u where "gt_stage g d = Some (Working u)"
  using active_holder [OF assms(1), of d] assms(2) by (auto simp: active_def)

text \<open>The permit is free again: what was the holder's time is over.\<close>

lemma released:
  assumes "timers_ok m g" "gt_holder h = None" "gt_now h = gt_now g" "gt_queue h = gt_queue g" "gt_stage h c = gt_stage g c"
  shows "through_by m h c \<le> through_by m g c"
  using held_until_bounds(1) [OF assms(1)] assms(2-5) by (intro through_mono) (simp_all add: held_until_def place_def)

text \<open>No step puts off the time by which a call without its answer is through.\<close>

lemma through_acquired:
  assumes "timers_ok m g" "gt_holder g = None" "gt_queue g = b # q" "unserved g c"
    and "h = g\<lparr>gt_holder := Some b, gt_queue := q, gt_last := Some (gt_now g),
         gt_stage := (gt_stage g)(b \<mapsto> Spacing (gt_now g + spacing_left g))\<rparr>"
  shows "through_by m h c \<le> through_by m g c"
proof -
  have w: "gt_stage g c = Some Waiting"
    using assms(1,2,4) active_holder [of g c] by (simp add: unserved_def timers_ok_def)
  have held: "held_until m h \<le> gt_now g + (CALL_SPACING + m)" "held_until m g = gt_now g"
    using spacing_left_le [of g] assms(2) by (simp_all add: held_until_def assms(5))
  show ?thesis
  proof (cases "c = b")
    case True
    then show ?thesis using held w by (simp add: through_by_def assms(3,5) place_def)
  next
    case False
    then have "place g c = Suc (place h c)" "gt_stage h c = Some Waiting" using w by (simp_all add: place_def assms(3,5))
    then show ?thesis using held w by (simp add: through_by_def)
  qed
qed

lemma through_step:
  assumes "\<forall>c. timeout c \<le> m" "timers_ok m g" "prompt_step timeout g e h" "unserved g c" "unserved h c"
  shows "through_by m h c \<le> through_by m g c"
proof -
  have s: "gate_step timeout g e h" "in_time g e" using assms(3) by (simp_all add: prompt_step_def)
  have p: "permit_ok g" using assms(2) by (simp add: timers_ok_def)
  note call = permit_ok_call [OF p]
  have held: "gt_stage g b = Some (Spacing u) \<Longrightarrow> gt_holder g = Some b" "gt_stage g b = Some (Working u) \<Longrightarrow> gt_holder g = Some b" for b u
    using active_holder [OF p, of b] by (auto simp: active_def)
  have free: "gt_holder g \<noteq> Some b" if "gt_stage g b = None \<or> gt_stage g b = Some Waiting" for b
    using call [of b] that by (auto simp: call_ok_def)
  have other: "b \<noteq> c" if "gt_stage h b = Some x" "x = Gone \<or> (\<exists>r. x = Answered r)" for b x
    using assms(5) that by (auto simp: unserved_def active_def)
  have mine: "gt_stage g c \<noteq> None" using assms(4) by (auto simp: unserved_def active_def)
  show ?thesis
    using s(1)
  proof cases
    case (refused b)
    then show ?thesis
      using mine free [of b] by (intro through_mono) (auto simp: place_def intro!: eq_imp_le held_mono)
  next
    case (queued b)
    have "place h c = place g c" if "gt_stage g c = Some Waiting"
      using place_append [of c g h "[b]"] waiting_queued [OF p, of c] that queued by simp
    moreover have "held_until m h = held_until m g" using queued free [of b] by (intro held_mono) auto
    moreover have "gt_stage h c = gt_stage g c" using queued mine by auto
    ultimately show ?thesis by (simp add: through_by_def)
  next
    case (acquired b q)
    show ?thesis by (rule through_acquired [OF assms(2) acquired(3,4) assms(4) acquired(2)])
  next
    case (started b u)
    have t: "gt_now g = u" "timeout b \<le> m" "gt_holder g = Some b" using assms(1,2) started held(1) by (auto simp: timers_ok_def intro: antisym)
    then have "held_until m h \<le> held_until m g" using started by (simp add: held_until_def)
    moreover have "c = b \<Longrightarrow> gt_stage h c \<noteq> Some Waiting \<and> gt_stage g c \<noteq> Some Waiting" "c \<noteq> b \<Longrightarrow> gt_stage h c = gt_stage g c"
      using started by auto
    moreover have "place h c = place g c" using started by (simp add: place_def)
    ultimately show ?thesis by (cases "c = b") (simp_all add: through_by_def)
  next
    case (finished b u r)
    then show ?thesis using other [of b "Answered (answer_of r)"] by (intro released [OF assms(2)]) auto
  next
    case (expired b u)
    then show ?thesis using other [of b "Answered (Inl Timeout)"] by (intro released [OF assms(2)]) auto
  next
    case (left_queue b)
    then have "b \<noteq> c" using other [of b Gone] by simp
    then show ?thesis
      using left_queue free [of b] place_remove [of b c h g] by (intro through_mono) (auto intro!: eq_imp_le held_mono)
  next
    case (left_spacing b u)
    then show ?thesis using other [of b Gone] by (intro released [OF assms(2)]) auto
  next
    case (left_working b u)
    then show ?thesis using other [of b Gone] by (intro released [OF assms(2)]) auto
  next
    case (task_ends b)
    then show ?thesis by (intro through_mono) (auto simp: place_def intro!: eq_imp_le held_mono)
  next
    case (passes n)
    have "gt_holder g \<noteq> None"
      using assms(4) s(2) waiting_queued [OF p, of c] active_holder [OF p, of c]
      by (cases "gt_holder g") (auto simp: unserved_def passes(1))
    then obtain b where "gt_holder g = Some b" by blast
    with p have "held_until m h = held_until m g"
      using passes by (auto simp: held_until_def elim!: holder_stage [where d = b])
    then show ?thesis using passes by (intro through_mono) (simp_all add: place_def)
  qed
qed

text \<open>A call that has its answer keeps it, and leaves only by being dropped.\<close>

lemma stage_known: "gate_step timeout g e h \<Longrightarrow> gt_stage g c \<noteq> None \<Longrightarrow> gt_stage h c \<noteq> None"
  by (erule gate_step.cases) auto

lemma unserved_before:
  assumes "permit_ok g" "gate_step timeout g e h" "gt_stage g c \<noteq> None" "unserved h c"
  shows "unserved g c"
  using assms(2-4) waiting_queued [OF assms(1), of c]
  by cases (auto simp: unserved_def active_def split: if_splits)

lemma gone_dropped: "gate_step timeout g e h \<Longrightarrow> gt_stage h c = Some Gone \<Longrightarrow> gt_stage g c = Some Gone \<or> e = Drop c"
  by (erule gate_step.cases) (auto split: if_splits)

lemma through_path:
  assumes "\<forall>c. timeout c \<le> m" "path (prompt_step timeout) g es h" "timers_ok m g" "gt_stage g c \<noteq> None" "gt_stage g c \<noteq> Some Gone"
  shows "gt_stage h c \<noteq> None \<and> (unserved h c \<longrightarrow> unserved g c \<and> through_by m h c \<le> through_by m g c) \<and>
    (gt_stage h c = Some Gone \<longrightarrow> Drop c \<in> set es)"
  using assms(2-5)
proof (induction rule: path.induct)
  case (path_nil g)
  then show ?case by simp
next
  case (path_snoc g es h e k)
  have s: "gate_step timeout h e k" using path_snoc.hyps(2) by (simp add: prompt_step_def)
  have ih: "gt_stage h c \<noteq> None" "unserved h c \<longrightarrow> unserved g c \<and> through_by m h c \<le> through_by m g c"
      "gt_stage h c = Some Gone \<longrightarrow> Drop c \<in> set es" using path_snoc by auto
  have ok: "timers_ok m h" by (rule timers_ok_path [OF assms(1) path_snoc.prems(1) path_snoc.hyps(1)])
  have "unserved k c \<longrightarrow> unserved g c \<and> through_by m k c \<le> through_by m g c"
    using unserved_before [OF _ s ih(1)] ok [unfolded timers_ok_def] through_step [OF assms(1) ok path_snoc.hyps(2)] ih(2) le_trans by blast
  moreover have "gt_stage k c = Some Gone \<longrightarrow> Drop c \<in> set (es @ [e])" using gone_dropped [OF s] ih(3) by auto
  ultimately show ?case using stage_known [OF s ih(1)] by blast
qed

section \<open>The way out without the node\<close>

text \<open>The steps in which the node does nothing.\<close>

fun silent :: "gate_event \<Rightarrow> bool" where
  "silent (Acquire c) = True"
| "silent (Start c) = True"
| "silent (Expire c) = True"
| "silent (Pass n) = True"
| "silent _ = False"

definition timed_out :: "gate \<Rightarrow> call_id \<Rightarrow> bool" where
  "timed_out g c \<longleftrightarrow> gt_stage g c = Some (Answered (Inl Timeout))"

lemma expire_working:
  assumes "timers_ok m g" "gt_stage g c = Some (Working u)"
  shows "\<exists>es h. path (prompt_step timeout) g es h \<and> list_all silent es \<and> timed_out h c \<and> gt_holder h = None \<and>
    gt_queue h = gt_queue g"
proof -
  let ?g = "g\<lparr>gt_now := gt_now g + (u - gt_now g)\<rparr>"
  let ?h = "?g\<lparr>gt_stage := (gt_stage ?g)(c \<mapsto> Answered (Inl Timeout)), gt_holder := None,
    gt_cooldown := Some (gt_now ?g + COOLDOWN)\<rparr>"
  have "gt_now g \<le> u" "gt_holder g = Some c"
    using assms active_holder [of g c] by (auto simp: timers_ok_def active_def)
  then have "prompt_step timeout g (Pass (u - gt_now g)) ?g"
    unfolding prompt_step_def by (intro conjI gate_step.passes) (use assms(2) in simp)
  moreover have "prompt_step timeout ?g (Expire c) ?h"
    unfolding prompt_step_def by (intro conjI gate_step.expired [where u = u]) (use assms(2) in simp_all)
  ultimately have "path (prompt_step timeout) g [Pass (u - gt_now g), Expire c] ?h"
    by (intro path_step path_one)
  then show ?thesis
    by (intro exI [of _ "[Pass (u - gt_now g), Expire c]"] exI [of _ ?h]) (simp add: timed_out_def)
qed

lemma expire_spacing:
  assumes "\<forall>c. timeout c \<le> m" "timers_ok m g" "gt_stage g c = Some (Spacing u)"
  shows "\<exists>es h. path (prompt_step timeout) g es h \<and> list_all silent es \<and> timed_out h c \<and> gt_holder h = None \<and>
    gt_queue h = gt_queue g"
proof -
  let ?g = "g\<lparr>gt_now := gt_now g + (u - gt_now g)\<rparr>"
  let ?w = "?g\<lparr>gt_stage := (gt_stage ?g)(c \<mapsto> Working (gt_now ?g + timeout c)), gt_tasks := c # gt_tasks ?g,
    gt_starts := gt_now ?g # gt_starts ?g\<rparr>"
  have "gt_now g \<le> u" "gt_holder g = Some c"
    using assms(2,3) active_holder [of g c] by (auto simp: timers_ok_def active_def)
  then have s1: "prompt_step timeout g (Pass (u - gt_now g)) ?g"
    unfolding prompt_step_def by (intro conjI gate_step.passes) (use assms(3) in simp)
  have s2: "prompt_step timeout ?g (Start c) ?w"
    unfolding prompt_step_def by (intro conjI gate_step.started [where u = u]) (use assms(3) in simp_all)
  have w: "timers_ok m ?w"
    using timers_ok_step [OF assms(1) _ s2] timers_ok_step [OF assms(1,2) s1] by blast
  obtain es h where e: "path (prompt_step timeout) ?w es h" "list_all silent es" "timed_out h c" "gt_holder h = None"
      "gt_queue h = gt_queue ?w"
    using expire_working [OF w, of c "gt_now ?w + timeout c" timeout] by auto
  have "path (prompt_step timeout) g (Pass (u - gt_now g) # Start c # es) h"
    by (intro path_step [of "prompt_step timeout", OF s1] path_step [of "prompt_step timeout", OF s2] e(1))
  then show ?thesis
    using e by (intro exI [of _ "Pass (u - gt_now g) # Start c # es"] exI [of _ h]) simp
qed

lemma expire_active:
  assumes "\<forall>c. timeout c \<le> m" "timers_ok m g" "gt_holder g = Some c"
  shows "\<exists>es h. path (prompt_step timeout) g es h \<and> list_all silent es \<and> timed_out h c \<and> gt_holder h = None \<and>
    gt_queue h = gt_queue g"
proof -
  have "permit_ok g" using assms(2) by (simp add: timers_ok_def)
  from this assms(3) show ?thesis
    by (cases rule: holder_stage) (use expire_spacing [OF assms(1,2)] expire_working [OF assms(2)] in blast)+
qed

text \<open>A queued call is answered after everybody before it.\<close>

lemma serve_queue:
  assumes "\<forall>c. timeout c \<le> m"
  shows "timers_ok m g \<Longrightarrow> gt_holder g = None \<Longrightarrow> c \<in> set (gt_queue g) \<Longrightarrow>
    \<exists>es h. path (prompt_step timeout) g es h \<and> list_all silent es \<and> timed_out h c"
proof (induction "gt_queue g" arbitrary: g)
  case Nil
  then show ?case by simp
next
  case (Cons d q)
  let ?g = "g\<lparr>gt_holder := Some d, gt_queue := q, gt_last := Some (gt_now g),
         gt_stage := (gt_stage g)(d \<mapsto> Spacing (gt_now g + spacing_left g))\<rparr>"
  have s: "prompt_step timeout g (Acquire d) ?g"
    unfolding prompt_step_def by (intro conjI gate_step.acquired) (use Cons.prems Cons.hyps(2) in simp_all)
  have ok: "timers_ok m ?g" by (rule timers_ok_step [OF assms Cons.prems(1) s])
  obtain es h where e: "path (prompt_step timeout) ?g es h" "list_all silent es" "timed_out h d" "gt_holder h = None" "gt_queue h = q"
    using expire_spacing [OF assms ok, of d "gt_now g + spacing_left g"] by auto
  have p: "path (prompt_step timeout) g (Acquire d # es) h" by (rule path_step [of "prompt_step timeout", OF s e(1)])
  show ?case
  proof (cases "c = d")
    case True
    with p e show ?thesis by (intro exI [of _ "Acquire d # es"] exI [of _ h]) simp
  next
    case False
    then have "c \<in> set (gt_queue h)" using Cons.prems(3) Cons.hyps(2) e(5) by (metis set_ConsD)
    then obtain fs k where f: "path (prompt_step timeout) h fs k" "list_all silent fs" "timed_out k c"
      using Cons.hyps(1) [of h] timers_ok_path [OF assms ok e(1)] e(4,5) by auto
    have "path (prompt_step timeout) g ((Acquire d # es) @ fs) k" by (rule path_trans [OF p f(1)])
    then show ?thesis using e(2) f(2,3) by (intro exI [of _ "(Acquire d # es) @ fs"] exI [of _ k]) simp
  qed
qed

lemma way_out:
  assumes "\<forall>c. timeout c \<le> m" "timers_ok m g" "unserved g c"
  shows "\<exists>es h. path (prompt_step timeout) g es h \<and> list_all silent es \<and> timed_out h c"
proof -
  have p: "permit_ok g" using assms(2) by (simp add: timers_ok_def)
  show ?thesis
  proof (cases "active g c")
    case True
    with expire_active [OF assms(1,2), of c] active_holder [OF p, of c] show ?thesis by blast
  next
    case False
    then have q: "c \<in> set (gt_queue g)" using assms(3) waiting_queued [OF p, of c] by (simp add: unserved_def)
    obtain es k where k: "path (prompt_step timeout) g es k" "list_all silent es" "gt_holder k = None" "gt_queue k = gt_queue g"
      using expire_active [OF assms(1,2)] path_nil [of "prompt_step timeout" g] by (cases "gt_holder g") (auto intro: exI [of _ "[]"])
    obtain fs h where "path (prompt_step timeout) k fs h" "list_all silent fs" "timed_out h c"
      using serve_queue [OF assms(1) timers_ok_path [OF assms(1,2) k(1)] k(3), of c] q unfolding k(4) by blast
    with path_trans [OF k(1)] k(2) show ?thesis by (metis list_all_append)
  qed
qed

section \<open>Property\<close>

text \<open>
  C36. No caller waits for ever, on a dead node or behind later callers: let the timers fire on time and no timeout
  be longer than \<open>m\<close> milliseconds. A call that arrives when \<open>n\<close> calls are queued is, at any later moment of any run,
  answered, or dropped by its own caller, or at most the time of \<open>n + 2\<close> spacings and timeouts has passed since; and as
  long as it is not answered there is a way to its answer on which the node does nothing at all.
\<close>

theorem gate_serves_in_turn:
  assumes "path (prompt_step timeout) gate_new es g" "\<forall>c. timeout c \<le> m"
    and "gate_step timeout g (Enter c) g1" "path (prompt_step timeout) g1 fs h"
  shows "(\<exists>r. gt_stage h c = Some (Answered r)) \<or> (gt_stage h c = Some Gone \<and> Drop c \<in> set fs) \<or>
    (gt_now h \<le> gt_now g + (length (gt_queue g) + 2) * (100 + m) \<and>
     (\<exists>ss k. path (prompt_step timeout) h ss k \<and> list_all silent ss \<and> gt_stage k c = Some (Answered (Inl Timeout))))"
proof -
  have ok: "timers_ok m g" by (rule timers_ok_path [OF assms(2) timers_ok_new assms(1)])
  then have p: "permit_ok g" by (simp add: timers_ok_def)
  have s: "prompt_step timeout g (Enter c) g1" using assms(3) by (simp add: prompt_step_def)
  have ok1: "timers_ok m g1" by (rule timers_ok_step [OF assms(2) ok s])
  have in1: "gt_stage g1 c \<noteq> None" "gt_stage g1 c \<noteq> Some Gone" using assms(3) by (auto simp: gate_step_simps)
  note run = through_path [OF assms(2,4) ok1 in1]
  have okh: "timers_ok m h" by (rule timers_ok_path [OF assms(2) ok1 assms(4)])
  show ?thesis
  proof (cases "unserved h c")
    case False
    then show ?thesis
      using run by (cases "the (gt_stage h c)") (auto simp: unserved_def active_def)
  next
    case True
    with run have pend: "unserved g1 c" "through_by m h c \<le> through_by m g1 c" by blast+
    have g1: "g1 = g\<lparr>gt_stage := (gt_stage g)(c \<mapsto> Waiting), gt_queue := gt_queue g @ [c]\<rparr>" "gt_stage g c = None"
      using assms(3) pend(1) by (auto simp: gate_step_simps unserved_def active_def)
    have "c \<notin> set (gt_queue g)" using waiting_queued [OF p, of c] g1(2) by simp
    then have "place g1 c = length (gt_queue g)" by (rule place_new) (simp add: g1(1))
    moreover have "held_until m g1 \<le> gt_now g + (CALL_SPACING + m)" using held_until_bounds(2) [OF ok1] by (simp add: g1(1))
    moreover have "gt_stage g1 c = Some Waiting" by (simp add: g1(1))
    ultimately have "through_by m g1 c \<le> gt_now g + (length (gt_queue g) + 2) * (CALL_SPACING + m)" by (simp add: through_by_def)
    moreover have "gt_now h \<le> through_by m h c" using held_until_bounds(1) [OF okh] by (simp add: through_by_def)
    moreover obtain ss k where "path (prompt_step timeout) h ss k" "list_all silent ss" "timed_out k c"
      using way_out [OF assms(2) okh True] by blast
    ultimately show ?thesis using pend(2) unfolding timed_out_def CALL_SPACING_def by (meson le_trans)
  qed
qed

section \<open>Witness\<close>

fun prompt_run :: "(call_id \<Rightarrow> nat) \<Rightarrow> gate \<Rightarrow> gate_event list \<Rightarrow> gate option" where
  "prompt_run timeout g [] = Some g"
| "prompt_run timeout g (e # es) =
     (if in_time g e then Option.bind (gate_do timeout g e) (\<lambda>h. prompt_run timeout h es) else None)"

lemma prompt_run_path: "prompt_run timeout g es = Some h \<Longrightarrow> path (prompt_step timeout) g es h"
proof (induction es arbitrary: g)
  case Nil
  then show ?case by (simp add: path_nil)
next
  case (Cons e es)
  then obtain k where k: "in_time g e" "gate_do timeout g e = Some k" "prompt_run timeout k es = Some h"
    by (auto simp: bind_eq_Some_conv split: if_splits)
  then have "prompt_step timeout g e k" by (simp add: gate_do_step prompt_step_def)
  from path_step [of "prompt_step timeout", OF this Cons.IH [OF k(3)]] show ?case .
qed

theorem gate_serves_in_turn_witness:
  "\<exists>g g1 h. prompt_run (\<lambda>_. 50) gate_new [Enter 0, Acquire 0] = Some g \<and> gate_step (\<lambda>_. 50) g (Enter 1) g1 \<and>
     prompt_run (\<lambda>_. 50) g1 [Start 0, Enter 2, Pass 50] = Some h \<and> gt_stage h 1 = Some Waiting \<and>
     (\<exists>ss k. path (prompt_step (\<lambda>_. 50)) h ss k \<and> list_all silent ss \<and> gt_stage k 1 = Some (Answered (Inl Timeout)))"
proof -
  obtain g where g: "prompt_run (\<lambda>_. 50) gate_new [Enter 0, Acquire 0] = Some g" "gt_stage g 1 = None" "\<not> cooling g"
      "gt_now g = 0" "gt_queue g = []" "gt_holder g = Some 0" "gt_stage g 0 = Some (Spacing 0)" "gt_stage g 2 = None" "gt_cooldown g = None"
    by (simp add: gate_eval)
  define g1 where "g1 = g\<lparr>gt_stage := (gt_stage g)(1 \<mapsto> Waiting), gt_queue := gt_queue g @ [1]\<rparr>"
  have s: "gate_step (\<lambda>_. 50) g (Enter 1) g1" unfolding g1_def by (rule gate_step.queued) (use g in simp_all)
  obtain h where h: "prompt_run (\<lambda>_. 50) g1 [Start 0, Enter 2, Pass 50] = Some h" "gt_stage h 1 = Some Waiting"
    using g by (simp add: g1_def gate_eval)
  have t: "\<forall>c. (\<lambda>_ :: call_id. 50) c \<le> (50 :: nat)" by simp
  from gate_serves_in_turn [OF prompt_run_path [OF g(1)] t s prompt_run_path [OF h(1)]] g(1) s h show ?thesis by auto
qed

end
