(* ===== verification/Delivery.thy ===== *)
theory Delivery
  imports SystemRuns SampleText
begin

text \<open>
  The outer part of \<open>Transport::run\<close> (\<open>transport.rs\<close>): relays, subscription and the loop, and what the
  delivery the protocol allows (late, repeated, by anybody who kept the ciphertext) means for the requests:
  the backfill of the subscription, the repetition of a request, and a request that comes back after its id
  was forgotten.
\<close>

section \<open>Connecting and subscribing\<close>

text \<open>
  What \<open>run\<close> uses of nostr-sdk besides the stream: whether a relay can be added, whether the subscription is
  accepted, and the difference of a timestamp and a duration. Waiting for the connections has no outcome
  that \<open>run\<close> looks at.
\<close>

record relay_filter =
  fl_pubkey :: string
  fl_since :: u64

record relay_pool =
  po_add :: "string \<Rightarrow> bool"
  po_subscribe :: "relay_filter \<Rightarrow> bool"
  po_before :: "u64 \<Rightarrow> u64 \<Rightarrow> u64"

definition WRAP_EXPIRATION :: u64 where
  "WRAP_EXPIRATION = 9 * 24 * 3600"

text \<open>The filter of the subscription: gift wraps for the server's key, three days back.\<close>

definition run_filter :: "relay_pool \<Rightarrow> string \<Rightarrow> u64 \<Rightarrow> relay_filter" where
  "run_filter P server now = \<lparr>fl_pubkey = server, fl_since = po_before P now (3 * 24 * 3600)\<rparr>"

text \<open>
  A relay that cannot be added is logged and skipped; a refused subscription is the only error that \<open>run\<close>
  returns (on the left); otherwise it loops until the stream ends.
\<close>

definition transport_run ::
    "('a, 't, 's) transport \<Rightarrow> 'ev nostr \<Rightarrow> text_lib \<Rightarrow> relay_pool \<Rightarrow> string \<Rightarrow> string list \<Rightarrow> u64 \<Rightarrow> 'ev arrival list
       \<Rightarrow> 's server \<Rightarrow> string list \<times> ((unit + unit) run \<times> 'ev list) \<times> 's server" where
  "transport_run T N X P server urls now stream st =
     (let added = filter (po_add P) urls
      in if \<not> po_subscribe P (run_filter P server now) then (added, (Ret (Inl ()), []), st)
         else
           (case run_loop T N X server stream st of
              ((Ret _, out), st') \<Rightarrow> (added, (Ret (Inr ()), out), st')
            | ((Panic, out), st') \<Rightarrow> (added, (Panic, out), st')))"

text \<open>Which stored events a relay returns for the filter; when a wrap was made and for whom is on the event.\<close>

record 'ev stamps =
  sp_created :: "'ev \<Rightarrow> u64"
  sp_addressee :: "'ev \<Rightarrow> string"

definition filter_matches :: "'ev nostr \<Rightarrow> 'ev stamps \<Rightarrow> relay_filter \<Rightarrow> 'ev \<Rightarrow> bool" where
  "filter_matches N E f ev \<longleftrightarrow> ns_is_wrap N ev \<and> sp_addressee E ev = fl_pubkey f \<and> fl_since f \<le> sp_created E ev"

text \<open>The difference is exact where it does not underflow.\<close>

definition pool_ok :: "relay_pool \<Rightarrow> bool" where
  "pool_ok P \<longleftrightarrow> (\<forall>t d. d \<le> t \<longrightarrow> po_before P t d = t - d)"

section \<open>The same request again\<close>

lemma verify_refused_again:
  "verify_at K now pk proof pm = (False, pm1) \<Longrightarrow> now \<le> now2 \<Longrightarrow> fst (verify_at K now2 pk proof pm1) = False"
  by (auto simp: verify_at_def Let_def not_le split: option.splits if_splits dest: order_trans)

lemma pair_again:
  assumes "handle_pair T rq w env st = (r, st1)" "rq_now rq \<le> rq_now rq2" "handle_pair T rq2 w env st1 = (r2, st2)"
  shows "sv_allowlist st2 = sv_allowlist st1 \<and> sv_watch st2 = sv_watch st1"
proof (cases "is_paired (sv_allowlist st1) w")
  case True
  then show ?thesis using assms(3) by (simp add: handle_pair_def)
next
  case False
  obtain ok pm where v: "verify_at (tr_crypto T) (rq_now rq) w (pair_proof env) (sv_pairing st) = (ok, pm)" by fastforce
  obtain x al d where a: "al_add (tr_al_codec T) (rq_io_allowlist rq) w (sv_allowlist st) (sv_fs st) = (x, al, d)"
    by (metis prod_cases3)
  then have "is_paired al w" by (auto simp: al_add_def is_paired_def set_insort_insert Let_def split: prod.splits)
  with False assms(1) v a have "\<not> ok" "st1 = st\<lparr>sv_pairing := pm\<rparr>"
    by (cases ok; cases x; auto simp: handle_pair_def split: if_splits)+
  with v have "fst (verify_at (tr_crypto T) (rq_now rq2) w (pair_proof env) (sv_pairing st1)) = False"
    using verify_refused_again [OF _ assms(2)] by simp
  then show ?thesis using assms(3) False by (auto simp: handle_pair_def split: prod.splits bool.splits)
qed

lemma btm_insert_twice [simp]: "btm_insert k v (btm_insert k v m) = btm_insert k v m"
  by (induction m) auto

lemma btm_remove_twice [simp]: "btm_remove k (btm_remove k m) = btm_remove k m"
  by (simp add: btm_remove_def)

lemma ws_replace_again:
  "ws_replace c io k xs ws d = (r, ws1, d1) \<Longrightarrow> ws_replace c io2 k xs ws1 d2 = (r2, ws2, d3) \<Longrightarrow> ws2 = ws1"
  by (auto simp: ws_replace_def Let_def split: prod.splits sum.splits if_splits)

lemma handle_again:
  assumes "handle H io w env (s, ws, d) = (r, s1, ws1, d1)" "handle H io2 w env (s1, ws1, d1) = (r2, s2, ws2, d2)"
  shows "ws2 = ws1"
proof (cases "msg_type env = ''watch_addresses''")
  case True
  then have w: "watch_addresses H io w env (ws, d) = (case r of Ret x \<Rightarrow> x, ws1, d1)"
      "watch_addresses H io2 w env (ws1, d1) = (case r2 of Ret x \<Rightarrow> x, ws2, d2)"
    using assms by (auto simp: handle_def split: prod.splits)
  show ?thesis
  proof (cases "validate_addresses (hd_lib H) (payload env) (hd_network H) MAX_WATCH_ADDRESSES")
    case (Inl e)
    then show ?thesis using w by (simp add: watch_addresses_def)
  next
    case (Inr addrs)
    obtain x a b where x: "ws_replace (hd_codec H) io w (map fst addrs) ws d = (x, a, b)" by (metis prod_cases3)
    obtain y a2 b2 where y: "ws_replace (hd_codec H) io2 w (map fst addrs) ws1 d1 = (y, a2, b2)" by (metis prod_cases3)
    have "a = ws1" using w(1) Inr x by (cases x) (auto simp: watch_addresses_def)
    moreover have "a2 = ws2" using w(2) Inr y by (cases y) (auto simp: watch_addresses_def)
    ultimately show ?thesis using ws_replace_again x y by metis
  qed
next
  case False
  then show ?thesis using assms by (auto simp: handle_def on_backend_def split: prod.splits if_splits)
qed

section \<open>Expiry and retention\<close>

text \<open>
  A relay that honours the expiration of a wrap stops returning it before the server forgets its request, if
  the wrap was not made after the request was accepted.
\<close>

lemma expires_before_forgotten:
  "unat created \<le> unat t \<Longrightarrow> unat now < unat created + unat WRAP_EXPIRATION \<Longrightarrow> live_at t now"
  by (simp add: live_at_nat WRAP_EXPIRATION_def)

lemma unexpired_wrap_dropped:
  assumes "server_ok st" "map_of (rc_seen (sv_replay st)) (env_id env) = Some t"
    and "unat created \<le> unat t" "unat (rq_now rq) < unat created + unat WRAP_EXPIRATION"
  shows "fst (route T rq w env st) = Ret None"
proof -
  have "live_entry (sv_replay st) (env_id env) (rq_now rq) \<noteq> None"
    using expires_before_forgotten [OF assms(3,4)] assms(2) by (simp add: live_entry_def)
  then have "\<not> fst (check_and_insert (tr_rc_codec T) (rq_io_replay rq) (env_id env) (rq_now rq) (sv_replay st) (sv_fs st))"
    using check_result assms(1) by (auto simp: server_ok_def)
  then show ?thesis by (auto simp: route_def split: prod.splits bool.splits)
qed

section \<open>Properties\<close>

text \<open>
  The backfill: a request wrapped up to a day before the server subscribes is asked for, although the time on
  its wrap is moved back by up to two days; and it is handled with all others once the stream delivers it.
\<close>

theorem backfill_covers_a_day:
  assumes "pool_ok P" "ns_is_wrap N ev" "sp_addressee E ev = server"
    and "unat sent \<le> unat (sp_created E ev) + 2 * 86400" "unat now \<le> unat sent + 86400" "3 * 86400 \<le> unat now"
  shows "filter_matches N E (run_filter P server now) ev"
proof -
  have le: "259200 \<le> now" using assms(6) by (simp add: word_le_nat_alt)
  then have "po_before P now 259200 = now - 259200" using assms(1) by (simp add: pool_ok_def)
  moreover have "unat (now - 259200) = unat now - 259200" using le by (simp add: unat_sub)
  ultimately show ?thesis using assms(2-) by (simp add: filter_matches_def run_filter_def word_le_nat_alt)
qed

text \<open>
  C9. Every request is idempotent, as the replay cache relies on: handled a second time right after the
  first, by the same wallet and at a later time, it changes neither the allowlist nor the watch sets,
  whatever its type, whether the first time it was refused or failed half way through a write.
\<close>

theorem requests_idempotent:
  assumes "server_ok st" "rq_now rq \<le> rq_now rq2"
    and "dispatch T rq w env st = (r, st1)" "dispatch T rq2 w env st1 = (r2, st2)"
  shows "sv_allowlist st2 = sv_allowlist st1 \<and> sv_watch st2 = sv_watch st1"
proof -
  consider "msg_type env = ''pair''" | "msg_type env \<noteq> ''pair''" "\<not> is_paired (sv_allowlist st1) w"
    | "msg_type env \<noteq> ''pair''" "is_paired (sv_allowlist st1) w" by blast
  then show ?thesis
  proof cases
    case 1
    obtain x y where h: "handle_pair T rq w env st = (x, st1)" "handle_pair T rq2 w env st1 = (y, st2)"
      using 1 assms(3,4) by (auto simp: dispatch_def split: prod.splits)
    from pair_again [OF h(1) assms(2) h(2)] show ?thesis .
  next
    case 2
    then show ?thesis using assms(4) by (simp add: dispatch_def)
  next
    case 3
    have al: "al_ok (sv_allowlist st)" using assms(1) by (simp add: server_ok_def)
    have u: "msg_type env \<noteq> ''unpair''"
    proof
      assume "msg_type env = ''unpair''"
      then show False
        using 3 assms(3) al_remove_effect [OF al]
        by (auto simp: dispatch_def handle_unpair_def split: prod.splits sum.splits bool.splits if_splits)
    qed
    show ?thesis
    proof (cases "msg_type env \<in> set KNOWN_TYPES \<and> is_paired (sv_allowlist st) w")
      case True
      then have h: "run_handler T rq w env st = (r, st1)" "run_handler T rq2 w env st1 = (r2, st2)"
        using 3 u assms(3,4) by (simp_all add: dispatch_def)
      have "sv_allowlist st2 = sv_allowlist st1" using h(2) by (auto simp: run_handler_def split: prod.splits)
      moreover have "sv_watch st2 = sv_watch st1"
        using h by (auto simp: run_handler_def split: prod.splits dest: handle_again)
      ultimately show ?thesis ..
    next
      case False
      then show ?thesis using 3 u assms(3,4) by (auto simp: dispatch_def split: if_splits)
    qed
  qed
qed


section \<open>Witnesses\<close>

definition plain_pool :: relay_pool where
  "plain_pool = \<lparr>po_add = (\<lambda>_. True), po_subscribe = (\<lambda>_. True), po_before = (\<lambda>t d. t - d)\<rparr>"

theorem backfill_covers_a_day_witness:
  "filter_matches toy_nostr \<lparr>sp_created = (\<lambda>_. 764000), sp_addressee = fst\<rparr> (run_filter plain_pool ''a1a1'' 944000)
     (''a1a1'', \<lparr>gf_sender = ''bb'', gf_kind = KIND_REQUEST, gf_content = []\<rparr>)"
proof -
  let ?ev = "(''a1a1'', \<lparr>gf_sender = ''bb'', gf_kind = KIND_REQUEST, gf_content = []\<rparr>)"
    and ?E = "\<lparr>sp_created = (\<lambda>_. 764000), sp_addressee = fst\<rparr> :: toy_event stamps"
  have "pool_ok plain_pool" "ns_is_wrap toy_nostr ?ev" "sp_addressee ?E ?ev = ''a1a1''"
    and "unat (864000 :: u64) \<le> unat (sp_created ?E ?ev) + 2 * 86400" "unat (944000 :: u64) \<le> unat (864000 :: u64) + 86400"
      "3 * 86400 \<le> unat (944000 :: u64)"
    by (simp_all add: pool_ok_def plain_pool_def toy_nostr_def)
  then show ?thesis by (rule backfill_covers_a_day)
qed

theorem requests_idempotent_witness:
  "let T = sample_transport sample_handlers; st1 = snd (dispatch T sample_rq ''bb'' pair_env (sample_server 100))
   in sv_allowlist (snd (dispatch T sample_rq ''bb'' pair_env st1)) = sv_allowlist st1"
proof -
  let ?T = "sample_transport sample_handlers"
  obtain r st1 where d: "dispatch ?T sample_rq ''bb'' pair_env (sample_server 100) = (r, st1)" by fastforce
  obtain r2 st2 where d2: "dispatch ?T sample_rq ''bb'' pair_env st1 = (r2, st2)" by fastforce
  from requests_idempotent [OF sample_server_ok order_refl d d2] show ?thesis by (simp add: d d2)
qed


end
