(* ===== verification/Client.thy ===== *)
theory Client
  imports Relay Http
begin

text \<open>
  The wallet's side of the protocol, as the two development tools of the repository have it:
  \<open>server/examples/pair_client.rs\<close> (pairing, then one request of each kind) and
  \<open>server/examples/notify_probe.rs\<close> (pairing, a watch set, then listening for notifications). What the
  relays deliver, whether a send fails and what is random are inputs; printing is the output.
\<close>

section \<open>One notification\<close>

datatype client_error =
    NoAttempts
  | NoAnswer
  | Refused string json
  | SendFailed
  | WrapFailed
  | BadPayload
  | Expired
  | BadSecret
  | BadKey
  | RelayFailed

text \<open>
  The answer a notification carries to the request with the given id: nothing unless it is a gift wrap that
  opens to a rumor of the server whose content is JSON with that id; then the result if \<open>ok\<close> is true, and the
  error otherwise.
\<close>

definition client_answer ::
    "'ev nostr \<Rightarrow> text_lib \<Rightarrow> string \<Rightarrow> string \<Rightarrow> string \<Rightarrow> 'ev notif \<Rightarrow> (json + json) option" where
  "client_answer N X me server i n =
     (case n of
        Other \<Rightarrow> None
      | Event ev \<Rightarrow>
          if \<not> ns_is_wrap N ev then None
          else
            (case ns_open N me ev of
               None \<Rightarrow> None
             | Some g \<Rightarrow>
                 if gf_sender g \<noteq> server then None
                 else
                   (case tx_parse X (gf_content g) of
                      None \<Rightarrow> None
                    | Some resp \<Rightarrow>
                        if as_str (json_index resp ''id'') \<noteq> Some i then None
                        else if as_bool (json_index resp ''ok'') = Some True then
                          Some (Inr (json_index resp ''result''))
                        else Some (Inl (json_index resp ''error'')))))"

section \<open>Sending a request\<close>

definition request_json :: "string \<Rightarrow> u64 \<Rightarrow> string \<Rightarrow> json \<Rightarrow> json" where
  "request_json i now t p =
     JObject [(''v'', json_u64 1), (''id'', JString i), (''ts'', json_u64 now), (''type'', JString t), (''payload'', p)]"

definition wrap_request ::
    "'ev nostr \<Rightarrow> text_lib \<Rightarrow> nat \<Rightarrow> string \<Rightarrow> string \<Rightarrow> string \<Rightarrow> u64 \<Rightarrow> string \<Rightarrow> json \<Rightarrow> 'ev option" where
  "wrap_request N X rnd me server i now t p =
     ns_wrap N rnd me server 25078 (tx_print X (request_json i now t p))"

text \<open>
  An attempt: whether the event could be sent, and what the stream yields from then until the deadline of
  25 seconds. The stream is created once, so what an attempt did not read is read by the next one.
\<close>

type_synonym 'ev attempt = "bool \<times> 'ev notif list"

fun await_response ::
    "('ev notif \<Rightarrow> (json + json) option) \<Rightarrow> string \<Rightarrow> 'ev notif list \<Rightarrow> (client_error + json) \<times> 'ev notif list" where
  "await_response answer t [] = (Inl NoAnswer, [])"
| "await_response answer t (n # ns) =
     (case answer n of
        None \<Rightarrow> await_response answer t ns
      | Some (Inr v) \<Rightarrow> (Inr v, ns)
      | Some (Inl e) \<Rightarrow> (Inl (Refused t e), ns))"

text \<open>\<open>Wallet::request\<close> of \<open>pair_client.rs\<close>: the error of the last attempt is the one reported.\<close>

fun try_attempts ::
    "('ev notif \<Rightarrow> (json + json) option) \<Rightarrow> string \<Rightarrow> 'ev attempt list \<Rightarrow> 'ev notif list \<Rightarrow> client_error
       \<Rightarrow> client_error + json" where
  "try_attempts answer t [] buf last_err = Inl last_err"
| "try_attempts answer t ((sent, ns) # as) buf last_err =
     (if \<not> sent then Inl SendFailed
      else
        (case await_response answer t (buf @ ns) of
           (Inr v, _) \<Rightarrow> Inr v
         | (Inl e, rest) \<Rightarrow> try_attempts answer t as rest e))"

definition client_request ::
    "'ev nostr \<Rightarrow> text_lib \<Rightarrow> string \<Rightarrow> string \<Rightarrow> nat \<Rightarrow> string \<Rightarrow> u64 \<Rightarrow> string \<Rightarrow> json
       \<Rightarrow> (nat \<Rightarrow> 'ev attempt) \<Rightarrow> client_error + json" where
  "client_request N X me server rnd i now t p env =
     (case wrap_request N X rnd me server i now t p of
        None \<Rightarrow> Inl WrapFailed
      | Some ev \<Rightarrow> try_attempts (client_answer N X me server i) t (map env [1..<4]) [] NoAttempts)"

section \<open>Pairing\<close>

record client_payload =
  cp_node_pubkey :: string
  cp_relays :: "string list"
  cp_pair_secret :: string
  cp_exp :: u64

fun strings :: "json list \<Rightarrow> string list option" where
  "strings [] = Some []"
| "strings (v # vs) =
     (case (as_str v, strings vs) of
        (Some s, Some ss) \<Rightarrow> Some (s # ss)
      | _ \<Rightarrow> None)"

definition payload_of_json :: "json \<Rightarrow> client_payload option" where
  "payload_of_json j =
     (case (field as_str j ''nodePubkey'', Option.bind (field as_array j ''relays'') strings,
            field as_str j ''pairSecret'', field as_u64 j ''exp'') of
        (Some k, Some rs, Some s, Some e) \<Rightarrow>
          Some \<lparr>cp_node_pubkey = k, cp_relays = rs, cp_pair_secret = s, cp_exp = e\<rparr>
      | _ \<Rightarrow> None)"

definition pairing_proof :: "crypto \<Rightarrow> string \<Rightarrow> string \<Rightarrow> string option" where
  "pairing_proof K s me =
     map_option (\<lambda>sec. hex_encode K (hmac_sha256 K sec (as_bytes me))) (b64url_decode K s)"

definition pair_payload :: "string \<Rightarrow> string \<Rightarrow> json" where
  "pair_payload proof client = JObject [(''proof'', JString proof), (''client'', JString client)]"

text \<open>
  The opening of both tools: the payload is fetched and checked, the proof computed, the server's key
  parsed, the relays added and the inbox subscribed. It yields the server's key and the proof.
\<close>

definition client_setup ::
    "crypto \<Rightarrow> (string \<Rightarrow> string option) \<Rightarrow> (string \<Rightarrow> bool) \<Rightarrow> bool \<Rightarrow> string \<Rightarrow> json option \<Rightarrow> u64
       \<Rightarrow> client_error + string \<times> string" where
  "client_setup K pk_from_hex add_relay subscribed me fetched now =
     (case Option.bind fetched payload_of_json of
        None \<Rightarrow> Inl BadPayload
      | Some p \<Rightarrow>
          if \<not> now < cp_exp p then Inl Expired
          else
            (case pairing_proof K (cp_pair_secret p) me of
               None \<Rightarrow> Inl BadSecret
             | Some proof \<Rightarrow>
                 (case pk_from_hex (cp_node_pubkey p) of
                    None \<Rightarrow> Inl BadKey
                  | Some server \<Rightarrow>
                      if list_all add_relay (cp_relays p) \<and> subscribed then Inr (server, proof) else Inl RelayFailed)))"

text \<open>What \<open>pair_client.rs\<close> asks after the pairing, when it is given an address.\<close>

definition probe_requests :: "string \<Rightarrow> (string \<times> json) list" where
  "probe_requests addr =
     [(''ping'', JObject []),
      (''get_balance'', JObject [(''addresses'', JArray [JString addr])]),
      (''get_utxos'', JObject [(''addresses'', JArray [JString addr])]),
      (''get_history'', JObject [(''addresses'', JArray [JString addr]), (''limit'', json_u64 5)]),
      (''get_fee_estimates'', JObject []),
      (''watch_addresses'', JObject [(''addresses'', JArray [JString addr])])]"

text \<open>
  The requests one after the other, up to the first that fails; \<open>request\<close> is \<open>client_request\<close> at the id, the
  time and the deliveries of the k-th one. Each result is printed (of the first one the member \<open>server\<close>).
\<close>

fun ask_all_of ::
    "(nat \<Rightarrow> string \<Rightarrow> json \<Rightarrow> client_error + json) \<Rightarrow> nat \<Rightarrow> (string \<times> json) list
       \<Rightarrow> json list \<times> client_error option" where
  "ask_all_of request k [] = ([], None)"
| "ask_all_of request k ((t, p) # qs) =
     (case request k t p of
        Inl e \<Rightarrow> ([], Some e)
      | Inr v \<Rightarrow> (case ask_all_of request (Suc k) qs of (vs, e) \<Rightarrow> (v # vs, e)))"

definition pair_client ::
    "crypto \<Rightarrow> (string \<Rightarrow> string option) \<Rightarrow> (string \<Rightarrow> bool) \<Rightarrow> bool \<Rightarrow> string \<Rightarrow> json option \<Rightarrow> u64
       \<Rightarrow> (string \<Rightarrow> nat \<Rightarrow> string \<Rightarrow> json \<Rightarrow> client_error + json) \<Rightarrow> string option
       \<Rightarrow> json list \<times> client_error option" where
  "pair_client K pk_from_hex add_relay subscribed me fetched now request probe_addr =
     (case client_setup K pk_from_hex add_relay subscribed me fetched now of
        Inl e \<Rightarrow> ([], Some e)
      | Inr (server, proof) \<Rightarrow>
          ask_all_of (request server) 0
            ((''pair'', pair_payload proof ''pair-client/dev'')
             # (case probe_addr of None \<Rightarrow> [] | Some a \<Rightarrow> probe_requests a)))"

section \<open>The notification probe\<close>

text \<open>
  \<open>roundtrip\<close> of \<open>notify_probe.rs\<close>: a refusal ends it at once, only a timeout leads to another attempt; the
  stream is shared with what follows.
\<close>

fun probe_attempts ::
    "('ev notif \<Rightarrow> (json + json) option) \<Rightarrow> string \<Rightarrow> 'ev attempt list \<Rightarrow> 'ev notif list
       \<Rightarrow> (client_error + json) \<times> 'ev notif list" where
  "probe_attempts answer t [] buf = (Inl NoAnswer, buf)"
| "probe_attempts answer t ((sent, ns) # as) buf =
     (if \<not> sent then (Inl SendFailed, buf)
      else
        (case await_response answer t (buf @ ns) of
           (Inl NoAnswer, rest) \<Rightarrow> probe_attempts answer t as rest
         | r \<Rightarrow> r))"

definition roundtrip ::
    "'ev nostr \<Rightarrow> text_lib \<Rightarrow> string \<Rightarrow> string \<Rightarrow> nat \<times> string \<times> u64 \<Rightarrow> string \<Rightarrow> json
       \<Rightarrow> (nat \<Rightarrow> 'ev attempt) \<Rightarrow> 'ev notif list \<Rightarrow> (client_error + json) \<times> 'ev notif list" where
  "roundtrip N X me server fresh t p env buf =
     (case fresh of (rnd, i, now) \<Rightarrow>
        (case wrap_request N X rnd me server i now t p of
           None \<Rightarrow> (Inl WrapFailed, buf)
         | Some ev \<Rightarrow> probe_attempts (client_answer N X me server i) t (map env [1..<4]) buf))"

definition probe_note :: "'ev nostr \<Rightarrow> text_lib \<Rightarrow> string \<Rightarrow> string \<Rightarrow> 'ev notif \<Rightarrow> json option" where
  "probe_note N X me server n =
     (case n of
        Other \<Rightarrow> None
      | Event ev \<Rightarrow>
          if \<not> ns_is_wrap N ev then None
          else
            (case ns_open N me ev of
               None \<Rightarrow> None
             | Some g \<Rightarrow>
                 if gf_sender g \<noteq> server then None
                 else
                   (case tx_parse X (gf_content g) of
                      None \<Rightarrow> None
                    | Some env \<Rightarrow>
                        if as_str (json_index env ''type'') = Some ''notify'' then Some (json_index env ''payload'')
                        else None)))"

text \<open>What the probe prints while it listens.\<close>

definition probe_listen :: "'ev nostr \<Rightarrow> text_lib \<Rightarrow> string \<Rightarrow> string \<Rightarrow> 'ev notif list \<Rightarrow> json list" where
  "probe_listen N X me server ns = List.map_filter (probe_note N X me server) ns"

text \<open>
  The probe as a whole: the pairing, one watch set, then listening; the three share one stream. The deliveries
  of each request are those of its three attempts, the last list is what arrives while listening.
\<close>

definition notify_probe ::
    "'ev nostr \<Rightarrow> text_lib \<Rightarrow> crypto \<Rightarrow> (string \<Rightarrow> string option) \<Rightarrow> (string \<Rightarrow> bool) \<Rightarrow> bool \<Rightarrow> string \<Rightarrow> json option \<Rightarrow> u64
       \<Rightarrow> (nat \<Rightarrow> nat \<times> string \<times> u64) \<Rightarrow> string \<Rightarrow> (nat \<Rightarrow> nat \<Rightarrow> 'ev attempt) \<Rightarrow> 'ev notif list
       \<Rightarrow> json list \<times> client_error option" where
  "notify_probe N X K pk_from_hex add_relay subscribed me fetched now fresh watch_addr env listened =
     (case client_setup K pk_from_hex add_relay subscribed me fetched now of
        Inl e \<Rightarrow> ([], Some e)
      | Inr (server, proof) \<Rightarrow>
          (case roundtrip N X me server (fresh 0) ''pair'' (pair_payload proof ''notify-probe/dev'') (env 0) [] of
             (Inl e, _) \<Rightarrow> ([], Some e)
           | (Inr paired, buf) \<Rightarrow>
               (case roundtrip N X me server (fresh 1) ''watch_addresses''
                       (JObject [(''addresses'', JArray [JString watch_addr])]) (env 1) buf of
                  (Inl e, _) \<Rightarrow> ([paired], Some e)
                | (Inr watching, buf') \<Rightarrow>
                    (paired # watching # probe_listen N X me server (buf' @ listened), None))))"

text \<open>The arguments of the tools.\<close>

definition DEFAULT_URL :: string where
  "DEFAULT_URL = ''http://127.0.0.1:3829/pairing''"

definition DEFAULT_WATCH_ADDR :: string where
  "DEFAULT_WATCH_ADDR = ''1A1zP1eP5QGefi2DMPTfTL5SLmv7DivfNa''"

definition arg_or :: "string \<Rightarrow> string option \<Rightarrow> string" where
  "arg_or d a = (case a of None \<Rightarrow> d | Some s \<Rightarrow> s)"

definition listen_secs :: "string option \<Rightarrow> nat" where
  "listen_secs a = (case Option.bind a (parse_uint (2 ^ 64)) of None \<Rightarrow> 120 | Some n \<Rightarrow> n)"

end
