(* ===== verification/ClientProps.thy ===== *)
theory ClientProps
  imports Client SystemRuns SampleText
begin

text \<open>
  Wallet and server together: what the wallet of \<open>server/examples/pair_client.rs\<close> sends is what the server
  reads, what the server answers is what the wallet reads, the pairing works from the page to the allowlist,
  and what the wallet's retries are worth.
\<close>

section \<open>Requests and responses\<close>

lemma request_json_ok: "json_ok p \<Longrightarrow> json_ok (request_json i now t p)"
  by (simp add: request_json_def json_u64_def)

lemma request_json_reads: "json_ok p \<Longrightarrow>
    request_of_json (json_norm (request_json i now t p)) =
      Some \<lparr>env_v = 1, env_id = i, env_ts = now, msg_type = t, payload = json_norm p\<rparr>"
proof -
  assume p: "json_ok p"
  let ?j = "request_json i now t p"
  have "json_norm ?j = JObject (sort_key fst (map (map_prod id json_norm)
      [(''v'', json_u64 1), (''id'', JString i), (''ts'', json_u64 now), (''type'', JString t), (''payload'', p)]))"
    by (simp add: request_json_def)
  then obtain ms where ms: "json_norm ?j = JObject ms" by blast
  have g: "json_get (json_norm ?j) k = map_option json_norm (json_get ?j k)" for k
    by (rule json_get_norm [OF request_json_ok [OF p]])
  have "map_of ms k = map_option json_norm (json_get ?j k)" for k using g [of k] by (simp add: ms)
  then have "map_of ms ''v'' = Some (json_u64 1)" "map_of ms ''id'' = Some (JString i)" "map_of ms ''ts'' = Some (json_u64 now)"
      "map_of ms ''type'' = Some (JString t)" "map_of ms ''payload'' = Some (json_norm p)"
    by (simp_all add: request_json_def json_u64_def)
  moreover have "as_u8 (json_u64 1) = Some 1" by (simp add: as_u8_def)
  ultimately show ?thesis by (simp add: ms request_of_json_def request_of_parts_def json_index_def)
qed

lemma request_parses:
  assumes "request_text_ok X from_str" "json_ok p" "length (tx_print X (request_json i now t p)) \<le> 262144"
    and "uuid_ok i" "length i \<in> {1..64}"
  shows "parse_request from_str uuid_ok (tx_print X (request_json i now t p)) =
    Inr \<lparr>env_v = 1, env_id = i, env_ts = now, msg_type = t, payload = json_norm p\<rparr>"
proof -
  have "from_str (tx_print X (request_json i now t p)) =
      Some \<lparr>env_v = 1, env_id = i, env_ts = now, msg_type = t, payload = json_norm p\<rparr>"
    using assms(1) request_json_ok [OF assms(2)] request_json_reads [OF assms(2)] by (simp add: request_text_ok_def)
  moreover have "i \<noteq> []" using assms(5) by auto
  ultimately show ?thesis using assms(3-5) by (simp add: parse_request_def MAX_CONTENT_def PROTOCOL_VERSION_def)
qed

text \<open>What the server does with the event of a request.\<close>

lemma request_handled:
  assumes "nostr_ok N" "request_text_ok X (tr_from_str T)" "json_ok p" "length (tx_print X (request_json i now t p)) \<le> 262144"
    and "tr_uuid_ok T i" "length i \<in> {1..64}" "wrap_request N X rnd me server i now t p = Some ev"
  shows "handle_event T (ns_open N server) rq ev st =
    (case route T rq me \<lparr>env_v = 1, env_id = i, env_ts = now, msg_type = t, payload = json_norm p\<rparr> st of
       (Panic, st') \<Rightarrow> (Panic, st')
     | (Ret None, st') \<Rightarrow> (Ret None, st')
     | (Ret (Some r), st') \<Rightarrow> (Ret (Some (me, response_to_json r)), st'))"
proof -
  have "ns_open N server ev = Some \<lparr>gf_sender = me, gf_kind = 25078, gf_content = tx_print X (request_json i now t p)\<rparr>"
    using wrapped(2) [OF assms(1)] assms(7) by (simp add: wrap_request_def)
  moreover have "parse_request (tr_from_str T) (tr_uuid_ok T) (tx_print X (request_json i now t p)) =
      Inr \<lparr>env_v = 1, env_id = i, env_ts = now, msg_type = t, payload = json_norm p\<rparr>"
    by (rule request_parses) (use assms in auto)
  ultimately show ?thesis by (simp add: handle_event_def KIND_REQUEST_def split: prod.split run.split option.split)
qed

text \<open>The response as the wallet reads it.\<close>

definition answer_json :: "response_envelope \<Rightarrow> json + json" where
  "answer_json r =
     (if resp_ok r then Inr (json_norm (the (resp_result r))) else Inl (json_norm (error_to_json (the (resp_error r)))))"

lemma response_get:
  "json_get (response_to_json r) ''id'' = Some (JString (resp_id r))"
  "json_get (response_to_json r) ''ok'' = Some (JBool (resp_ok r))"
  "json_get (response_to_json r) ''result'' = resp_result r"
  "json_get (response_to_json r) ''error'' = map_option error_to_json (resp_error r)"
  by (simp_all add: response_to_json_def skip_none_def split: option.split)

lemma client_reads:
  assumes "nostr_ok N" "text_ok X" "json_ok (response_to_json r)" "resp_wf r"
    and "send_response N X rnd server me (response_to_json r) = Some ev"
  shows "client_answer N X me server i (Event ev) = (if resp_id r = i then Some (answer_json r) else None)"
proof -
  let ?j = "response_to_json r"
  have o: "ns_is_wrap N ev" "ns_open N me ev = Some \<lparr>gf_sender = server, gf_kind = KIND_RESPONSE, gf_content = tx_print X ?j\<rparr>"
    using wrapped [OF assms(1)] assms(5) by (simp_all add: send_response_def)
  have p: "tx_parse X (tx_print X ?j) = Some (json_norm ?j)" using assms(2,3) by (simp add: text_ok_def)
  note ix = json_index_norm [OF assms(3)]
  have ix: "json_index (json_norm ?j) ''id'' = JString (resp_id r)" "json_index (json_norm ?j) ''ok'' = JBool (resp_ok r)"
      "json_index (json_norm ?j) ''result'' = (case resp_result r of None \<Rightarrow> JNull | Some v \<Rightarrow> json_norm v)"
      "json_index (json_norm ?j) ''error'' = (case resp_error r of None \<Rightarrow> JNull | Some e \<Rightarrow> json_norm (error_to_json e))"
    unfolding ix by (simp_all add: json_index_def response_get split: option.split)
  obtain res err where "if resp_ok r then resp_result r = Some res else resp_error r = Some err"
    using assms(4) by (auto simp: resp_wf_def split: if_splits)
  then show ?thesis
    using assms(4) by (auto simp: client_answer_def o p ix answer_json_def resp_wf_def split: if_splits)
qed

section \<open>The wallet's loop\<close>

lemma await_answer: "await_response answer t ns = (Inr v, rest) \<Longrightarrow> \<exists>n \<in> set ns. answer n = Some (Inr v)"
  by (induction ns) (auto split: option.splits sum.splits)

lemma await_rest: "await_response answer t ns = (r, rest) \<Longrightarrow> set rest \<subseteq> set ns"
  by (induction ns) (fastforce split: option.splits sum.splits)+

lemma try_attempts_answer:
  "try_attempts answer t as buf e = Inr v \<Longrightarrow> \<exists>n \<in> set buf \<union> (\<Union>a \<in> set as. set (snd a)). answer n = Some (Inr v)"
proof (induction answer t as buf e rule: try_attempts.induct)
  case (2 answer t sent ns as buf e)
  obtain x rest where a: "await_response answer t (buf @ ns) = (x, rest)" by fastforce
  show ?case
  proof (cases x)
    case (Inl e')
    then have "try_attempts answer t as rest e' = Inr v" and "sent" using 2(2) a by (auto split: if_splits)
    from 2(1) [OF _ a [symmetric] Inl this(1)] this(2) await_rest [OF a] show ?thesis by fastforce
  next
    case (Inr w)
    then show ?thesis using 2(2) a await_answer [of answer t "buf @ ns" w rest] by (fastforce split: if_splits)
  qed
qed simp

lemma client_answer_event:
  assumes "client_answer N X me server i n = Some a"
  obtains ev g resp where "n = Event ev" "ns_is_wrap N ev" "ns_open N me ev = Some g" "gf_sender g = server"
    "tx_parse X (gf_content g) = Some resp" "as_str (json_index resp ''id'') = Some i"
    "a = (if as_bool (json_index resp ''ok'') = Some True then Inr (json_index resp ''result'') else Inl (json_index resp ''error''))"
  using assms by (auto simp: client_answer_def split: notif.splits option.splits if_splits)

lemma await_skips: "\<forall>n \<in> set ns. answer n = None \<Longrightarrow> await_response answer t (ns @ ms) = await_response answer t ms"
  by (induction ns) auto

section \<open>The pairing\<close>

lemma strings_map [simp]: "strings (map JString ss) = Some ss"
  by (induction ss) simp_all







text \<open>An answer that arrives in the first attempt is returned.\<close>

lemma first_attempt:
  assumes "wrap_request N X rnd me server i now t p = Some ev" "env 1 = (True, noise @ n # later)"
    and "\<forall>m \<in> set noise. client_answer N X me server i m = None" "client_answer N X me server i n = Some (Inr v)"
  shows "client_request N X me server rnd i now t p env = Inr v"
proof -
  have "env (Suc 0) = (True, noise @ n # later)" using assms(2) by simp
  then show ?thesis
    using await_skips [OF assms(3), of t "n # later"] assms(1,4) by (simp add: client_request_def upt_rec)
qed

section \<open>Retries\<close>

lemma route_replay:
  assumes "server_ok st"
    and "check_and_insert (tr_rc_codec T) (rq_io_replay rq) (env_id env) (rq_now rq) (sv_replay st) (sv_fs st) = (b, rc, d)"
  shows "sv_replay (snd (route T rq w env st)) = rc"
proof -
  obtain out st' where r: "route T rq w env st = (out, st')" by fastforce
  have "sv_replay st' = rc"
    using assms(1) r
  proof (cases rule: route_cases)
    case (dispatched st1)
    have "sv_replay st1 = rc" using dispatched(3) assms(2) by (auto simp: admitted_def split: prod.splits if_splits)
    moreover obtain x st2 where d: "dispatch T rq w env st1 = (x, st2)" by fastforce
    ultimately show ?thesis using dispatch_local [OF dispatched(5) d] dispatched(6) by (auto simp: local_to_def split: run.splits)
  qed (use assms(2) r in \<open>auto simp: route_def split: prod.splits run.splits bool.splits\<close>)
  then show ?thesis by (simp add: r)
qed

lemma loop_one:
  assumes "ns_is_wrap N ev"
    and "handle_event T (ns_open N server) rq ev st =
      (case route T rq w env st of (Panic, st') \<Rightarrow> (Panic, st') | (Ret None, st') \<Rightarrow> (Ret None, st')
       | (Ret (Some r), st') \<Rightarrow> (Ret (Some (w, response_to_json r)), st'))"
    and "run_loop T N X server [(Event ev, rq, rnd)] st = ((x, out), st')"
  shows "st' = snd (route T rq w env st) \<and> length out \<le> 1 \<and> (fst (route T rq w env st) = Ret None \<longrightarrow> out = [])"
  using assms by (auto split: prod.splits run.splits option.splits)

lemma route_inserts:
  assumes "server_ok st" "live_entry (sv_replay st) (env_id env) (rq_now rq) = None"
  shows "has_id (sv_replay (snd (route T rq w env st))) (env_id env) (rq_now rq)"
proof -
  have ok: "rc_ok (sv_replay st)" using assms(1) by (simp add: server_ok_def)
  obtain b rc d where c: "check_and_insert (tr_rc_codec T) (rq_io_replay rq) (env_id env) (rq_now rq) (sv_replay st) (sv_fs st) = (b, rc, d)"
    by (metis prod_cases3)
  have "b" using check_result [OF ok] assms(2) c by (metis fst_conv)
  then show ?thesis
    using check_entries [OF ok c, of "env_id env"] check_keeps_ok [OF ok c] route_replay [OF assms(1) c] by (simp add: has_id_def)
qed

lemma loop_replay:
  assumes "ns_is_wrap N ev"
    and "handle_event T (ns_open N server) rq ev st =
      (case route T rq w env st of (Panic, st') \<Rightarrow> (Panic, st') | (Ret None, st') \<Rightarrow> (Ret None, st')
       | (Ret (Some r), st') \<Rightarrow> (Ret (Some (w, response_to_json r)), st'))"
    and "run_loop T N X server [(Event ev, rq, rnd)] st = ((x, out), st')"
    and "has_id (sv_replay st) (env_id env) t" "unat (rq_now rq) - unat t < 864000"
  shows "out = [] \<and> has_id (sv_replay st') (env_id env) t"
proof -
  obtain b rc d where c: "check_and_insert (tr_rc_codec T) (rq_io_replay rq) (env_id env) (rq_now rq) (sv_replay st) (sv_fs st) = (b, rc, d)"
    by (metis prod_cases3)
  have "rc_ok (sv_replay st)" using assms(4) by (simp add: has_id_def)
  from check_result [OF this] has_id_live [OF assms(4,5)] c have "\<not> b" by (metis fst_conv option.distinct(1))
  then have "route T rq w env st = (Ret None, st\<lparr>sv_replay := rc, sv_fs := d\<rparr>)" using c by (simp add: route_def)
  with loop_one [OF assms(1-3)] check_keeps_id [OF assms(4,5) c] show ?thesis by simp
qed

text \<open>Waiting through a stretch of the stream with at most one answer in it.\<close>

lemma await_none: "filter (\<lambda>n. answer n \<noteq> None) ns = [] \<Longrightarrow> await_response answer t ns = (Inl NoAnswer, [])"
  by (induction ns) (auto split: if_splits)

lemma await_one:
  "filter (\<lambda>n. answer n \<noteq> None) ns = [n] \<Longrightarrow> \<exists>rest. filter (\<lambda>n. answer n \<noteq> None) rest = [] \<and>
     await_response answer t ns = (case the (answer n) of Inr v \<Rightarrow> Inr v | Inl e \<Rightarrow> Inl (Refused t e), rest)"
  by (induction ns) (auto split: if_splits sum.splits)

text \<open>Three attempts, with at most one answer in all of them.\<close>

lemma one_answer_counts:
  assumes "wrap_request N X rnd me server i now t p = Some ev"
    and "env 1 = (True, got1)" "env 2 = (True, got2)" "env 3 = (True, got3)"
    and "as = filter (\<lambda>n. client_answer N X me server i n \<noteq> None) (got1 @ got2 @ got3)" "length as \<le> 1"
  shows "client_request N X me server rnd i now t p env =
    (case as of
       [] \<Rightarrow> Inl NoAnswer
     | n # _ \<Rightarrow>
         (case the (client_answer N X me server i n) of
            Inr v \<Rightarrow> Inr v
          | Inl e \<Rightarrow> if n \<in> set got3 then Inl (Refused t e) else Inl NoAnswer))"
proof -
  let ?answer = "client_answer N X me server i" and ?P = "\<lambda>n. client_answer N X me server i n \<noteq> None"
  have e: "map env [1..<4] = [(True, got1), (True, got2), (True, got3)]"
    using assms(2-4) by (simp add: upt_rec numeral_2_eq_2 numeral_3_eq_3)
  have r: "client_request N X me server rnd i now t p env =
      try_attempts ?answer t [(True, got1), (True, got2), (True, got3)] [] NoAttempts"
    using assms(1) unfolding client_request_def e by simp
  show ?thesis
  proof (cases as)
    case Nil
    then have "filter ?P got1 = []" "filter ?P got2 = []" "filter ?P got3 = []" using assms(5) by simp_all
    then show ?thesis unfolding r Nil by (simp add: await_none)
  next
    case (Cons n ns)
    then have as: "as = [n]" using assms(6) by simp
    then have "n \<in> set as" by simp
    then have n: "?P n" using assms(5) by auto
    have last: "n \<in> set got3 \<longleftrightarrow> filter ?P got3 \<noteq> []"
    proof
      assume "filter ?P got3 \<noteq> []"
      then obtain x where "x \<in> set got3" "?P x" by (auto simp: filter_empty_conv)
      moreover from this have "x \<in> set as" using assms(5) by simp
      ultimately show "n \<in> set got3" using as by simp
    qed (use n in \<open>auto simp: filter_empty_conv\<close>)
    consider "filter ?P got1 = [n]" "filter ?P got2 = []" "filter ?P got3 = []"
      | "filter ?P got1 = []" "filter ?P got2 = [n]" "filter ?P got3 = []"
      | "filter ?P got1 = []" "filter ?P got2 = []" "filter ?P got3 = [n]"
      using assms(5) as by (auto simp: Cons_eq_append_conv append_eq_Cons_conv)
    then show ?thesis
    proof cases
      case 1
      from await_one [where answer = ?answer, OF 1(1), of t] obtain rest where w: "filter ?P rest = []"
          "await_response ?answer t got1 = (case the (?answer n) of Inr v \<Rightarrow> Inr v | Inl e \<Rightarrow> Inl (Refused t e), rest)" by blast
      then show ?thesis
        unfolding r as using last 1 await_none [of ?answer "rest @ got2" t] by (simp add: await_none split: sum.split)
    next
      case 2
      from await_one [where answer = ?answer, OF 2(2), of t] obtain rest where w: "filter ?P rest = []"
          "await_response ?answer t got2 = (case the (?answer n) of Inr v \<Rightarrow> Inr v | Inl e \<Rightarrow> Inl (Refused t e), rest)" by blast
      then show ?thesis
        unfolding r as using last 2 await_none [of ?answer "rest @ got3" t] by (simp add: await_none split: sum.split)
    next
      case 3
      from await_one [where answer = ?answer, OF 3(3), of t] obtain rest where w:
          "await_response ?answer t got3 = (case the (?answer n) of Inr v \<Rightarrow> Inr v | Inl e \<Rightarrow> Inl (Refused t e), rest)" by blast
      then show ?thesis unfolding r as using last 3 by (simp add: await_none split: sum.split)
    qed
  qed
qed

section \<open>Notifications\<close>

lemma notification_read:
  assumes "nostr_ok N" "text_ok X" "send_notification N X rnd server n = Some ev"
  shows "probe_note N X (nt_wallet n) server (Event ev) = Some (json_norm (json_index (notify_json n) ''payload''))"
proof -
  let ?j = "notify_json n"
  have o: "ns_is_wrap N ev" "ns_open N (nt_wallet n) ev = Some \<lparr>gf_sender = server, gf_kind = KIND_NOTIFY, gf_content = tx_print X ?j\<rparr>"
    using wrapped [OF assms(1)] assms(3) by (simp_all add: send_notification_def)
  have ok: "json_ok ?j" by (simp add: notify_json_def json_u64_def list_all_iff)
  then have p: "tx_parse X (tx_print X ?j) = Some (json_norm ?j)" using assms(2) by (simp add: text_ok_def)
  have "json_index ?j ''type'' = JString ''notify''" by (simp add: json_index_def notify_json_def)
  then have "as_str (json_index (json_norm ?j) ''type'') = Some ''notify''" by (simp add: json_index_norm [OF ok])
  then show ?thesis by (simp add: probe_note_def o p json_index_norm [OF ok])
qed

lemma set_map_filter: "v \<in> set (List.map_filter f xs) \<longleftrightarrow> (\<exists>x \<in> set xs. f x = Some v)"
  by (induction xs) (auto simp: List.map_filter_simps split: option.split)

lemma probe_note_sender:
  assumes "probe_note N X me server n = Some v"
  obtains ev g where "n = Event ev" "ns_open N me ev = Some g" "gf_sender g = server"
  using assms by (auto simp: probe_note_def split: notif.splits option.splits if_splits)

section \<open>Properties\<close>

text \<open>
  The server reads what the wallet wrote: the content of a request of \<open>pair_client.rs\<close> with a UUID and at
  most 256 KiB of text is accepted by \<open>parse_request\<close>, with the same id, time and type, and with the payload
  as it is (its members sorted, as \<open>serde_json\<close> keeps them).
\<close>

theorem request_reads_back:
  assumes "request_text_ok X from_str" "json_ok p" "length (tx_print X (request_json i now t p)) \<le> 262144"
    and "uuid_ok i" "length i \<in> {1..64}"
  shows "parse_request from_str uuid_ok (tx_print X (request_json i now t p)) =
    Inr \<lparr>env_v = 1, env_id = i, env_ts = now, msg_type = t, payload = json_norm p\<rparr>"
  by (rule request_parses) (use assms in auto)

text \<open>
  C5. The wallet believes the server only: whatever the relays deliver, a result that a request returns came
  in a gift wrap that opens to a rumor of the server's key, with the id of this very request and \<open>ok\<close> true.
\<close>

theorem client_believes_server_only:
  assumes "client_request N X me server rnd i now t p env = Inr v"
  shows "\<exists>k \<in> {1, 2, 3}. \<exists>ev g resp. Event ev \<in> set (snd (env k)) \<and> ns_is_wrap N ev \<and> ns_open N me ev = Some g \<and>
    gf_sender g = server \<and> tx_parse X (gf_content g) = Some resp \<and> as_str (json_index resp ''id'') = Some i \<and>
    as_bool (json_index resp ''ok'') = Some True \<and> v = json_index resp ''result''"
proof -
  have m: "map env [1..<4] = [env 1, env 2, env 3]" by (simp add: upt_rec numeral_2_eq_2 numeral_3_eq_3)
  obtain ev where "try_attempts (client_answer N X me server i) t [env 1, env 2, env 3] [] NoAttempts = Inr v"
    using assms unfolding client_request_def m by (auto split: option.splits)
  from try_attempts_answer [OF this] obtain k n where
    k: "k \<in> {1, 2, 3}" "n \<in> set (snd (env k))" "client_answer N X me server i n = Some (Inr v)" by auto
  from k(3) obtain ev g resp where "n = Event ev" "ns_is_wrap N ev" "ns_open N me ev = Some g" "gf_sender g = server"
      "tx_parse X (gf_content g) = Some resp" "as_str (json_index resp ''id'') = Some i"
      "as_bool (json_index resp ''ok'') = Some True" "v = json_index resp ''result''"
    by (rule client_answer_event) (auto split: if_splits)
  with k(1,2) show ?thesis by blast
qed


text \<open>
  C4. A retry is never answered: the request of \<open>pair_client.rs\<close> is sent up to three times with one id, and the
  server drops the second and the third as replays of the first, so within the ten days of retention it
  publishes nothing for them. Let all three be sent and the relays deliver, among anything else and in whichever
  attempt, answers to the request that the server published, none twice: then what counts is the answer to the first
  sending. If it is a result and arrives in any of the attempts, the wallet returns it; if it is a refusal, the
  wallet reports it only when it arrives during the third attempt, since the error of the last attempt is the
  one reported; in every other case the wallet reports a timeout.
\<close>

theorem retries_are_never_answered:
  assumes "server_ok st" "nostr_ok N" "request_text_ok X (tr_from_str T)" "json_ok p"
    and "wrap_request N X rnd me server i now t p = Some ev"
    and "length (tx_print X (request_json i now t p)) \<le> 262144" "tr_uuid_ok T i" "length i \<in> {1..64}"
    and "live_entry (sv_replay st) i (rq_now rq1) = None"
    and "unat (rq_now rq2) - unat (rq_now rq1) < 864000" "unat (rq_now rq3) - unat (rq_now rq1) < 864000"
    and "run_loop T N X server [(Event ev, rq1, rnd1)] st = ((x1, out1), st1)"
    and "run_loop T N X server [(Event ev, rq2, rnd2)] st1 = ((x2, out2), st2)"
    and "run_loop T N X server [(Event ev, rq3, rnd3)] st2 = ((x3, out3), st3)"
    and "env 1 = (True, got1)" "env 2 = (True, got2)" "env 3 = (True, got3)"
    and "as = filter (\<lambda>n. client_answer N X me server i n \<noteq> None) (got1 @ got2 @ got3)"
    and "distinct as" "set as \<subseteq> Event ` set (out1 @ out2 @ out3)"
  shows "out2 = [] \<and> out3 = [] \<and> set as \<subseteq> Event ` set out1 \<and> client_request N X me server rnd i now t p env =
    (case as of
       [] \<Rightarrow> Inl NoAnswer
     | n # _ \<Rightarrow>
         (case the (client_answer N X me server i n) of
            Inr v \<Rightarrow> Inr v
          | Inl e \<Rightarrow> if n \<in> set got3 then Inl (Refused t e) else Inl NoAnswer))"
proof -
  let ?env = "\<lparr>env_v = 1, env_id = i, env_ts = now, msg_type = t, payload = json_norm p\<rparr>"
  have h: "handle_event T (ns_open N server) rq ev s =
      (case route T rq me ?env s of (Panic, st') \<Rightarrow> (Panic, st') | (Ret None, st') \<Rightarrow> (Ret None, st')
       | (Ret (Some r), st') \<Rightarrow> (Ret (Some (me, response_to_json r)), st'))" for rq s
    by (rule request_handled [OF assms(2,3,4,6,7,8,5)])
  have w: "ns_is_wrap N ev" using wrapped(1) [OF assms(2)] assms(5) by (simp add: wrap_request_def)
  have one: "length out1 \<le> 1" and id1: "has_id (sv_replay st1) (env_id ?env) (rq_now rq1)"
    using loop_one [OF w h assms(12)] route_inserts [OF assms(1), of ?env rq1 T me] assms(9) by auto
  have two: "out2 = []" "has_id (sv_replay st2) (env_id ?env) (rq_now rq1)"
    using loop_replay [OF w h assms(13) id1 assms(10)] by simp_all
  have three: "out3 = []" using loop_replay [OF w h assms(14) two(2) assms(11)] by simp
  have sub: "set as \<subseteq> Event ` set out1" using assms(20) two(1) three by simp
  have "card (set as) \<le> card (Event ` set out1)" using sub by (intro card_mono) simp_all
  also have "\<dots> \<le> length out1" using card_image_le [of "set out1" Event] card_length [of out1] by simp
  finally have "length as \<le> 1" using one assms(19) by (simp add: distinct_card)
  from one_answer_counts [OF assms(5,15-18) this] two(1) three sub show ?thesis by blast
qed

text \<open>
  The wallet hears what the watcher says: if the watcher's notifications for a wallet are wrapped and
  delivered in order, the listening probe prints the payload of each of them, and from any stream it
  prints only payloads that came from the server's key.
\<close>

theorem probe_prints_notifications:
  assumes "nostr_ok N" "text_ok X" "\<forall>n \<in> set sent. nt_wallet n = me"
    and "list_all2 (\<lambda>n ev. \<exists>rnd. send_notification N X rnd server n = Some ev) sent evs"
  shows "probe_listen N X me server (map Event evs) = map (\<lambda>n. json_norm (json_index (notify_json n) ''payload'')) sent \<and>
    (\<forall>ns. \<forall>v \<in> set (probe_listen N X me server ns). \<exists>ev g. Event ev \<in> set ns \<and> ns_open N me ev = Some g \<and> gf_sender g = server)"
proof -
  have "probe_listen N X me server (map Event evs) = map (\<lambda>n. json_norm (json_index (notify_json n) ''payload'')) sent"
    using assms(4,3) by (induction rule: list_all2_induct)
      (auto simp: probe_listen_def List.map_filter_simps notification_read [OF assms(1,2)])
  then show ?thesis by (auto simp: probe_listen_def set_map_filter elim!: probe_note_sender)
qed

section \<open>Witnesses\<close>

definition toy_transport :: "(string, unit, usize) transport" where
  "toy_transport = (sample_transport sample_handlers)\<lparr>tr_from_str := toy_from_str\<rparr>"

lemma toy_wrap [simp]: "ns_wrap toy_nostr rnd s r k c = Some (r, \<lparr>gf_sender = s, gf_kind = k, gf_content = c\<rparr>)"
  by (simp add: toy_nostr_def)

lemma toy_length [simp]: "length (print_string s) = 2 * length s + 1"
  by (induction s) (simp_all add: print_string_def print_list_def)

lemma toy_print_text: "tx_print toy_text = toy_print"
  by (simp add: toy_text_def)

theorem request_reads_back_witness:
  "parse_request toy_from_str (\<lambda>_. True) (tx_print toy_text (request_json ''nope'' 7 ''ping'' (JObject []))) =
     Inr \<lparr>env_v = 1, env_id = ''nope'', env_ts = 7, msg_type = ''ping'', payload = JObject []\<rparr>"
proof -
  have l: "length (tx_print toy_text (request_json ''nope'' 7 ''ping'' (JObject []))) \<le> 262144"
    by (simp add: toy_print_text request_json_def json_u64_def print_list_def)
  have p: "json_ok (JObject [])" and u: "(\<lambda>_ :: string. True) ''nope''" and i: "length ''nope'' \<in> {1..64}" by simp_all
  show ?thesis using request_reads_back [where uuid_ok = "\<lambda>_. True", OF toy_request_text_ok p l u i] by simp
qed

theorem client_believes_server_only_witness:
  "\<exists>ev g. Event ev \<in> {Event (''bb'', \<lparr>gf_sender = ''a1a1'', gf_kind = 25079,
        gf_content = tx_print toy_text (response_to_json (response_ok ''nope'' (JObject [])))\<rparr>)} \<and>
     ns_open toy_nostr ''bb'' ev = Some g \<and> gf_sender g = ''a1a1''"
proof -
  let ?r = "response_ok ''nope'' (JObject [])"
  let ?ev = "(''bb'', \<lparr>gf_sender = ''a1a1'', gf_kind = 25079, gf_content = tx_print toy_text (response_to_json ?r)\<rparr>)"
  let ?env = "\<lambda>k :: nat. (True, [Event ?ev])"
  have j: "json_ok (response_to_json ?r)" by (simp add: response_to_json_def skip_none_def response_ok_def)
  have s: "send_response toy_nostr toy_text 0 ''a1a1'' ''bb'' (response_to_json ?r) = Some ?ev"
    by (simp add: send_response_def KIND_RESPONSE_def)
  have a: "client_answer toy_nostr toy_text ''bb'' ''a1a1'' ''nope'' (Event ?ev) = Some (Inr (JObject []))"
    using client_reads [OF toy_nostr_ok toy_text_ok j _ s, of "''nope''"] by (simp add: answer_json_def)
  have "client_request toy_nostr toy_text ''bb'' ''a1a1'' 0 ''nope'' 7 ''ping'' (JObject []) ?env = Inr (JObject [])"
    by (rule first_attempt [where noise = "[]" and later = "[]" and n = "Event ?ev"]) (simp_all add: wrap_request_def a)
  from client_believes_server_only [OF this] show ?thesis by auto
qed

theorem retries_are_never_answered_witness:
  "\<exists>ev out1 x1 st1. wrap_request toy_nostr toy_text 0 ''aa'' ''a1a1'' ''nope'' 7 ''ping'' (JObject []) = Some ev \<and>
     run_loop toy_transport toy_nostr toy_text ''a1a1'' [(Event ev, sample_rq, 0)] (sample_server 100) = ((x1, out1), st1) \<and>
     client_request toy_nostr toy_text ''aa'' ''a1a1'' 0 ''nope'' 7 ''ping'' (JObject []) (\<lambda>k. (True, [Other])) = Inl NoAnswer"
proof -
  let ?T = toy_transport and ?st = "sample_server 100 :: usize server"
  let ?run = "\<lambda>ev. run_loop ?T toy_nostr toy_text ''a1a1'' [(Event ev, sample_rq, 0)]"
  obtain ev where ev: "wrap_request toy_nostr toy_text 0 ''aa'' ''a1a1'' ''nope'' 7 ''ping'' (JObject []) = Some ev"
    by (simp add: wrap_request_def)
  obtain x1 out1 st1 where r1: "?run ev ?st = ((x1, out1), st1)" by (metis surj_pair)
  obtain x2 out2 st2 where r2: "?run ev st1 = ((x2, out2), st2)" by (metis surj_pair)
  obtain x3 out3 st3 where r3: "?run ev st2 = ((x3, out3), st3)" by (metis surj_pair)
  have t: "request_text_ok toy_text (tr_from_str ?T)" "tr_uuid_ok ?T ''nope''"
    by (simp_all add: toy_transport_def toy_request_text_ok sample_transport_def)
  have l: "length (tx_print toy_text (request_json ''nope'' 7 ''ping'' (JObject []))) \<le> 262144" "json_ok (JObject [])"
    by (simp_all add: toy_print_text request_json_def json_u64_def print_list_def)
  have i: "length ''nope'' \<in> {1..64}" by simp
  let ?env = "\<lambda>k :: nat. (True, [Other])"
  have as: "[] = filter (\<lambda>n. client_answer toy_nostr toy_text ''aa'' ''a1a1'' ''nope'' n \<noteq> None) ([Other] @ [Other] @ [Other])"
    by (simp add: client_answer_def)
  note w = retries_are_never_answered [where ?rq2.0 = sample_rq and ?rq3.0 = sample_rq and env = ?env,
      OF sample_server_ok toy_nostr_ok t(1) l(2) ev l(1) t(2) i sample_request_fresh(2) _ _ r1 r2 r3 refl refl refl as]
  have "client_request toy_nostr toy_text ''aa'' ''a1a1'' 0 ''nope'' 7 ''ping'' (JObject []) ?env = Inl NoAnswer"
    using w by simp
  then show ?thesis using ev r1 by auto
qed


theorem probe_prints_notifications_witness:
  "probe_listen toy_nostr toy_text ''aa'' ''a1a1'' (map Event [the (send_notification toy_nostr toy_text 0 ''a1a1''
       \<lparr>nt_wallet = ''aa'', nt_txid = ''t'', nt_addresses = [], nt_height = 90, nt_id = ''id'', nt_ts = 7\<rparr>)]) =
     [JObject [(''addresses'', JArray []), (''height'', json_u64 90), (''kind'', JString ''new_tx''), (''txid'', JString ''t'')]]"
proof -
  let ?n = "\<lparr>nt_wallet = ''aa'', nt_txid = ''t'', nt_addresses = [], nt_height = 90, nt_id = ''id'', nt_ts = 7\<rparr>"
  let ?ev = "the (send_notification toy_nostr toy_text 0 ''a1a1'' ?n)"
  have w: "\<forall>n \<in> set [?n]. nt_wallet n = ''aa''" by simp
  have l: "list_all2 (\<lambda>n ev. \<exists>rnd. send_notification toy_nostr toy_text rnd ''a1a1'' n = Some ev) [?n] [?ev]"
    by (auto simp: send_notification_def)
  from probe_prints_notifications [OF toy_nostr_ok toy_text_ok w l] show ?thesis
    by (simp add: json_index_def notify_json_def json_u64_def)
qed

theorem answers_go_to_senders_witness:
  "\<exists>ev x w st. run_loop toy_transport toy_nostr toy_text ''a1a1'' [(Event ev, sample_rq, 0)] (sample_server 100) = ((x, [w]), st) \<and>
     (\<exists>g resp. ns_open toy_nostr ''a1a1'' ev = Some g \<and>
        ns_wrap toy_nostr 0 ''a1a1'' (gf_sender g) KIND_RESPONSE (tx_print toy_text (response_to_json resp)) = Some w)"
proof -
  let ?j = "JArray [json_u64 2, JString ''nope'', json_u64 1, JString ''ping'']"
  let ?ev = "(''a1a1'', \<lparr>gf_sender = ''bb'', gf_kind = KIND_REQUEST, gf_content = tx_print toy_text ?j\<rparr>)"
  have "json_ok ?j" by (simp add: json_u64_def)
  then have "toy_from_str (tx_print toy_text ?j) = request_of_json (json_norm ?j)"
    using toy_request_text_ok by (simp only: request_text_ok_def)
  then have "toy_from_str (tx_print toy_text ?j) = Some \<lparr>env_v = 2, env_id = ''nope'', env_ts = 1, msg_type = ''ping'', payload = JNull\<rparr>"
    by (simp add: request_of_json_def request_of_parts_def as_u8_def json_u64_def)
  moreover have "length (tx_print toy_text ?j) \<le> 262144" by (simp add: toy_print_text json_u64_def print_list_def)
  ultimately obtain x w st where
    r: "run_loop toy_transport toy_nostr toy_text ''a1a1'' [(Event ?ev, sample_rq, 0)] (sample_server 100) = ((x, [w]), st)"
    by (simp add: handle_event_def parse_request_def MAX_CONTENT_def PROTOCOL_VERSION_def toy_transport_def toy_nostr_def send_response_def)
  obtain g resp where "ns_open toy_nostr ''a1a1'' ?ev = Some g"
      "ns_wrap toy_nostr 0 ''a1a1'' (gf_sender g) KIND_RESPONSE (tx_print toy_text (response_to_json resp)) = Some w"
    using answers_go_to_senders [OF r, of w] by auto
  with r show ?thesis by blast
qed

end
