(* ===== verification/UnitTests.thy ===== *)
theory UnitTests
  imports ClientProps Restart "HOL-Library.Product_Lexorder"
begin

text \<open>
  The unit tests of the server, translated with their assertions, and proved for every behaviour of the
  libraries that keeps its laws: what the authors check on one run holds of the definitions here. A test is a
  bool; an \<open>unwrap\<close> of a failure makes it false. The random bytes, the JSON coding and the clock of a test
  are its arguments, and every test starts from an empty directory.
\<close>

section \<open>\<open>pairing.rs\<close>\<close>

definition proof_for :: "crypto \<Rightarrow> string \<Rightarrow> string \<Rightarrow> string option" where
  "proof_for K secret_b64 pubkey =
     map_option (\<lambda>sec. hex_encode K (hmac_sha256 K sec (as_bytes pubkey))) (b64url_decode K secret_b64)"

definition happy_path_single_use :: "crypto \<Rightarrow> bytes \<Rightarrow> bytes \<Rightarrow> bytes \<Rightarrow> bool" where
  "happy_path_single_use K rnd rnd2 rnd3 =
     (let (p, pm) = payload_at K rnd 1000 ''nodepk'' [''wss://r''] pm_new;
          (p2, pm) = payload_at K rnd2 1001 ''nodepk'' [''wss://r''] pm
      in pp_v p = 1 \<and> pp_exp p = 1000 + SECRET_TTL_SECS \<and> pp_pair_secret p = pp_pair_secret p2 \<and>
         (case proof_for K (pp_pair_secret p) ''walletpk'' of
            None \<Rightarrow> False
          | Some proof \<Rightarrow>
              (let (ok, pm) = verify_at K 1002 ''walletpk'' proof pm;
                   (again, pm) = verify_at K 1003 ''walletpk'' proof pm;
                   (p3, pm) = payload_at K rnd3 1004 ''nodepk'' [''wss://r''] pm
               in ok \<and> \<not> again \<and> pp_pair_secret p \<noteq> pp_pair_secret p3)))"

definition wrong_proof_and_expiry :: "crypto \<Rightarrow> bytes \<Rightarrow> bool" where
  "wrong_proof_and_expiry K rnd =
     (let (p, pm) = payload_at K rnd 1000 ''nodepk'' [] pm_new;
          zeros = concat (replicate 32 ''00'');
          (ok, pm) = verify_at K 1001 ''walletpk'' zeros pm;
          (late, pm) = verify_at K (1000 + SECRET_TTL_SECS) ''walletpk'' zeros pm
      in \<not> ok \<and> \<not> late)"

definition burns_after_max_attempts :: "crypto \<Rightarrow> bytes \<Rightarrow> bool" where
  "burns_after_max_attempts K rnd =
     (let (p, pm) = payload_at K rnd 1000 ''nodepk'' [] pm_new;
          (oks, pm) = exec (\<lambda>pm now. verify_at K now ''walletpk'' (concat (replicate 32 ''ff'')) pm) pm
                        (replicate (unat MAX_ATTEMPTS) 1001)
      in True \<notin> set oks \<and>
         (case proof_for K (pp_pair_secret p) ''walletpk'' of
            None \<Rightarrow> False
          | Some proof \<Rightarrow> \<not> fst (verify_at K 1002 ''walletpk'' proof pm)))"

text \<open>The two made-up proofs are wrong.\<close>

definition guesses_wrong :: "crypto \<Rightarrow> bytes \<Rightarrow> bool" where
  "guesses_wrong K rnd \<longleftrightarrow>
     (\<forall>guess \<in> {concat (replicate 32 ''00''), concat (replicate 32 ''ff'')}.
        hex_decode K guess \<noteq> Some (hmac_sha256 K rnd (as_bytes ''walletpk'')))"

section \<open>\<open>store.rs\<close>\<close>

definition allowlist_roundtrip :: "string list codec \<Rightarrow> string \<Rightarrow> bool" where
  "allowlist_roundtrip c dir =
     (case al_load c io_fine dir Map.empty of
        Inl e \<Rightarrow> False
      | Inr a \<Rightarrow>
          (let (r, a1, d) = al_add c io_fine ''aa'' a Map.empty;
               (r2, a2, d) = al_add c io_fine ''bb'' a1 d
           in \<not> is_paired a ''aa'' \<and> r = Inr () \<and> r2 = Inr () \<and> is_paired a2 ''aa'' \<and> al_list a2 = [''aa'', ''bb''] \<and>
              (case al_load c io_fine dir d of
                 Inl e \<Rightarrow> False
               | Inr b \<Rightarrow>
                   (let (removed, b1, d) = al_remove c io_fine ''aa'' b d;
                        (again, b2, d) = al_remove c io_fine ''aa'' b1 d
                    in is_paired b ''bb'' \<and> removed = Inr True \<and> \<not> is_paired b1 ''aa'' \<and> again = Inr False))))"

definition watchset_replace_semantics :: "(string, string list) btree_map codec \<Rightarrow> string \<Rightarrow> bool" where
  "watchset_replace_semantics c dir =
     (case ws_load c io_fine dir Map.empty of
        Inl e \<Rightarrow> False
      | Inr w \<Rightarrow>
          (let (r1, w1, d) = ws_replace c io_fine ''pk'' [''addr1'', ''addr2''] w Map.empty;
               (r2, w2, d) = ws_replace c io_fine ''pk'' [''addr3''] w1 d;
               (r3, w3, d) = ws_replace c io_fine ''pk'' [] w2 d
           in r1 = Inr 2 \<and> map_option length (map_of (ws_snapshot w1) ''pk'') = Some 2 \<and>
              r2 = Inr 1 \<and> map_of (ws_snapshot w2) ''pk'' = Some [''addr3''] \<and>
              r3 = Inr 0 \<and> map_of (ws_snapshot w3) ''pk'' = None))"

section \<open>\<open>replay.rs\<close>\<close>

definition detects_replays_and_prunes :: "(string, u64) btree_map codec \<Rightarrow> string \<Rightarrow> bool" where
  "detects_replays_and_prunes c dir =
     (case rc_load c io_fine dir Map.empty of
        Inl e \<Rightarrow> False
      | Inr r \<Rightarrow>
          fst (exec (\<lambda>s (i, now). check_and_insert c io_fine i now (fst s) (snd s)) (r, Map.empty)
            [(''id-a'', 1000000), (''id-a'', 1000001), (''id-b'', 1000002), (''id-a'', 1000000 + RETENTION_SECS + 1)])
            = [True, False, True, True])"

definition persists_across_restarts :: "(string, u64) btree_map codec \<Rightarrow> string \<Rightarrow> bool" where
  "persists_across_restarts c dir =
     (case rc_load c io_fine dir Map.empty of
        Inl e \<Rightarrow> False
      | Inr r \<Rightarrow>
          (let (ok, r1, d) = check_and_insert c io_fine ''id-x'' 1000000 r Map.empty
           in ok \<and>
              (case rc_load c io_fine dir d of
                 Inl e \<Rightarrow> False
               | Inr r2 \<Rightarrow> \<not> fst (check_and_insert c io_fine ''id-x'' 1000001 r2 d))))"

section \<open>\<open>ratelimit.rs\<close>\<close>

definition burst_then_deny_then_refill :: bool where
  "burst_then_deny_then_refill =
     (fst (exec rl_step Map.empty (replicate 10 (''pk'', 1000) @ [(''pk'', 1000)] @ replicate 3 (''pk'', 1003)
        @ [(''pk'', 1003), (''other'', 1003)]))
      = replicate 10 True @ [False] @ replicate 3 True @ [False, True])"

definition caps_at_burst :: bool where
  "caps_at_burst =
     (tl (fst (exec rl_step Map.empty ((''pk'', 1000) # replicate 10 (''pk'', 1000 + 3600) @ [(''pk'', 1000 + 3600)])))
      = replicate 10 True @ [False])"

section \<open>\<open>watcher.rs\<close>\<close>

type_synonym iteration = "(string \<times> u64) list \<Rightarrow> (string \<times> u64) list"

definition first_observation_is_silent :: "iteration \<Rightarrow> bool" where
  "first_observation_is_silent iter = (diff iter None [(''tx1'', 800000), (''tx2'', 0)] = [])"

definition new_and_confirmed_detected :: "iteration \<Rightarrow> bool" where
  "new_and_confirmed_detected iter =
     (sort (diff iter (Some [(''tx1'', 800000), (''tx2'', 0)]) [(''tx1'', 800000), (''tx2'', 800003), (''tx3'', 0)])
      = [(''tx2'', 800003), (''tx3'', 0)])"

definition dropped_and_unchanged_are_silent :: "iteration \<Rightarrow> bool" where
  "dropped_and_unchanged_are_silent iter =
     (diff iter (Some [(''tx1'', 0)]) [] = [] \<and> diff iter (Some [(''tx1'', 0)]) [(''tx1'', 0)] = [])"

section \<open>\<open>identity.rs\<close>\<close>

text \<open>Equal keys have equal public keys; the two keys that could be generated are arguments.\<close>

definition creates_and_reloads_same_identity :: "'k key_lib \<Rightarrow> string \<Rightarrow> 'k \<Rightarrow> 'k \<Rightarrow> bool" where
  "creates_and_reloads_same_identity I dir fresh fresh2 =
     (case load_or_create I id_fine dir fresh (Map.empty, Map.empty) of
        (Inl e, _) \<Rightarrow> False
      | (Inr k1, dd) \<Rightarrow>
          (case load_or_create I id_fine dir fresh2 dd of
             (Inl e, _) \<Rightarrow> False
           | (Inr k2, _, d) \<Rightarrow> k1 = k2 \<and> map_option mode (d (dir, KEY_FILE)) = Some 384))"

section \<open>\<open>electrs.rs\<close>, \<open>config.rs\<close>\<close>

definition fee_conversion :: bool where
  "fee_conversion =
     (btc_kb_to_sat_vb (f64_of_rat (1 / 100000)) = 1 \<and> btc_kb_to_sat_vb (f64_of_rat (1 / 10000)) = 10 \<and>
      btc_kb_to_sat_vb (f64_of_rat 0) = 1)"

definition url_normalization :: bool where
  "url_normalization =
     (el_url (electrs_new ''192.168.1.10:50001'') = ''tcp://192.168.1.10:50001'' \<and>
      el_url (electrs_new ''ssl://x:50002'') = ''ssl://x:50002'')"

definition parses_networks :: bool where
  "parses_networks =
     (network_parse ''mainnet'' = Inr Bitcoin \<and> network_parse ''REGTEST'' = Inr Regtest \<and>
      isl (network_parse ''dogecoin''))"

section \<open>\<open>handlers.rs\<close>\<close>

definition test_addresses :: "string list \<Rightarrow> json" where
  "test_addresses xs = JObject [(''addresses'', JArray (map JString xs))]"

definition rejects_bad_network_and_counts :: "('a, 't) chain_lib \<Rightarrow> bool" where
  "rejects_bad_network_and_counts L =
     (isl (validate_addresses L (test_addresses [''tb1qxy2kgdygjrsqtzq2n0yrf2493p83kkfjhx0wlh'']) Bitcoin 200) \<and>
      (case validate_addresses L (test_addresses (replicate 201 ''bc1qxy2kgdygjrsqtzq2n0yrf2493p83kkfjhx0wlh'')) Bitcoin 200 of
         Inr out \<Rightarrow> False
       | Inl err \<Rightarrow> map_option err_code (resp_error err) = Some InvalidRequest))"

definition accepts_mainnet_p2wpkh :: "('a, 't) chain_lib \<Rightarrow> bool" where
  "accepts_mainnet_p2wpkh L =
     (case validate_addresses L (test_addresses [''bc1qxy2kgdygjrsqtzq2n0yrf2493p83kkfjhx0wlh'']) Bitcoin 200 of
        Inl err \<Rightarrow> False
      | Inr out \<Rightarrow> length out = 1 \<and> length (snd (out ! 0)) = 22)"

text \<open>What the bitcoin crate says of the two addresses.\<close>

definition knows_addresses :: "('a, 't) chain_lib \<Rightarrow> bool" where
  "knows_addresses L \<longleftrightarrow>
     parse_address L Bitcoin ''tb1qxy2kgdygjrsqtzq2n0yrf2493p83kkfjhx0wlh'' = None \<and>
     (\<exists>sc. parse_address L Bitcoin ''bc1qxy2kgdygjrsqtzq2n0yrf2493p83kkfjhx0wlh'' = Some sc \<and> length sc = 22)"


section \<open>\<open>protocol.rs\<close>\<close>

text \<open>
  The texts of the tests are read by \<open>serde_json\<close> and the ids checked by uuid, as everywhere. The test of the
  printed text of responses is about that text only and is left out.
\<close>

definition valid_text :: string where
  \<open>valid_text = ''{"v":1,"id":"7c9e6679-7425-40de-944b-e07fc1f90ae7","ts":1,"type":"ping","payload":{}}''\<close>

definition bad_version_text :: string where
  \<open>bad_version_text = ''{"v":2,"id":"7c9e6679-7425-40de-944b-e07fc1f90ae7","ts":1,"type":"ping","payload":{}}''\<close>

definition bad_id_text :: string where
  \<open>bad_id_text = ''{"v":1,"id":"nope","ts":1,"type":"ping","payload":{}}''\<close>

type_synonym reader = "string \<Rightarrow> request_envelope option"

definition parses_valid_request :: "reader \<Rightarrow> (string \<Rightarrow> bool) \<Rightarrow> bool" where
  "parses_valid_request from_str uuid_ok =
     (case parse_request from_str uuid_ok valid_text of Inl e \<Rightarrow> False | Inr env \<Rightarrow> msg_type env = ''ping'')"

definition rejects_bad_version_with_echoed_id :: "reader \<Rightarrow> (string \<Rightarrow> bool) \<Rightarrow> bool" where
  "rejects_bad_version_with_echoed_id from_str uuid_ok =
     (case parse_request from_str uuid_ok bad_version_text of
        Inl (Some err) \<Rightarrow> map_option err_code (resp_error err) = Some UnsupportedVersion
      | _ \<Rightarrow> False)"

definition drops_unparseable_and_bad_id :: "reader \<Rightarrow> (string \<Rightarrow> bool) \<Rightarrow> bool" where
  "drops_unparseable_and_bad_id from_str uuid_ok =
     (parse_request from_str uuid_ok ''not json'' = Inl None \<and>
      (case parse_request from_str uuid_ok bad_id_text of
         Inl (Some err) \<Rightarrow> map_option err_code (resp_error err) = Some InvalidRequest
       | _ \<Rightarrow> False))"

definition contains :: "string \<Rightarrow> string \<Rightarrow> bool" where
  "contains s p = list_ex (prefix p) (suffixes s)"

definition quoted :: "string \<Rightarrow> string" where
  "quoted s = [CHR 0x22] @ s @ [CHR 0x22]"

definition response_roundtrip_ok_and_err :: "(json \<Rightarrow> string) \<Rightarrow> bool" where
  "response_roundtrip_ok_and_err to_string =
     (let s = to_string (response_to_json (response_ok ''id1'' (JObject [(''watching'', json_u64 3)])));
          t = to_string (response_to_json (response_err ''id1'' NotPaired ''no''))
      in contains s (quoted ''ok'' @ '':true'') \<and> \<not> contains s ''error'' \<and>
         contains t (quoted ''not_paired'') \<and> \<not> contains t ''result'')"

text \<open>
  The compact text of a value: members in the order in which they are written, no spaces, a string in
  quotes when no character of it needs an escape.
\<close>

definition unescaped :: "string \<Rightarrow> bool" where
  "unescaped s = list_all (\<lambda>c. 32 \<le> (of_char c :: nat) \<and> of_char c < (127 :: nat) \<and> c \<noteq> CHR 0x22 \<and> c \<noteq> CHR 0x5C) s"

fun joined :: "string list \<Rightarrow> string" where
  "joined [] = []"
| "joined [x] = x"
| "joined (x # xs) = x @ '','' @ joined xs"

definition prints_compact :: "(json \<Rightarrow> string) \<Rightarrow> bool" where
  "prints_compact P \<longleftrightarrow> P (JBool True) = ''true'' \<and> P (JBool False) = ''false'' \<and>
     (\<forall>n. P (JNumber (PosInt n)) = dec_str (unat n)) \<and> (\<forall>s. unescaped s \<longrightarrow> P (JString s) = quoted s) \<and>
     (\<forall>ms. list_all (\<lambda>p. unescaped (fst p)) ms \<longrightarrow>
        P (JObject ms) = ''{'' @ joined (map (\<lambda>p. quoted (fst p) @ '':'' @ P (snd p)) ms) @ ''}'')"

text \<open>What the texts say, and which id is a UUID.\<close>

definition test_json :: "u64 \<Rightarrow> string \<Rightarrow> json" where
  "test_json v i = JObject [(''v'', json_u64 v), (''id'', JString i), (''ts'', json_u64 1), (''type'', JString ''ping''),
     (''payload'', JObject [])]"

definition test_uuid :: string where
  "test_uuid = ''7c9e6679-7425-40de-944b-e07fc1f90ae7''"

definition reads_texts :: "(string \<Rightarrow> json option) \<Rightarrow> (string \<Rightarrow> bool) \<Rightarrow> bool" where
  "reads_texts parse uuid_ok \<longleftrightarrow>
     parse valid_text = Some (json_norm (test_json 1 test_uuid)) \<and> parse bad_version_text = Some (json_norm (test_json 2 test_uuid)) \<and>
     parse bad_id_text = Some (json_norm (test_json 1 ''nope'')) \<and> parse ''not json'' = None \<and>
     uuid_ok test_uuid \<and> \<not> uuid_ok ''nope''"

section \<open>They pass\<close>

lemma unescaped_samples:
  "unescaped ''v''" "unescaped ''id''" "unescaped ''ok''" "unescaped ''result''" "unescaped ''error''" "unescaped ''code''"
  "unescaped ''message''" "unescaped ''watching''" "unescaped ''id1''" "unescaped ''not_paired''" "unescaped ''no''"
  by (simp_all add: unescaped_def)

lemma roundtrip_texts:
  "contains (''{'' @ joined [quoted ''v'' @ '':1'', quoted ''id'' @ '':'' @ quoted ''id1'', quoted ''ok'' @ '':true'',
     quoted ''result'' @ '':{'' @ joined [quoted ''watching'' @ '':3''] @ ''}''] @ ''}'') (quoted ''ok'' @ '':true'')"
  "\<not> contains (''{'' @ joined [quoted ''v'' @ '':1'', quoted ''id'' @ '':'' @ quoted ''id1'', quoted ''ok'' @ '':true'',
     quoted ''result'' @ '':{'' @ joined [quoted ''watching'' @ '':3''] @ ''}''] @ ''}'') ''error''"
  "contains (''{'' @ joined [quoted ''v'' @ '':1'', quoted ''id'' @ '':'' @ quoted ''id1'', quoted ''ok'' @ '':false'',
     quoted ''error'' @ '':{'' @ joined [quoted ''code'' @ '':'' @ quoted ''not_paired'', quoted ''message'' @ '':'' @ quoted ''no''] @ ''}''] @ ''}'')
     (quoted ''not_paired'')"
  "\<not> contains (''{'' @ joined [quoted ''v'' @ '':1'', quoted ''id'' @ '':'' @ quoted ''id1'', quoted ''ok'' @ '':false'',
     quoted ''error'' @ '':{'' @ joined [quoted ''code'' @ '':'' @ quoted ''not_paired'', quoted ''message'' @ '':'' @ quoted ''no''] @ ''}''] @ ''}'')
     ''result''"
  by code_simp+

lemma roundtrip_test_passes:
  assumes "prints_compact P"
  shows "response_roundtrip_ok_and_err P"
proof -
  have obj: "P (JObject ms) = ''{'' @ joined (map (\<lambda>p. quoted (fst p) @ '':'' @ P (snd p)) ms) @ ''}''"
    if "list_all (\<lambda>p. unescaped (fst p)) ms" for ms using assms that by (simp add: prints_compact_def)
  have str: "P (JString s) = quoted s" if "unescaped s" for s using assms that by (simp add: prints_compact_def)
  have rest: "P (JBool True) = ''true''" "P (JBool False) = ''false''" "P (JNumber (PosInt n)) = dec_str (unat n)" for n
    using assms by (simp_all add: prints_compact_def)
  have digits: "dec_str (Suc 0) = ''1''" "dec_str 3 = ''3''" by code_simp+
  have one: "P (JNumber (PosInt (ucast (1 :: u8)))) = ''1''" "P (json_u64 3) = ''3''"
    using digits by (simp_all add: rest json_u64_def)
  have "P (response_to_json (response_ok ''id1'' (JObject [(''watching'', json_u64 3)]))) =
      ''{'' @ joined [quoted ''v'' @ '':1'', quoted ''id'' @ '':'' @ quoted ''id1'', quoted ''ok'' @ '':true'',
        quoted ''result'' @ '':{'' @ joined [quoted ''watching'' @ '':3''] @ ''}''] @ ''}''"
    by (simp add: response_to_json_def skip_none_def obj str rest one digits unescaped_samples)
  moreover have "P (response_to_json (response_err ''id1'' NotPaired ''no'')) =
      ''{'' @ joined [quoted ''v'' @ '':1'', quoted ''id'' @ '':'' @ quoted ''id1'', quoted ''ok'' @ '':false'',
        quoted ''error'' @ '':{'' @ joined [quoted ''code'' @ '':'' @ quoted ''not_paired'', quoted ''message'' @ '':'' @ quoted ''no''] @ ''}''] @ ''}''"
    by (simp add: response_to_json_def response_err_def PROTOCOL_VERSION_def error_to_json_def skip_none_def obj str rest one
        digits unescaped_samples)
  ultimately show ?thesis by (simp only: response_roundtrip_ok_and_err_def Let_def roundtrip_texts simp_thms)
qed

lemma pairing_tests_pass:
  assumes "crypto_ok K" "rnd3 \<noteq> rnd" "guesses_wrong K rnd"
  shows "happy_path_single_use K rnd rnd2 rnd3" "wrong_proof_and_expiry K rnd"
proof -
  have "b64url_encode K rnd \<noteq> b64url_encode K rnd3" using assms(1,2) by (metis crypto_ok_def option.inject)
  then show "happy_path_single_use K rnd rnd2 rnd3"
    using assms(1)
    by (simp add: happy_path_single_use_def payload_at_def pm_new_def fresh_secret_def secret_live_def show_payload_def
        proof_for_def verify_at_def MAX_ATTEMPTS_def SECRET_TTL_SECS_def Let_def crypto_ok_def)
  show "wrong_proof_and_expiry K rnd"
    using assms(3)
    by (auto simp: wrong_proof_and_expiry_def guesses_wrong_def payload_at_def pm_new_def fresh_secret_def verify_at_def
        MAX_ATTEMPTS_def SECRET_TTL_SECS_def Let_def split: option.splits)
qed

lemma wrong_guess_counts:
  assumes "hex_decode K guess \<noteq> Some (hmac_sha256 K (secret s) (as_bytes w))" "\<not> used s" "now < expires_at s"
    and "unat (attempts s) < 5"
  shows "verify_at K now w guess (Some s) =
    (False, if unat (attempts s) = 4 then None else Some (s\<lparr>attempts := attempts s + 1\<rparr>))"
  using assms unat_next_attempt [OF assms(4)]
  by (auto simp: verify_at_def Let_def max_attempts_nat not_le split: option.splits)

lemma burns_after_max_attempts_passes:
  assumes "crypto_ok K" "guesses_wrong K rnd"
  shows "burns_after_max_attempts K rnd"
proof -
  let ?s = "\<lambda>n. \<lparr>secret = rnd, expires_at = 1600, used = False, attempts = n\<rparr>"
  define f where "f = concat (replicate 32 ''ff'')"
  have g: "verify_at K 1001 ''walletpk'' f (Some (?s n)) = (False, if unat n = 4 then None else Some (?s (n + 1)))"
    if "unat n < 5" for n
    using wrong_guess_counts [of K f "?s n" "''walletpk''" 1001] assms(2) that by (simp add: guesses_wrong_def f_def)
  have five: "replicate 5 x = [x, x, x, x, x]" for x :: "'b" by (simp add: eval_nat_numeral)
  have "exec (\<lambda>pm now. verify_at K now ''walletpk'' f pm) (Some (?s 0)) (replicate 5 1001) = (replicate 5 False, None)"
    unfolding five by (simp add: g)
  moreover have "payload_at K rnd 1000 ''nodepk'' [] pm_new = (show_payload K ''nodepk'' [] (?s 0), Some (?s 0))"
    by (simp add: payload_at_def pm_new_def fresh_secret_def SECRET_TTL_SECS_def Let_def)
  ultimately show ?thesis
    using assms(1)
    by (simp add: burns_after_max_attempts_def MAX_ATTEMPTS_def proof_for_def show_payload_def crypto_ok_def verify_at_def
        flip: f_def)
qed

lemma watcher_tests_pass:
  assumes "iter_ok iter"
  shows "first_observation_is_silent iter" "new_and_confirmed_detected iter" "dropped_and_unchanged_are_silent iter"
proof -
  have nil: "iter m = [] \<longleftrightarrow> m = []" for m using assms by (metis iter_ok_def mset_zero_iff)
  show "first_observation_is_silent iter" by (simp add: first_observation_is_silent_def diff_def)
  have one: "iter [x] = [x]" for x using assms by (metis iter_ok_def mset_single_iff_right mset.simps)
  have none: "iter [] = []" by (simp add: nil)
  show "dropped_and_unchanged_are_silent iter"
    by (simp add: dropped_and_unchanged_are_silent_def diff_def none one is_news_def)
  let ?c = "[(''tx1'', 800000), (''tx2'', 800003), (''tx3'', 0)] :: (string \<times> u64) list"
  let ?k = "is_news [(''tx1'', 800000), (''tx2'', 0)]"
  have "mset (filter ?k (iter ?c)) = mset (filter ?k ?c)" using assms by (simp add: iter_ok_def mset_filter)
  then have "sort (filter ?k (iter ?c)) = sort (filter ?k ?c)"
    by (intro properties_for_sort) simp_all
  then show "new_and_confirmed_detected iter"
    by (simp add: new_and_confirmed_detected_def diff_def is_news_def)
qed

lemma identity_test_passes:
  assumes "key_lib_ok I"
  shows "creates_and_reloads_same_identity I dir fresh fresh2"
  using assms
  by (simp add: creates_and_reloads_same_identity_def load_or_create_def id_fine_def io_fine_def read_to_string_def
      write_secret_def key_lib_ok_def Let_def)

lemma network_test_passes: "parses_networks"
  unfolding parses_networks_def by code_simp

lemma url_test_passes: "url_normalization"
  by (simp add: url_normalization_def electrs_new_def)

lemma address_tests_pass:
  assumes "knows_addresses L"
  shows "rejects_bad_network_and_counts L" "accepts_mainnet_p2wpkh L"
  using assms
  by (auto simp: rejects_bad_network_and_counts_def accepts_mainnet_p2wpkh_def knows_addresses_def test_addresses_def
      validate_addresses_def field_def response_err_def Let_def)


text \<open>The stores: a write that works succeeds, and what it wrote loads.\<close>

lemma fine_works: "io_works io_fine" "io_read io_fine"
  by (simp_all add: io_works_def io_fine_def)

lemma add_works:
  assumes "total_codec bts_ok c" "al_load c io_fine dir d = Inr al"
  obtains d' where "al_add c io_fine k al d = (Inr (), al\<lparr>al_wallets := insort_insert k (al_wallets al)\<rparr>, d')"
    "al_load c io_fine dir d' = Inr (al\<lparr>al_wallets := insort_insert k (al_wallets al)\<rparr>)"
proof -
  let ?al = "al\<lparr>al_wallets := insort_insert k (al_wallets al)\<rparr>"
  have t: "typed_codec bts_ok c" using assms(1) by (simp add: total_codec_def)
  then have "al_ok al" "al_path al = (dir, ALLOWLIST_FILE)" using assms(2) al_load_ok al_load_Inr by blast+
  then have "enc c (al_wallets ?al) \<noteq> None" using assms(1) by (simp add: total_codec_def al_ok_def)
  moreover obtain r d' where w: "write_json_atomic c io_fine (dir, ALLOWLIST_FILE) (al_wallets ?al) d = (r, d')" by fastforce
  ultimately have "r = Inr ()" "load_json c [] io_fine (dir, ALLOWLIST_FILE) d' = Inr (al_wallets ?al)"
    using write_works [OF fine_works(1), of c "al_wallets ?al" "(dir, ALLOWLIST_FILE)" d]
      write_loads [OF t allowlist_path_proper fine_works(2,1) _ w] by auto
  with w \<open>al_path al = _\<close> show thesis by (intro that [of d']) (simp_all add: al_add_def al_load_Inr)
qed

lemma allowlist_roundtrip_passes:
  assumes "total_codec bts_ok c"
  shows "allowlist_roundtrip c dir"
proof -
  let ?al = "\<lambda>ws. \<lparr>al_path = (dir, ALLOWLIST_FILE), al_wallets = ws\<rparr>"
  have l0: "al_load c io_fine dir Map.empty = Inr (?al [])"
    by (simp add: al_load_Inr load_json_def read_to_string_def)
  obtain d1 where a1: "al_add c io_fine ''aa'' (?al []) Map.empty = (Inr (), ?al [''aa''], d1)" "al_load c io_fine dir d1 = Inr (?al [''aa''])"
    using add_works [OF assms l0, of "''aa''"] by (auto simp: insort_insert_key_def)
  obtain d2 where a2: "al_add c io_fine ''bb'' (?al [''aa'']) d1 = (Inr (), ?al [''aa'', ''bb''], d2)"
      "al_load c io_fine dir d2 = Inr (?al [''aa'', ''bb''])"
    using add_works [OF assms a1(2), of "''bb''"] by (auto simp: insort_insert_key_def)
  have "enc c [''bb''] \<noteq> None" using assms by (simp add: total_codec_def bts_ok_def)
  then obtain d3 where "write_json_atomic c io_fine (dir, ALLOWLIST_FILE) [''bb''] d2 = (Inr (), d3)"
    using write_works [OF fine_works(1), of c "[''bb'']" "(dir, ALLOWLIST_FILE)" d2] by (metis prod.collapse)
  then have "al_remove c io_fine ''aa'' (?al [''aa'', ''bb'']) d2 = (Inr True, ?al [''bb''], d3)"
    by (simp add: al_remove_def)
  then show ?thesis by (simp add: allowlist_roundtrip_def l0 a1 a2 is_paired_def al_list_def al_remove_def)
qed

lemma replace_works:
  assumes "total_codec btm_ok c" "ws_ok ws"
  shows "\<exists>d'. ws_replace c io_fine k xs ws d =
    (Inr (length xs), ws\<lparr>ws_sets := if xs = [] then btm_remove k (ws_sets ws) else btm_insert k xs (ws_sets ws)\<rparr>, d')"
proof -
  obtain r ws' d' where r: "ws_replace c io_fine k xs ws d = (r, ws', d')" by (metis prod_cases3)
  let ?m = "if xs = [] then btm_remove k (ws_sets ws) else btm_insert k xs (ws_sets ws)"
  have ws': "ws' = ws\<lparr>ws_sets := ?m\<rparr>" using r by (auto simp: ws_replace_def Let_def split: prod.splits sum.splits)
  then have "btm_ok ?m" using ws_replace_memory [OF assms(2) r] by (simp add: ws_ok_def)
  then have "enc c ?m \<noteq> None" using assms(1) by (simp add: total_codec_def)
  from write_works [OF fine_works(1) this, of "ws_path ws" d]
  have "fst (write_json_atomic c io_fine (ws_path ws) ?m d) = Inr ()" .
  then show ?thesis by (cases "write_json_atomic c io_fine (ws_path ws) ?m d") (simp add: ws_replace_def Let_def)
qed

lemma watchset_replace_passes:
  assumes "total_codec btm_ok c"
  shows "watchset_replace_semantics c dir"
proof -
  let ?ws = "\<lambda>m. \<lparr>ws_path = (dir, WATCHSETS_FILE), ws_sets = m\<rparr>"
  have ok: "ws_ok (?ws [])" "ws_ok (?ws [(''pk'', [''addr1'', ''addr2''])])" "ws_ok (?ws [(''pk'', [''addr3''])])"
    by (simp_all add: ws_ok_def btm_ok_Cons)
  obtain d1 where "ws_replace c io_fine ''pk'' [''addr1'', ''addr2''] (?ws []) Map.empty = (Inr 2, ?ws [(''pk'', [''addr1'', ''addr2''])], d1)"
    using replace_works [OF assms ok(1), of "''pk''" "[''addr1'', ''addr2'']" Map.empty] by auto
  moreover obtain d2 where "ws_replace c io_fine ''pk'' [''addr3''] (?ws [(''pk'', [''addr1'', ''addr2''])]) d1 = (Inr 1, ?ws [(''pk'', [''addr3''])], d2)"
    using replace_works [OF assms ok(2), of "''pk''" "[''addr3'']" d1] by auto
  moreover obtain d3 where "ws_replace c io_fine ''pk'' [] (?ws [(''pk'', [''addr3''])]) d2 = (Inr 0, ?ws [], d3)"
    using replace_works [OF assms ok(3), of "''pk''" "[]" d2] by (auto simp: btm_remove_def)
  ultimately show ?thesis
    by (simp add: watchset_replace_semantics_def ws_load_def load_json_def read_to_string_def ws_snapshot_def)
qed

lemma check_at:
  assumes "rc_ok rc"
  shows "\<exists>rc' d'. check_and_insert c io i now rc d = (live_entry rc i now = None, rc', d') \<and> rc_ok rc' \<and>
    (\<forall>j. map_of (rc_seen rc') j = (if live_entry rc i now = None \<and> j = i then Some now else live_entry rc j now))"
proof -
  obtain b rc' d' where c: "check_and_insert c io i now rc d = (b, rc', d')" by (metis prod_cases3)
  have "b = (live_entry rc i now = None)" using check_result [OF assms] c by (metis fst_conv)
  then show ?thesis using c check_entries [OF assms c] check_keeps_ok [OF assms c] by blast
qed

lemma replay_test_passes: "detects_replays_and_prunes c dir"
proof -
  let ?rc = "\<lparr>rc_path = (dir, SEEN_FILE), rc_seen = []\<rparr>"
  have r0: "rc_ok ?rc" "\<And>i now. live_entry ?rc i now = None" by (simp_all add: rc_ok_def live_entry_def)
  obtain r1 d1 where 1: "check_and_insert c io_fine ''id-a'' 1000000 ?rc Map.empty = (True, r1, d1)" "rc_ok r1"
      "\<forall>j. map_of (rc_seen r1) j = (if j = ''id-a'' then Some 1000000 else None)"
    using check_at [OF r0(1), of c io_fine "''id-a''" 1000000 Map.empty] unfolding r0(2) by auto
  have l1: "live_entry r1 ''id-a'' 1000001 = Some 1000000" "j \<noteq> ''id-a'' \<Longrightarrow> live_entry r1 j now = None" for j now
    by (simp_all add: live_entry_def 1(3) live_at_nat)
  obtain r2 d2 where 2: "check_and_insert c io_fine ''id-a'' 1000001 r1 d1 = (False, r2, d2)" "rc_ok r2"
      "\<forall>j. map_of (rc_seen r2) j = live_entry r1 j 1000001"
    using check_at [OF 1(2), of c io_fine "''id-a''" 1000001 d1] by (auto simp: l1(1))
  have l2: "live_entry r2 ''id-a'' 1000002 = Some 1000000" "live_entry r2 ''id-b'' 1000002 = None"
    by (simp_all add: live_entry_def [of r2] 2(3) l1 live_at_nat)
  obtain r3 d3 where 3: "check_and_insert c io_fine ''id-b'' 1000002 r2 d2 = (True, r3, d3)" "rc_ok r3"
      "map_of (rc_seen r3) ''id-a'' = Some 1000000"
    using check_at [OF 2(2), of c io_fine "''id-b''" 1000002 d2] by (auto simp: l2)
  obtain r4 d4 where 4: "check_and_insert c io_fine ''id-a'' 1864001 r3 d3 = (True, r4, d4)"
    using check_at [OF 3(2), of c io_fine "''id-a''" 1864001 d3] by (auto simp: live_entry_def live_at_nat 3(3))
  with 1(1) 2(1) 3(1) show ?thesis
    by (simp add: detects_replays_and_prunes_def rc_load_def load_json_def read_to_string_def RETENTION_SECS_def)
qed

lemma restart_test_passes:
  assumes "total_codec btm_ok c"
  shows "persists_across_restarts c dir"
proof -
  let ?rc = "\<lambda>m. \<lparr>rc_path = (dir, SEEN_FILE), rc_seen = m\<rparr>" and ?m = "[(''id-x'', 1000000)] :: (string, u64) btree_map"
  have t: "typed_codec btm_ok c" using assms by (simp add: total_codec_def)
  have "btm_ok ?m" by (simp add: btm_ok_Cons)
  then obtain s where e: "enc c ?m = Some s" using assms by (auto simp: total_codec_def)
  have w: "fst (persist_best_effort c io_fine (dir, SEEN_FILE) ?m Map.empty)"
    using e by (simp add: persist_best_effort_def io_fine_def Let_def)
  obtain d where c: "check_and_insert c io_fine ''id-x'' 1000000 (?rc []) Map.empty = (True, ?rc ?m, d)"
      "d = snd (persist_best_effort c io_fine (dir, SEEN_FILE) ?m Map.empty)"
    by (simp add: check_and_insert_def btm_retain_def Let_def)
  have "usable_store c (dir, SEEN_FILE)" using t by (simp add: usable_store_def typed_codec_def seen_path_proper)
  from best_effort_file.save_ok [OF this fine_works(2) w] have "rc_load c io_fine dir d = Inr (?rc ?m)"
    by (simp add: c(2) rc_load_def)
  moreover have "\<not> fst (check_and_insert c io_fine ''id-x'' 1000001 (?rc ?m) d)"
    using check_result [of "?rc ?m"] by (simp add: rc_ok_def btm_ok_Cons live_entry_def live_at_nat)
  ultimately show ?thesis
    using c(1) by (simp add: persists_across_restarts_def rc_load_def [of _ _ _ Map.empty] load_json_def read_to_string_def)
qed

text \<open>The limiter, by its number of tokens.\<close>

definition holds :: "rate_limiter \<Rightarrow> string \<Rightarrow> u64 \<Rightarrow> nat \<Rightarrow> bool" where
  "holds rl k t n \<longleftrightarrow> n \<le> 10 \<and> rl k = Some \<lparr>tokens = Fin (of_nat n), last_refill = t\<rparr>"

lemma allow_holds:
  assumes "holds rl k t n"
  shows "fst (rl_step rl (k, now)) = (0 < min (n + (unat now - unat t)) 10)"
    "holds (snd (rl_step rl (k, now))) k now (min (n + (unat now - unat t)) 10 - 1)"
proof -
  have r: "refilled \<lparr>tokens = Fin (of_nat n), last_refill = t\<rparr> now = min (n + (unat now - unat t)) 10"
    by (simp add: refilled_def age_def)
  show "fst (rl_step rl (k, now)) = (0 < min (n + (unat now - unat t)) 10)"
    "holds (snd (rl_step rl (k, now))) k now (min (n + (unat now - unat t)) 10 - 1)"
    using assms by (simp_all add: holds_def rl_step_def allow_step bucket_for_def bucket_step_level r)
qed

lemma allow_first: "rl k = None \<Longrightarrow> fst (rl_step rl (k, now)) \<and> holds (snd (rl_step rl (k, now))) k now 9"
  using bucket_step_level [OF new_bucket_ok, of now now]
  by (simp add: rl_step_def allow_step bucket_for_def holds_def refilled_def age_def new_bucket_def level_def BURST_def)

text \<open>The answers to one sender, computed with whole tokens.\<close>

fun token_answers :: "nat \<Rightarrow> nat \<Rightarrow> u64 list \<Rightarrow> bool list" where
  "token_answers t n [] = []"
| "token_answers t n (now # ts) =
     (let m = min (n + (unat now - t)) 10 in (0 < m) # token_answers (unat now) (m - 1) ts)"

lemma token_answers_of:
  "holds rl k t n \<Longrightarrow> fst (exec rl_step rl (map (Pair k) ts)) = token_answers (unat t) n ts \<and>
     (\<forall>j. j \<noteq> k \<longrightarrow> snd (exec rl_step rl (map (Pair k) ts)) j = rl j)"
proof (induction ts arbitrary: rl t n)
  case (Cons now ts)
  have "\<forall>j. j \<noteq> k \<longrightarrow> snd (rl_step rl (k, now)) j = rl j" by (simp add: rl_step_def allow_step)
  then show ?case
    using Cons.IH [OF allow_holds(2) [OF Cons.prems, of now]] allow_holds(1) [OF Cons.prems, of now]
    by (simp add: exec_Cons Let_def del: exec.simps(2))
qed simp

lemma limiter_run:
  assumes "es = map (Pair k) (now # ts)"
  shows "fst (exec rl_step Map.empty es) = True # token_answers (unat now) 9 ts \<and>
    (\<forall>j. j \<noteq> k \<longrightarrow> snd (exec rl_step Map.empty es) j = None)"
proof -
  have f: "fst (rl_step Map.empty (k, now))" "holds (snd (rl_step Map.empty (k, now))) k now 9"
    using allow_first [of Map.empty k now] by simp_all
  moreover have "\<forall>j. j \<noteq> k \<longrightarrow> snd (rl_step Map.empty (k, now)) j = None" by (simp add: rl_step_def allow_step)
  ultimately show ?thesis
    using token_answers_of [OF f(2), of ts] by (simp add: assms exec_Cons del: exec.simps(2))
qed

lemma limiter_tests_pass: "burst_then_deny_then_refill" "caps_at_burst"
proof -
  have reps: "replicate 3 x = [x, x, x]" "replicate 9 x = [x, x, x, x, x, x, x, x, x]"
    "replicate 10 x = [x, x, x, x, x, x, x, x, x, x]" for x :: "'b"
    by (simp_all add: eval_nat_numeral)
  let ?early = "replicate 9 1000 @ [1000] @ replicate 3 1003 @ [1003] :: u64 list"
  have e: "replicate 10 (''pk'', 1000) @ [(''pk'', 1000)] @ replicate 3 (''pk'', 1003) @ [(''pk'', 1003), (''other'', 1003)]
      = map (Pair ''pk'') (1000 # ?early) @ [(''other'', 1003 :: u64)]"
    by (simp add: reps)
  note r = limiter_run [of "map (Pair ''pk'') (1000 # ?early)" "''pk''" 1000 ?early, OF refl]
  have "token_answers (unat (1000 :: u64)) 9 ?early = replicate 9 True @ [False] @ replicate 3 True @ [False]"
    unfolding reps by simp
  with r have "fst (exec rl_step Map.empty (map (Pair ''pk'') (1000 # ?early))) =
      replicate 10 True @ [False] @ replicate 3 True @ [False]" unfolding reps by simp
  moreover have "fst (rl_step (snd (exec rl_step Map.empty (map (Pair ''pk'') (1000 # ?early)))) (''other'', 1003))"
    using allow_first [of "snd (exec rl_step Map.empty (map (Pair ''pk'') (1000 # ?early)))" "''other''" 1003] r by simp
  ultimately show "burst_then_deny_then_refill"
    unfolding burst_then_deny_then_refill_def e exec_append by (simp only: exec_Cons exec.simps(1) fst_conv) simp
  let ?late = "replicate 10 (1000 + 3600) @ [1000 + 3600] :: u64 list"
  have "token_answers (unat (1000 :: u64)) 9 ?late = replicate 10 True @ [False]" unfolding reps by simp
  moreover have "(''pk'', 1000) # replicate 10 (''pk'', 1000 + 3600) @ [(''pk'', 1000 + 3600)] = map (Pair ''pk'') (1000 # ?late)"
    by (simp add: reps)
  ultimately show "caps_at_burst"
    using limiter_run [of "map (Pair ''pk'') (1000 # ?late)" "''pk''" 1000 ?late, OF refl]
    unfolding caps_at_burst_def by (simp only: list.sel)
qed

lemma fee_test_passes: "fee_conversion"
  using fee_of_decimal [OF decimals(1,2)] fee_of_decimal [OF decimals(3,4)] fee_of_decimal [of 0 0 0]
  by (simp add: fee_conversion_def word_uint_eq_iff)

lemma test_request_read:
  "request_of_json (json_norm (test_json v i)) =
     (if unat v < 256 then Some \<lparr>env_v = ucast v, env_id = i, env_ts = 1, msg_type = ''ping'', payload = JObject []\<rparr> else None)"
  by (simp add: test_json_def request_of_json_def request_of_parts_def as_u8_def json_index_def json_u64_def)

lemma parse_tests_pass:
  assumes "reads_texts parse uuid_ok" "from_str = (\<lambda>s. Option.bind (parse s) request_of_json)"
  shows "parses_valid_request from_str uuid_ok" "rejects_bad_version_with_echoed_id from_str uuid_ok"
    "drops_unparseable_and_bad_id from_str uuid_ok"
proof -
  have l: "length valid_text \<le> MAX_CONTENT" "length bad_version_text \<le> MAX_CONTENT" "length bad_id_text \<le> MAX_CONTENT"
      "length ''not json'' \<le> MAX_CONTENT" "test_uuid \<noteq> []" "length test_uuid \<le> 64"
    by (simp_all add: valid_text_def bad_version_text_def bad_id_text_def MAX_CONTENT_def test_uuid_def)
  show "parses_valid_request from_str uuid_ok" "rejects_bad_version_with_echoed_id from_str uuid_ok"
    "drops_unparseable_and_bad_id from_str uuid_ok"
    using assms l
    by (simp_all add: parses_valid_request_def rejects_bad_version_with_echoed_id_def drops_unparseable_and_bad_id_def
        parse_request_def reads_texts_def test_request_read PROTOCOL_VERSION_def response_err_def not_less [symmetric])
qed

section \<open>Properties\<close>

text \<open>
  C39. The unit tests of the components pass on their models, for every HMAC and coding library, every JSON
  coding of the stores and every iteration order that keep their laws: pairing, stores, replay cache, rate
  limiter, watcher, identity, requests and responses, address validation, fee conversion, URL and network names.
\<close>

theorem component_tests_pass:
  assumes "crypto_ok K" "rnd3 \<noteq> rnd" "guesses_wrong K rnd"
    and "total_codec bts_ok ca" "total_codec btm_ok cw" "total_codec btm_ok cr"
    and "iter_ok iter" "key_lib_ok I" "reads_texts parse uuid_ok" "knows_addresses L" "prints_compact P"
  shows "happy_path_single_use K rnd rnd2 rnd3 \<and> wrong_proof_and_expiry K rnd \<and> burns_after_max_attempts K rnd \<and>
    allowlist_roundtrip ca dir \<and> watchset_replace_semantics cw dir \<and>
    detects_replays_and_prunes cr dir \<and> persists_across_restarts cr dir \<and>
    burst_then_deny_then_refill \<and> caps_at_burst \<and>
    first_observation_is_silent iter \<and> new_and_confirmed_detected iter \<and> dropped_and_unchanged_are_silent iter \<and>
    creates_and_reloads_same_identity I dir fresh fresh2 \<and> fee_conversion \<and> url_normalization \<and> parses_networks \<and>
    rejects_bad_network_and_counts L \<and> accepts_mainnet_p2wpkh L \<and> response_roundtrip_ok_and_err P \<and>
    (let from_str = (\<lambda>s. Option.bind (parse s) request_of_json)
     in parses_valid_request from_str uuid_ok \<and> rejects_bad_version_with_echoed_id from_str uuid_ok \<and>
        drops_unparseable_and_bad_id from_str uuid_ok)"
  using pairing_tests_pass [OF assms(1-3)] burns_after_max_attempts_passes [OF assms(1,3)]
    allowlist_roundtrip_passes [OF assms(4)] watchset_replace_passes [OF assms(5)] replay_test_passes
    restart_test_passes [OF assms(6)] limiter_tests_pass watcher_tests_pass [OF assms(7)] identity_test_passes [OF assms(8)]
    fee_test_passes url_test_passes network_test_passes address_tests_pass [OF assms(10)] parse_tests_pass [OF assms(9) refl]
    roundtrip_test_passes [OF assms(11)]
  unfolding Let_def by blast

section \<open>Witnesses\<close>

definition times_json :: "(string, u64) btree_map \<Rightarrow> json" where
  "times_json m = JObject (map (map_prod id json_u64) m)"

definition times_of_json :: "json \<Rightarrow> (string, u64) btree_map option" where
  "times_of_json j =
     (case j of JObject ms \<Rightarrow> Some (List.map_filter (\<lambda>p. map_option (Pair (fst p)) (as_u64 (snd p))) ms) | _ \<Rightarrow> None)"

lemma times_of_times [simp]: "times_of_json (times_json m) = Some m"
proof -
  have "List.map_filter (\<lambda>p. map_option (Pair (fst p)) (as_u64 (snd p))) (map (map_prod id json_u64) m) = m"
    by (induction m) (auto simp: List.map_filter_simps)
  then show ?thesis by (simp add: times_of_json_def times_json_def)
qed

definition test_parse :: "string \<Rightarrow> json option" where
  "test_parse s =
     (if s = valid_text then Some (json_norm (test_json 1 test_uuid))
      else if s = bad_version_text then Some (json_norm (test_json 2 test_uuid))
      else if s = bad_id_text then Some (json_norm (test_json 1 ''nope'')) else None)"

primrec compact_text :: "json \<Rightarrow> string" where
  "compact_text JNull = ''null''"
| "compact_text (JBool b) = (if b then ''true'' else ''false'')"
| "compact_text (JNumber n) = (case n of PosInt m \<Rightarrow> dec_str (unat m) | _ \<Rightarrow> ''-'')"
| "compact_text (JString s) = quoted s"
| "compact_text (JArray xs) = ''['' @ joined (map compact_text xs) @ '']''"
| "compact_text (JObject ms) =
     ''{'' @ joined (map (\<lambda>p. quoted (fst p) @ '':'' @ snd p) (map (map_prod id compact_text) ms)) @ ''}''"

lemma compact_text_prints: "prints_compact compact_text"
  by (simp add: prints_compact_def o_def)

definition test_lib :: "(string, unit) chain_lib" where
  "test_lib = sample_lib\<lparr>addr_from_str := Some, require_network := (\<lambda>n a. if hd a = CHR ''b'' then Some a else None),
     script_pubkey := (\<lambda>a. replicate 22 0)\<rparr>"

lemma test_libs_ok:
  "guesses_wrong toy_crypto [7]" "total_codec bts_ok (lb_al_codec writable_libs)" "total_codec btm_ok (lb_ws_codec writable_libs)"
  "total_codec btm_ok (toy_codec times_json times_of_json btm_ok)" "reads_texts test_parse (\<lambda>i. i = test_uuid)"
  "knows_addresses test_lib"
proof -
  have "hex_decode toy_crypto (concat (replicate 32 [c, c])) \<noteq> Some (hmac_sha256 toy_crypto [7] (as_bytes ''walletpk''))" for c
  proof
    assume "hex_decode toy_crypto (concat (replicate 32 [c, c])) = Some (hmac_sha256 toy_crypto [7] (as_bytes ''walletpk''))"
    from arg_cong [OF this, of "map_option length"] show False
      by (simp add: toy_crypto_def as_bytes_def length_concat sum_list_replicate)
  qed
  from this [of "CHR ''0''"] this [of "CHR ''f''"] show "guesses_wrong toy_crypto [7]" by (simp only: guesses_wrong_def ball_simps simp_thms)
  show "total_codec bts_ok (lb_al_codec writable_libs)" "total_codec btm_ok (lb_ws_codec writable_libs)"
    using writable_libs_codecs(2) by (simp_all add: writable_def)
  show "total_codec btm_ok (toy_codec times_json times_of_json btm_ok)"
    unfolding total_codec_def using toy_codec_typed [of times_of_json times_json btm_ok, OF times_of_times]
      toy_codec_total [of btm_ok _ times_json times_of_json] by blast
  show "reads_texts test_parse (\<lambda>i. i = test_uuid)"
    by (simp add: reads_texts_def test_parse_def valid_text_def bad_version_text_def bad_id_text_def test_uuid_def)
  show "knows_addresses test_lib"
    by (simp add: knows_addresses_def test_lib_def sample_lib_def parse_address_def)
qed

theorem component_tests_pass_witness:
  "burns_after_max_attempts toy_crypto [7] \<and> persists_across_restarts (toy_codec times_json times_of_json btm_ok) ''/data'' \<and>
     new_and_confirmed_detected id \<and> response_roundtrip_ok_and_err compact_text"
proof -
  have i: "iter_ok id" "[8] \<noteq> ([7] :: bytes)" by (simp_all add: iter_ok_def)
  from component_tests_pass [OF toy_crypto_ok i(2) test_libs_ok(1-4) i(1) sample_keys_ok test_libs_ok(5,6) compact_text_prints]
  show ?thesis by blast
qed

end
