(* ===== verification/TransportTests.thy ===== *)
theory TransportTests
  imports UnitTests
begin

text \<open>
  The unit tests of \<open>transport.rs\<close>, translated like those of the other components in \<open>UnitTests\<close>: they run
  \<open>route\<close> on the stores of an empty directory, without relays.
\<close>

section \<open>The tests\<close>

text \<open>
  The tests of the transport run it on the stores of an empty directory, without relays; all their requests
  are routed in the same second.
\<close>

definition test_setup :: "('a, 't, 's) transport \<Rightarrow> string \<Rightarrow> 's \<Rightarrow> 's server option" where
  "test_setup T dir b =
     (case al_load (tr_al_codec T) io_fine dir Map.empty of
        Inl e \<Rightarrow> None
      | Inr al \<Rightarrow>
          (case ws_load (hd_codec (tr_handlers T)) io_fine dir Map.empty of
             Inl e \<Rightarrow> None
           | Inr ws \<Rightarrow>
               (case rc_load (tr_rc_codec T) io_fine dir Map.empty of
                  Inl e \<Rightarrow> None
                | Inr rc \<Rightarrow>
                    Some (server_new al ws pm_new rc Map.empty b))))"

definition envelope :: "string \<Rightarrow> string \<Rightarrow> json \<Rightarrow> request_envelope" where
  "envelope i t p = \<lparr>env_v = 1, env_id = i, env_ts = 1, msg_type = t, payload = p\<rparr>"

definition make_proof :: "('a, 't, 's) transport \<Rightarrow> bytes \<Rightarrow> u64 \<Rightarrow> string \<Rightarrow> 's server \<Rightarrow> string option \<times> 's server" where
  "make_proof T rnd now wallet st =
     (case payload_at (tr_crypto T) rnd now ''nodepk'' [] (sv_pairing st) of
        (p, pm) \<Rightarrow> (proof_for (tr_crypto T) (pp_pair_secret p) wallet, st\<lparr>sv_pairing := pm\<rparr>))"

definition test_rq :: "u64 \<Rightarrow> req_env" where
  "test_rq now = \<lparr>rq_now = now, rq_io_replay = io_fine, rq_io_allowlist = io_fine, rq_io_watch = io_fine\<rparr>"

text \<open>\<open>r.unwrap().error.unwrap().code\<close> and \<open>r.unwrap().ok\<close>.\<close>

definition refusal :: "response_envelope option run \<Rightarrow> error_code option" where
  "refusal r = (case r of Ret (Some x) \<Rightarrow> map_option err_code (resp_error x) | _ \<Rightarrow> None)"

definition granted :: "response_envelope option run \<Rightarrow> bool" where
  "granted r = (case r of Ret (Some x) \<Rightarrow> resp_ok x | _ \<Rightarrow> False)"

definition pair_then_ping_then_unpair ::
    "('a, 't, 's) transport \<Rightarrow> string \<Rightarrow> 's \<Rightarrow> (nat \<Rightarrow> string) \<Rightarrow> u64 \<Rightarrow> bytes \<Rightarrow> string \<Rightarrow> bool" where
  "pair_then_ping_then_unpair T dir b uuid now rnd wallet =
     (case test_setup T dir b of
        None \<Rightarrow> False
      | Some st \<Rightarrow>
          (let (r1, st1) = route T (test_rq now) wallet (envelope (uuid 1) ''bogus'' (JObject [])) st;
               (proof, st1) = make_proof T rnd now wallet st1
           in case proof of
                None \<Rightarrow> False
              | Some proof \<Rightarrow>
                  (let (r2, st2) = route T (test_rq now) wallet (envelope (uuid 2) ''pair'' (JObject [(''proof'', JString proof)])) st1;
                       (r3, st3) = route T (test_rq now) wallet (envelope (uuid 3) ''get_balance'' (JObject [(''addresses'', JArray [])])) st2;
                       (r4, st4) = route T (test_rq now) wallet (envelope (uuid 4) ''bogus'' (JObject [])) st3;
                       (r5, st5) = route T (test_rq now) wallet (envelope (uuid 4) ''bogus'' (JObject [])) st4;
                       (r6, st6) = route T (test_rq now) wallet (envelope (uuid 5) ''unpair'' (JObject [])) st5;
                       (r7, st7) = route T (test_rq now) wallet (envelope (uuid 6) ''unpair'' (JObject [])) st6
                   in refusal r1 = Some NotPaired \<and> granted r2 \<and> is_paired (sv_allowlist st2) wallet \<and>
                      refusal r3 = Some InvalidRequest \<and> refusal r4 = Some UnknownType \<and> r5 = Ret None \<and>
                      granted r6 \<and> refusal r7 = Some NotPaired)))"

definition pair_rejects_bad_proof_and_second_pairing ::
    "('a, 't, 's) transport \<Rightarrow> string \<Rightarrow> 's \<Rightarrow> (nat \<Rightarrow> string) \<Rightarrow> u64 \<Rightarrow> bytes \<Rightarrow> string \<Rightarrow> bool" where
  "pair_rejects_bad_proof_and_second_pairing T dir b uuid now rnd wallet =
     (case test_setup T dir b of
        None \<Rightarrow> False
      | Some st \<Rightarrow>
          (let (r1, st1) = route T (test_rq now) wallet (envelope (uuid 1) ''pair'' (JObject [(''proof'', JString ''00'')])) st;
               (proof, st2) = make_proof T rnd now wallet st1
           in case proof of
                None \<Rightarrow> False
              | Some proof \<Rightarrow>
                  (let (r2, st3) = route T (test_rq now) wallet (envelope (uuid 2) ''pair'' (JObject [(''proof'', JString proof)])) st2;
                       (r3, st4) = route T (test_rq now) wallet (envelope (uuid 3) ''pair'' (JObject [(''proof'', JString ''00'')])) st3
                   in refusal r1 = Some PairingFailed \<and> \<not> is_paired (sv_allowlist st1) wallet \<and>
                      granted r2 \<and> refusal r3 = Some PairingFailed)))"

text \<open>The response goes through a gift wrap and back; \<open>rnd\<close> is the random choice of the wrapping.\<close>

definition gift_wrap_roundtrip_offline :: "'ev nostr \<Rightarrow> text_lib \<Rightarrow> nat \<Rightarrow> string \<Rightarrow> string \<Rightarrow> string \<Rightarrow> bool" where
  "gift_wrap_roundtrip_offline N X rnd server wallet i =
     (let resp = response_ok i (JObject [(''server'', JString SERVER_VERSION)])
      in case ns_wrap N rnd server wallet KIND_RESPONSE (tx_print X (response_to_json resp)) of
           None \<Rightarrow> False
         | Some wrap \<Rightarrow>
             (case ns_open N wallet wrap of
                None \<Rightarrow> False
              | Some gift \<Rightarrow>
                  gf_sender gift = server \<and> gf_kind gift = KIND_RESPONSE \<and>
                  (case Option.bind (tx_parse X (gf_content gift)) response_of_json of
                     None \<Rightarrow> False
                   | Some parsed \<Rightarrow> resp_ok parsed)))"

section \<open>They pass\<close>

text \<open>Where a test stands: the ids it used, and the tokens its wallet has left.\<close>

definition on_trial :: "u64 \<Rightarrow> string \<Rightarrow> string set \<Rightarrow> nat \<Rightarrow> 's server \<Rightarrow> bool" where
  "on_trial now w ids n st \<longleftrightarrow> server_ok st \<and>
     (\<forall>j. map_of (rc_seen (sv_replay st)) j = (if j \<in> ids then Some now else None)) \<and>
     ((sv_ratelimit st w = None \<and> n = 10) \<or> holds (sv_ratelimit st) w now n)"

lemma on_trial_ok: "on_trial now w ids n st \<Longrightarrow> server_ok st"
  by (simp add: on_trial_def)

lemma on_trial_cong:
  "on_trial now w ids n st \<Longrightarrow> server_ok st' \<Longrightarrow> sv_replay st' = sv_replay st \<Longrightarrow> sv_ratelimit st' = sv_ratelimit st \<Longrightarrow>
     on_trial now w ids n st'"
  by (simp add: on_trial_def)

lemma trial_live: "on_trial now w ids n st \<Longrightarrow> live_entry (sv_replay st) j now = (if j \<in> ids then Some now else None)"
  by (simp add: on_trial_def live_entry_def live_at_nat)

lemma trial_admits:
  assumes "on_trial now w ids n st" "env_id env \<notin> ids" "0 < n"
  obtains st1 where "admitted T (test_rq now) w env st = Some st1" "on_trial now w (insert (env_id env) ids) (n - 1) st1"
    "sv_allowlist st1 = sv_allowlist st" "sv_watch st1 = sv_watch st" "sv_pairing st1 = sv_pairing st"
proof -
  have ok: "server_ok st" "rc_ok (sv_replay st)" "rl_ok (sv_ratelimit st)" using assms(1) by (simp_all add: on_trial_def server_ok_def)
  obtain b rc d where c: "check_and_insert (tr_rc_codec T) (rq_io_replay (test_rq now)) (env_id env) now (sv_replay st) (sv_fs st) = (b, rc, d)"
    by (metis prod_cases3)
  have "b = (live_entry (sv_replay st) (env_id env) now = None)" using check_result [OF ok(2)] c by (metis fst_conv)
  then have b: "b" using trial_live [OF assms(1)] assms(2) by simp
  obtain r rl where a: "allow w now (sv_ratelimit st) = (r, rl)" by fastforce
  then have s: "rl_step (sv_ratelimit st) (w, now) = (r, rl)" by (simp add: rl_step_def)
  have "r \<and> holds rl w now (n - 1)"
    using assms(1) unfolding on_trial_def
  proof (elim conjE disjE)
    assume h: "holds (sv_ratelimit st) w now n"
    show ?thesis using allow_holds [OF h, of now] h s assms(3) by (simp add: holds_def)
  qed (use allow_first [of "sv_ratelimit st" w now] s in simp)
  moreover have "\<forall>j. map_of (rc_seen rc) j = (if j \<in> insert (env_id env) ids then Some now else None)"
    using check_entries [OF ok(2) c] b trial_live [OF assms(1)] by simp
  moreover have "rc_ok rc" "rl_ok rl" using check_keeps_ok [OF ok(2) c] allow_keeps_ok [OF ok(3) a] by simp_all
  ultimately show thesis
    using ok(1) b a c
    by (intro that [of "st\<lparr>sv_replay := rc, sv_fs := d, sv_ratelimit := rl\<rparr>"])
      (simp_all add: admitted_def test_rq_def on_trial_def server_ok_def)
qed

lemma trial_replay:
  assumes "on_trial now w ids n st" "env_id env \<in> ids"
  obtains st1 where "route T (test_rq now) w env st = (Ret None, st1)" "on_trial now w ids n st1" "sv_allowlist st1 = sv_allowlist st"
    "sv_watch st1 = sv_watch st" "sv_pairing st1 = sv_pairing st"
proof -
  have ok: "server_ok st" "rc_ok (sv_replay st)" using assms(1) by (simp_all add: on_trial_def server_ok_def)
  obtain b rc d where c: "check_and_insert (tr_rc_codec T) (rq_io_replay (test_rq now)) (env_id env) now (sv_replay st) (sv_fs st) = (b, rc, d)"
    by (metis prod_cases3)
  have "b = (live_entry (sv_replay st) (env_id env) now = None)" using check_result [OF ok(2)] c by (metis fst_conv)
  then have b: "\<not> b" using trial_live [OF assms(1)] assms(2) by simp
  have "\<forall>j. map_of (rc_seen rc) j = (if j \<in> ids then Some now else None)"
    using check_entries [OF ok(2) c] b trial_live [OF assms(1)] by simp
  moreover have "rc_ok rc" using check_keeps_ok [OF ok(2) c] by simp
  ultimately show thesis
    using assms(1) ok(1) b c
    by (intro that [of "st\<lparr>sv_replay := rc, sv_fs := d\<rparr>"])
      (simp_all add: route_def test_rq_def on_trial_def server_ok_def)
qed

text \<open>One request of a test: what \<open>dispatch\<close> makes of it is what happens.\<close>

lemma trial_step:
  assumes "on_trial now w ids n st" "env_id env \<notin> ids" "0 < n"
    and "\<And>st1. on_trial now w (insert (env_id env) ids) (n - 1) st1 \<Longrightarrow> sv_allowlist st1 = sv_allowlist st \<Longrightarrow>
      sv_watch st1 = sv_watch st \<Longrightarrow> sv_pairing st1 = sv_pairing st \<Longrightarrow>
      \<exists>st2. dispatch T (test_rq now) w env st1 = (Ret x, st2) \<and> Q st2"
  obtains st2 where "route T (test_rq now) w env st = (Ret (Some x), st2)" "on_trial now w (insert (env_id env) ids) (n - 1) st2" "Q st2"
proof -
  obtain st1 where s: "admitted T (test_rq now) w env st = Some st1" "on_trial now w (insert (env_id env) ids) (n - 1) st1"
      "sv_allowlist st1 = sv_allowlist st" "sv_watch st1 = sv_watch st" "sv_pairing st1 = sv_pairing st"
    by (rule trial_admits [OF assms(1-3)])
  obtain st2 where d: "dispatch T (test_rq now) w env st1 = (Ret x, st2)" "Q st2" using assms(4) [OF s(2-5)] by blast
  have "local_to w st1 st2" by (rule dispatch_local [OF on_trial_ok [OF s(2)] d(1)])
  then have "on_trial now w (insert (env_id env) ids) (n - 1) st2"
    using on_trial_cong [OF s(2), of st2] on_trial_ok [OF s(2)] by (simp add: local_to_def)
  with d show thesis by (intro that) (simp_all add: route_dispatches [OF s(1)])
qed

lemma add_result:
  assumes "total_codec bts_ok c" "al_ok al"
  shows "\<exists>d'. al_add c io_fine k al d = (Inr (), al\<lparr>al_wallets := insort_insert k (al_wallets al)\<rparr>, d')"
proof -
  have "enc c (insort_insert k (al_wallets al)) \<noteq> None" using assms by (simp add: total_codec_def al_ok_def)
  from write_works [OF fine_works(1) this, of "al_path al" d] show ?thesis
    by (cases "write_json_atomic c io_fine (al_path al) (insort_insert k (al_wallets al)) d") (simp add: al_add_def Let_def)
qed

lemma remove_result:
  assumes "total_codec bts_ok c" "al_ok al" "is_paired al k"
  shows "\<exists>d'. al_remove c io_fine k al d = (Inr True, al\<lparr>al_wallets := remove1 k (al_wallets al)\<rparr>, d')"
proof -
  have "enc c (remove1 k (al_wallets al)) \<noteq> None" using assms(1,2) by (simp add: total_codec_def al_ok_def)
  from write_works [OF fine_works(1) this, of "al_path al" d] assms(3) show ?thesis
    by (cases "write_json_atomic c io_fine (al_path al) (remove1 k (al_wallets al)) d") (simp add: al_remove_def is_paired_def)
qed

lemma setup_on_trial:
  obtains st where "test_setup T dir b = Some st" "on_trial now w {} 10 st" "al_wallets (sv_allowlist st) = []" "sv_pairing st = None"
proof -
  let ?st = "\<lparr>sv_allowlist = \<lparr>al_path = (dir, ALLOWLIST_FILE), al_wallets = []\<rparr>, sv_watch = \<lparr>ws_path = (dir, WATCHSETS_FILE), ws_sets = []\<rparr>,
    sv_pairing = None, sv_replay = \<lparr>rc_path = (dir, SEEN_FILE), rc_seen = []\<rparr>, sv_ratelimit = Map.empty, sv_fs = Map.empty, sv_backend = b\<rparr>"
  show thesis
  proof (rule that [of ?st])
    show "test_setup T dir b = Some ?st"
      by (simp add: test_setup_def al_load_def ws_load_def rc_load_def load_json_def read_to_string_def pm_new_def)
    show "on_trial now w {} 10 ?st"
      by (simp add: on_trial_def server_ok_def al_ok_def ws_ok_def rc_ok_def rl_ok_def pm_ok_def bts_ok_def)
  qed simp_all
qed

text \<open>The proof of the test is the one the secret it left behind accepts.\<close>

lemma trial_proof:
  assumes "crypto_ok (tr_crypto T)" "on_trial now w ids n st" "unat now + 600 < 2 ^ 64" "sv_pairing st = None"
  obtains pf st' pm where "make_proof T rnd now w st = (Some pf, st')" "on_trial now w ids n st'"
    "sv_allowlist st' = sv_allowlist st" "verify_at (tr_crypto T) now w pf (sv_pairing st') = (True, pm)"
proof -
  let ?K = "tr_crypto T"
  obtain p pm where p: "payload_at ?K rnd now ''nodepk'' [] (sv_pairing st) = (p, pm)" by fastforce
  then have exp: "pp_exp p = now + 600" "pp_pair_secret p = b64url_encode ?K rnd"
    using assms(4) by (auto simp: payload_at_def fresh_secret_def show_payload_def SECRET_TTL_SECS_def Let_def)
  have "now < pp_exp p" using assms(3) by (simp add: exp word_less_nat_alt unat_word_ariths)
  moreover obtain pf where pf: "proof_for ?K (pp_pair_secret p) w = Some pf"
    using assms(1) by (simp add: proof_for_def exp crypto_ok_def)
  moreover have ok: "pm_ok (sv_pairing st)" using on_trial_ok [OF assms(2)] by (simp add: server_ok_def)
  ultimately have "\<exists>pm2. verify_at ?K now w pf pm = (True, pm2)"
    using shown_proof_accepted [OF assms(1) ok p, of w pf now] by (auto simp: client_proof_def proof_for_def)
  moreover have "pm_ok pm" using payload_pm_ok [OF ok] p by (metis snd_conv)
  then have "on_trial now w ids n (st\<lparr>sv_pairing := pm\<rparr>)"
    using on_trial_cong [OF assms(2), of "st\<lparr>sv_pairing := pm\<rparr>"] on_trial_ok [OF assms(2)] by (simp add: server_ok_def)
  ultimately show thesis using p pf that by (auto simp: make_proof_def)
qed

lemma envelope_simps [simp]: "env_id (envelope i t p) = i" "msg_type (envelope i t p) = t" "payload (envelope i t p) = p"
  by (simp_all add: envelope_def)

lemma pair_dispatch:
  assumes "total_codec bts_ok (tr_al_codec T)" "server_ok st" "\<not> is_paired (sv_allowlist st) w"
    and "verify_at (tr_crypto T) now w proof (sv_pairing st) = (True, pm)"
  shows "\<exists>st2. dispatch T (test_rq now) w (envelope i ''pair'' (JObject [(''proof'', JString proof)])) st =
      (Ret (response_ok i (JObject [(''server'', JString SERVER_VERSION)])), st2) \<and> is_paired (sv_allowlist st2) w"
proof -
  have "al_ok (sv_allowlist st)" using assms(2) by (simp add: server_ok_def)
  from add_result [OF assms(1) this, of w "sv_fs st"] assms(3,4) show ?thesis
    by (auto simp: dispatch_def handle_pair_def pair_proof_def field_def test_rq_def is_paired_def set_insort_insert)
qed

lemma bogus_dispatch:
  "dispatch T rq w (envelope i ''bogus'' p) st =
     (Ret (if is_paired (sv_allowlist st) w then response_err i UnknownType ''unknown type''
           else response_err i NotPaired ''not paired''), st)"
  by (simp add: dispatch_def KNOWN_TYPES_def)

lemma trial_paired:
  assumes "on_trial now w ids n st" "is_paired (sv_allowlist st) w" "i \<notin> ids" "0 < n"
  shows "\<exists>st2. route T (test_rq now) w (envelope i ''bogus'' p) st = (Ret (Some (response_err i UnknownType ''unknown type'')), st2) \<and>
      on_trial now w (insert i ids) (n - 1) st2 \<and> is_paired (sv_allowlist st2) w"
    and "\<exists>st2. route T (test_rq now) w (envelope i ''get_balance'' (JObject [(''addresses'', JArray [])])) st =
      (Ret (Some (response_err i InvalidRequest ''addresses must be non-empty'')), st2) \<and>
      on_trial now w (insert i ids) (n - 1) st2 \<and> is_paired (sv_allowlist st2) w"
    and "\<exists>st2. route T (test_rq now) w (envelope i ''pair'' p) st = (Ret (Some (response_err i PairingFailed ''pairing failed'')), st2) \<and>
      on_trial now w (insert i ids) (n - 1) st2 \<and> is_paired (sv_allowlist st2) w"
proof -
  let ?P = "\<lambda>s. is_paired (sv_allowlist s) w"
  show "\<exists>st2. route T (test_rq now) w (envelope i ''bogus'' p) st = (Ret (Some (response_err i UnknownType ''unknown type'')), st2) \<and>
      on_trial now w (insert i ids) (n - 1) st2 \<and> ?P st2"
    by (rule trial_step [OF assms(1), of "envelope i ''bogus'' p" T "response_err i UnknownType ''unknown type''" ?P])
      (use assms(2-4) in \<open>auto simp: bogus_dispatch\<close>)
  show "\<exists>st2. route T (test_rq now) w (envelope i ''pair'' p) st = (Ret (Some (response_err i PairingFailed ''pairing failed'')), st2) \<and>
      on_trial now w (insert i ids) (n - 1) st2 \<and> ?P st2"
    by (rule trial_step [OF assms(1), of "envelope i ''pair'' p" T "response_err i PairingFailed ''pairing failed''" ?P])
      (use assms(2-4) in \<open>auto simp: dispatch_def handle_pair_def\<close>)
  let ?env = "envelope i ''get_balance'' (JObject [(''addresses'', JArray [])])"
    and ?r = "response_err i InvalidRequest ''addresses must be non-empty''"
  have q: "query_addresses (tr_handlers T) ?env = Inl ?r"
    by (simp add: query_addresses_def validate_addresses_def field_def MAX_QUERY_ADDRESSES_def Let_def)
  show "\<exists>st2. route T (test_rq now) w ?env st = (Ret (Some ?r), st2) \<and> on_trial now w (insert i ids) (n - 1) st2 \<and> ?P st2"
    by (rule trial_step [OF assms(1), of ?env T ?r ?P])
      (use assms(2-4) in \<open>auto simp: dispatch_def run_handler_def handle_def on_backend_def get_balance_def q KNOWN_TYPES_def\<close>)
qed

lemma trial_unpairs:
  fixes T :: "('a, 't, 's) transport" and st :: "'s server"
  assumes "total_codec bts_ok (tr_al_codec T)" "on_trial now w ids n st" "is_paired (sv_allowlist st) w" "i \<notin> ids" "0 < n"
  shows "\<exists>st2. route T (test_rq now) w (envelope i ''unpair'' p) st = (Ret (Some (response_ok i (JObject []))), st2) \<and>
      on_trial now w (insert i ids) (n - 1) st2 \<and> \<not> is_paired (sv_allowlist st2) w"
proof -
  have "\<exists>st2. dispatch T (test_rq now) w (envelope i ''unpair'' p) st1 = (Ret (response_ok i (JObject [])), st2) \<and> \<not> is_paired (sv_allowlist st2) w"
    if "server_ok st1" "sv_allowlist st1 = sv_allowlist st" for st1
  proof -
    have al: "al_ok (sv_allowlist st1)" "is_paired (sv_allowlist st1) w" using that assms(3) by (simp_all add: server_ok_def)
    from remove_result [OF assms(1) al, of "sv_fs st1"] obtain d where
      a: "al_remove (tr_al_codec T) io_fine w (sv_allowlist st1) (sv_fs st1) =
        (Inr True, (sv_allowlist st1)\<lparr>al_wallets := remove1 w (al_wallets (sv_allowlist st1))\<rparr>, d)" by blast
    obtain y ws d2 where u: "ws_remove_wallet (hd_codec (tr_handlers T)) io_fine w (sv_watch st1) d = (y, ws, d2)" by (metis prod_cases3)
    have "dispatch T (test_rq now) w (envelope i ''unpair'' p) st1 = (Ret (response_ok i (JObject [])),
        st1\<lparr>sv_allowlist := (sv_allowlist st1)\<lparr>al_wallets := remove1 w (al_wallets (sv_allowlist st1))\<rparr>, sv_watch := ws, sv_fs := d2\<rparr>)"
      using al(2) a u by (simp add: dispatch_def handle_unpair_def test_rq_def)
    moreover have "\<not> is_paired ((sv_allowlist st1)\<lparr>al_wallets := remove1 w (al_wallets (sv_allowlist st1))\<rparr>) w"
      using al_remove_effect [OF al(1) a] by blast
    ultimately show ?thesis by simp
  qed
  note d = this
  show ?thesis
  proof (rule trial_step [OF assms(2), of "envelope i ''unpair'' p" T "response_ok i (JObject [])" "\<lambda>s. \<not> is_paired (sv_allowlist s) w"])
    fix st1 :: "'s server"
    assume "on_trial now w (insert (env_id (envelope i ''unpair'' p)) ids) (n - 1) st1" "sv_allowlist st1 = sv_allowlist st"
    from d [OF on_trial_ok [OF this(1)] this(2)]
    show "\<exists>st2. dispatch T (test_rq now) w (envelope i ''unpair'' p) st1 = (Ret (response_ok i (JObject [])), st2) \<and>
        \<not> is_paired (sv_allowlist st2) w" .
  qed (use assms(4,5) in auto)
qed

lemma trial_stranger:
  assumes "on_trial now w ids n st" "\<not> is_paired (sv_allowlist st) w" "i \<notin> ids" "0 < n" "t \<noteq> ''pair''"
  shows "\<exists>st2. route T (test_rq now) w (envelope i t p) st = (Ret (Some (response_err i NotPaired ''not paired'')), st2) \<and>
      on_trial now w (insert i ids) (n - 1) st2 \<and> sv_allowlist st2 = sv_allowlist st \<and> sv_pairing st2 = sv_pairing st"
  by (rule trial_step [OF assms(1), of "envelope i t p" T "response_err i NotPaired ''not paired''"
        "\<lambda>s. sv_allowlist s = sv_allowlist st \<and> sv_pairing s = sv_pairing st"])
    (use assms(2-5) in \<open>auto simp: dispatch_def\<close>)

lemma trial_pairs:
  assumes "total_codec bts_ok (tr_al_codec T)" "on_trial now w ids n st" "\<not> is_paired (sv_allowlist st) w" "i \<notin> ids" "0 < n"
    and "verify_at (tr_crypto T) now w pf (sv_pairing st) = (True, pm)"
  shows "\<exists>st2. route T (test_rq now) w (envelope i ''pair'' (JObject [(''proof'', JString pf)])) st =
      (Ret (Some (response_ok i (JObject [(''server'', JString SERVER_VERSION)]))), st2) \<and>
      on_trial now w (insert i ids) (n - 1) st2 \<and> is_paired (sv_allowlist st2) w"
  by (rule trial_step [OF assms(2), of "envelope i ''pair'' (JObject [(''proof'', JString pf)])" T
        "response_ok i (JObject [(''server'', JString SERVER_VERSION)])" "\<lambda>s. is_paired (sv_allowlist s) w"])
    (use assms in \<open>auto intro!: pair_dispatch dest: on_trial_ok\<close>)

lemma session_test_passes:
  assumes "total_codec bts_ok (tr_al_codec T)" "crypto_ok (tr_crypto T)" "inj uuid" "unat now + 600 < 2 ^ 64"
  shows "pair_then_ping_then_unpair T dir b uuid now rnd wallet"
proof -
  let ?go = "\<lambda>i t p st. route T (test_rq now) wallet (envelope (uuid i) t p) st" and ?on = "on_trial now wallet"
  have u: "uuid i = uuid j \<longleftrightarrow> i = j" for i j using assms(3) by (simp add: inj_eq)
  obtain st where s0: "test_setup T dir b = Some st" "?on {} 10 st" "al_wallets (sv_allowlist st) = []" "sv_pairing st = None"
    by (rule setup_on_trial)
  obtain st1 where s1: "?go 1 ''bogus'' (JObject []) st = (Ret (Some (response_err (uuid 1) NotPaired ''not paired'')), st1)"
      "?on {uuid 1} 9 st1" "sv_allowlist st1 = sv_allowlist st" "sv_pairing st1 = None"
    using trial_stranger [OF s0(2), of "uuid 1" "''bogus''" T "JObject []"] s0(3,4) by (auto simp: is_paired_def)
  obtain pf st1' pm where p: "make_proof T rnd now wallet st1 = (Some pf, st1')" "?on {uuid 1} 9 st1'"
      "sv_allowlist st1' = sv_allowlist st1" "verify_at (tr_crypto T) now wallet pf (sv_pairing st1') = (True, pm)"
    by (rule trial_proof [OF assms(2) s1(2) assms(4) s1(4)])
  have new: "\<not> is_paired (sv_allowlist st1') wallet" by (simp add: p(3) s1(3) s0(3) is_paired_def)
  obtain st2 where s2: "?go 2 ''pair'' (JObject [(''proof'', JString pf)]) st1' =
        (Ret (Some (response_ok (uuid 2) (JObject [(''server'', JString SERVER_VERSION)]))), st2)"
      "?on {uuid 2, uuid 1} 8 st2" "is_paired (sv_allowlist st2) wallet"
    using trial_pairs [OF assms(1) p(2) new, of "uuid 2" pf pm] p(4) by (auto simp: u)
  obtain st3 where s3: "?go 3 ''get_balance'' (JObject [(''addresses'', JArray [])]) st2 =
        (Ret (Some (response_err (uuid 3) InvalidRequest ''addresses must be non-empty'')), st3)"
      "?on {uuid 3, uuid 2, uuid 1} 7 st3" "is_paired (sv_allowlist st3) wallet"
    using trial_paired(2) [OF s2(2,3), of "uuid 3" T] by (auto simp: u)
  obtain st4 where s4: "?go 4 ''bogus'' (JObject []) st3 = (Ret (Some (response_err (uuid 4) UnknownType ''unknown type'')), st4)"
      "?on {uuid 4, uuid 3, uuid 2, uuid 1} 6 st4" "is_paired (sv_allowlist st4) wallet"
    using trial_paired(1) [OF s3(2,3), of "uuid 4" T] by (auto simp: u)
  obtain st5 where s5: "?go 4 ''bogus'' (JObject []) st4 = (Ret None, st5)" "?on {uuid 4, uuid 3, uuid 2, uuid 1} 6 st5"
      "is_paired (sv_allowlist st5) wallet"
    using trial_replay [OF s4(2), of "envelope (uuid 4) ''bogus'' (JObject [])" T] s4(3) by (metis envelope_simps(1) insertI1)
  obtain st6 where s6: "?go 5 ''unpair'' (JObject []) st5 = (Ret (Some (response_ok (uuid 5) (JObject []))), st6)"
      "?on {uuid 5, uuid 4, uuid 3, uuid 2, uuid 1} 5 st6" "\<not> is_paired (sv_allowlist st6) wallet"
    using trial_unpairs [OF assms(1) s5(2,3), of "uuid 5"] by (auto simp: u)
  obtain st7 where s7: "?go 6 ''unpair'' (JObject []) st6 = (Ret (Some (response_err (uuid 6) NotPaired ''not paired'')), st7)"
    using trial_stranger [OF s6(2,3), of "uuid 6" "''unpair''" T] by (auto simp: u)
  have e: "refusal (Ret (Some (response_err i c m))) = Some c" "granted (Ret (Some (response_ok i r)))" for i c m r
    by (simp_all add: refusal_def granted_def response_err_def)
  show ?thesis
    unfolding pair_then_ping_then_unpair_def s0(1) option.case s1(1) p(1) s2(1) s3(1) s4(1) s5(1) s6(1) s7 Let_def prod.case
    by (simp add: e s2(3))
qed

lemma second_pairing_test_passes:
  assumes "total_codec bts_ok (tr_al_codec T)" "crypto_ok (tr_crypto T)" "inj uuid" "unat now + 600 < 2 ^ 64"
  shows "pair_rejects_bad_proof_and_second_pairing T dir b uuid now rnd wallet"
proof -
  let ?go = "\<lambda>i t p st. route T (test_rq now) wallet (envelope (uuid i) t p) st" and ?on = "on_trial now wallet"
    and ?bad = "JObject [(''proof'', JString ''00'')]"
  have u: "uuid i = uuid j \<longleftrightarrow> i = j" for i j using assms(3) by (simp add: inj_eq)
  obtain st where s0: "test_setup T dir b = Some st" "?on {} 10 st" "al_wallets (sv_allowlist st) = []" "sv_pairing st = None"
    by (rule setup_on_trial)
  have "dispatch T (test_rq now) wallet (envelope (uuid 1) ''pair'' ?bad) s =
      (Ret (response_err (uuid 1) PairingFailed ''pairing failed''), s)"
    if "sv_allowlist s = sv_allowlist st" "sv_pairing s = sv_pairing st" for s
    using that s0(3,4) by (simp add: dispatch_def handle_pair_def is_paired_def verify_at_def)
  note d = this
  obtain st1 where s1: "?go 1 ''pair'' ?bad st = (Ret (Some (response_err (uuid 1) PairingFailed ''pairing failed'')), st1)"
      "?on {uuid 1} 9 st1" "sv_allowlist st1 = sv_allowlist st \<and> sv_pairing st1 = sv_pairing st"
    by (rule trial_step [OF s0(2), of "envelope (uuid 1) ''pair'' ?bad" T "response_err (uuid 1) PairingFailed ''pairing failed''"
          "\<lambda>s. sv_allowlist s = sv_allowlist st \<and> sv_pairing s = sv_pairing st"]) (use d in auto)
  have none: "sv_pairing st1 = None" "\<not> is_paired (sv_allowlist st1) wallet" using s1(3) s0(3,4) by (simp_all add: is_paired_def)
  obtain pf st1' pm where p: "make_proof T rnd now wallet st1 = (Some pf, st1')" "?on {uuid 1} 9 st1'"
      "sv_allowlist st1' = sv_allowlist st1" "verify_at (tr_crypto T) now wallet pf (sv_pairing st1') = (True, pm)"
    by (rule trial_proof [OF assms(2) s1(2) assms(4) none(1)])
  have new: "\<not> is_paired (sv_allowlist st1') wallet" by (simp add: p(3) none(2))
  obtain st2 where s2: "?go 2 ''pair'' (JObject [(''proof'', JString pf)]) st1' =
        (Ret (Some (response_ok (uuid 2) (JObject [(''server'', JString SERVER_VERSION)]))), st2)"
      "?on {uuid 2, uuid 1} 8 st2" "is_paired (sv_allowlist st2) wallet"
    using trial_pairs [OF assms(1) p(2) new, of "uuid 2" pf pm] p(4) by (auto simp: u)
  obtain st3 where s3: "?go 3 ''pair'' ?bad st2 = (Ret (Some (response_err (uuid 3) PairingFailed ''pairing failed'')), st3)"
    using trial_paired(3) [OF s2(2,3), of "uuid 3" T ?bad] by (auto simp: u)
  have e: "refusal (Ret (Some (response_err i c m))) = Some c" "granted (Ret (Some (response_ok i r)))" for i c m r
    by (simp_all add: refusal_def granted_def response_err_def)
  show ?thesis
    unfolding pair_rejects_bad_proof_and_second_pairing_def s0(1) option.case s1(1) p(1) s2(1) s3 Let_def prod.case
    by (simp add: e none(2))
qed

lemma gift_wrap_test_passes:
  assumes "nostr_ok N" "text_ok X"
    and "ns_wrap N rnd server wallet KIND_RESPONSE
      (tx_print X (response_to_json (response_ok i (JObject [(''server'', JString SERVER_VERSION)])))) = Some ev"
  shows "gift_wrap_roundtrip_offline N X rnd server wallet i"
proof -
  let ?r = "response_ok i (JObject [(''server'', JString SERVER_VERSION)])"
  have j: "response_to_json ?r = JObject [(''v'', json_u64 1), (''id'', JString i), (''ok'', JBool True),
      (''result'', JObject [(''server'', JString SERVER_VERSION)])]"
    by (simp add: response_to_json_def response_ok_def skip_none_def PROTOCOL_VERSION_def json_u64_def)
  then have "tx_parse X (tx_print X (response_to_json ?r)) = Some (json_norm (response_to_json ?r))"
    using assms(2) by (simp add: text_ok_def json_u64_def)
  moreover have "json_norm (response_to_json ?r) = JObject [(''id'', JString i), (''ok'', JBool True),
      (''result'', JObject [(''server'', JString SERVER_VERSION)]), (''v'', json_u64 1)]"
    by (simp add: j json_u64_def)
  moreover have "response_of_json (JObject [(''id'', JString i), (''ok'', JBool True),
      (''result'', JObject [(''server'', JString SERVER_VERSION)]), (''v'', json_u64 1)]) = Some ?r"
    by (simp add: response_of_json_def field_def option_member_def as_u8_def response_ok_def PROTOCOL_VERSION_def)
  ultimately show ?thesis
    using wrapped [OF assms(1,3)] assms(3) by (simp add: gift_wrap_roundtrip_offline_def Let_def)
qed

section \<open>Properties\<close>

text \<open>
  C38. The unit tests of the transport pass on its model, whatever its backend, cryptography and coding of the
  allowlist: a session of a wallet (refused as a stranger, paired, served, its replay dropped, unpaired), the
  two refused pairings, and the gift wrap that comes back as the response it was made of.
\<close>

theorem transport_tests_pass:
  assumes "total_codec bts_ok (tr_al_codec T)" "crypto_ok (tr_crypto T)" "inj uuid" "unat now + 600 < 2 ^ 64"
    and "nostr_ok N" "text_ok X"
    and "ns_wrap N n server wallet KIND_RESPONSE
      (tx_print X (response_to_json (response_ok (uuid 9) (JObject [(''server'', JString SERVER_VERSION)])))) = Some ev"
  shows "pair_then_ping_then_unpair T dir b uuid now rnd wallet \<and>
    pair_rejects_bad_proof_and_second_pairing T dir b uuid now rnd wallet \<and>
    gift_wrap_roundtrip_offline N X n server wallet (uuid 9)"
  using session_test_passes [OF assms(1-4)] second_pairing_test_passes [OF assms(1-4)] gift_wrap_test_passes [OF assms(5-7)]
  by blast

section \<open>Witnesses\<close>

definition test_transport :: "(string, unit, usize) transport" where
  "test_transport = (sample_transport sample_handlers)\<lparr>tr_al_codec := lb_al_codec writable_libs\<rparr>"

theorem transport_tests_pass_witness:
  "pair_then_ping_then_unpair test_transport ''/data'' 100 (\<lambda>i. replicate i CHR ''x'') 1000 [7] ''bb''"
proof -
  let ?uuid = "\<lambda>i. replicate i CHR ''x''"
  have t: "total_codec bts_ok (tr_al_codec test_transport)" "crypto_ok (tr_crypto test_transport)"
    by (simp_all add: test_transport_def test_libs_ok(2) sample_transport_def toy_crypto_ok)
  have u: "inj ?uuid" "unat (1000 :: u64) + 600 < 2 ^ 64" by (auto intro!: injI dest: arg_cong [of _ _ length])
  from transport_tests_pass [OF t u toy_nostr_ok toy_text_ok toy_wrap] show ?thesis by blast
qed

end
