(* ===== verification/Progress.thy ===== *)
theory Progress
  imports SystemRuns
begin

text \<open>
  Progress of the tasks of \<open>server/src/main.rs\<close>: neither the transport nor the watcher ends in a panic, every
  request that the transport took up is answered or dropped after at most five of its steps, and every round
  of the watcher ends, whatever the other tasks do in between.
\<close>

section \<open>The transport\<close>

text \<open>The steps a request has still to make, at most.\<close>

fun phase_rank :: "phase \<Rightarrow> nat" where
  "phase_rank Received = 5"
| "phase_rank Accepted = 4"
| "phase_rank Admitted = 3"
| "phase_rank Unproved = 2"
| "phase_rank Proved = 1"
| "phase_rank Trusted = 2"
| "phase_rank Unlisted = 1"

fun job_rank :: "job \<Rightarrow> nat" where
  "job_rank (Busy ph rq w env) = phase_rank ph"
| "job_rank _ = 0"

text \<open>
  What becomes of a request: it is under way, or answered by a response with its id, or, if \<open>droppable\<close>,
  dropped.
\<close>

fun serves_request :: "bool \<Rightarrow> string \<Rightarrow> request_envelope \<Rightarrow> job \<Rightarrow> bool" where
  "serves_request droppable w env (Busy ph rq w' env') \<longleftrightarrow> w' = w \<and> env' = env \<and> (ph = Received \<longrightarrow> droppable)"
| "serves_request droppable w env (Replying w' r) \<longleftrightarrow> w' = w \<and> answers env r"
| "serves_request droppable w env Idle \<longleftrightarrow> droppable"
| "serves_request droppable w env Dead \<longleftrightarrow> False"

text \<open>The handlers answer from the Electrum adapter, in whatever order a hash table is listed.\<close>

definition handlers_sound :: "('a, 't, electrs \<times> 'w) transport \<Rightarrow> bool" where
  "handlers_sound T \<longleftrightarrow> order_ok (hd_order (tr_handlers T)) \<and>
     (\<exists>R C. be_anchors (hd_electrs (tr_handlers T)) = be_anchors (electrs_backend R C))"

lemma run_handler_returns:
  assumes "handlers_sound T"
  obtains r st' where "run_handler T rq w env st = (Ret r, st')" "answers env r"
proof -
  from assms obtain R C where T: "order_ok (hd_order (tr_handlers T))"
    "be_anchors (hd_electrs (tr_handlers T)) = be_anchors (electrs_backend R C)" by (auto simp: handlers_sound_def)
  obtain r s ws d where h: "handle (tr_handlers T) (rq_io_watch rq) w env (sv_backend st, sv_watch st, sv_fs st) = (r, s, ws, d)"
    by (metis surj_pair)
  with handle_answers_always [OF T(2,1), of "rq_io_watch rq" w env "(sv_backend st, sv_watch st, sv_fs st)"]
  obtain x where "r = Ret x" "answers env x" by auto
  with h that show thesis by (simp add: run_handler_def)
qed

lemma job_step_progress:
  assumes "handlers_sound T" "serves_request droppable w env (Busy ph rq w env)"
  shows "serves_request droppable w env (fst (job_step T (Busy ph rq w env, st))) \<and>
    job_rank (fst (job_step T (Busy ph rq w env, st))) < phase_rank ph"
proof (cases ph)
  case Trusted
  obtain r st' where "run_handler T rq w env st = (Ret r, st')" "answers env r"
    by (rule run_handler_returns [OF assms(1)])
  then show ?thesis using assms(2) Trusted by (auto split: prod.splits sum.splits simp: answers_built)
qed (use assms(2) in \<open>auto split: prod.splits sum.splits simp: answers_built\<close>)

definition transport_live :: "('a, 't, electrs \<times> 'w) installation \<Rightarrow> bool \<Rightarrow> string \<Rightarrow> request_envelope \<Rightarrow>
    (electrs \<times> 'w) system \<Rightarrow> bool" where
  "transport_live S droppable w env sy \<longleftrightarrow>
     handlers_sound (su_transport S) \<and> serves_request droppable w env (sy_job sy)"

interpretation transport: driven_machine "sys_step S" "transport_live S droppable w env" "\<lambda>sy. job_rank (sy_job sy)"
    "\<lambda>e. e = Move" for S droppable w env
proof
  fix sy e
  assume good: "transport_live S droppable w env sy" and busy: "job_rank (sy_job sy) \<noteq> 0"
  then obtain ph rq where job: "sy_job sy = Busy ph rq w env" by (cases "sy_job sy") (auto simp: transport_live_def)
  note step = job_step_progress [of "su_transport S" droppable w env ph rq "sy_server sy"]
  show "transport_live S droppable w env (snd (sys_step S sy e)) \<and>
      job_rank (sy_job (snd (sys_step S sy e))) + (if e = Move then 1 else 0) \<le> job_rank (sy_job sy)"
    using good job step
    by (cases rule: sys_step_cases [of e S sy]) (auto simp: transport_live_def sys_step.simps)
qed

section \<open>The watcher\<close>

text \<open>The Electrum client answers a batch of queries with as many results.\<close>

definition batches_exact :: "'w client \<Rightarrow> bool" where
  "batches_exact C \<longleftrightarrow> (\<forall>scripts url t w hists.
     fst (c_histories C scripts url t w) = Done hists \<longrightarrow> length hists = length scripts)"

lemma batch_exact_client: "batches_exact C \<Longrightarrow> batch_exact (electrs_backend R C)"
  unfolding batch_exact_def batches_exact_def
  by (auto simp: electrs_backend_def call_def split: prod.splits outcome.splits if_splits) (metis fst_conv)

lemma tick_wallet_returns:
  assumes "batch_exact (w_electrs W)"
  shows "fst (fst (tick_wallet W te wallet addrs (state, d, s))) \<noteq> Panic"
  using scan_chunks_all [OF assms, of "map fst (watched W addrs)" 0 "map snd (watched W addrs)" "([], [])" s]
  by (auto simp: tick_wallet_def Let_def split: prod.splits sum.splits run.splits)

text \<open>The steps a round has still to make, at most.\<close>

fun round_rank :: "round \<Rightarrow> nat" where
  "round_rank (Checking snapshot rest) = 2 * length rest + 1"
| "round_rank (Scanning snapshot w addrs rest) = 2 * length rest + 2"
| "round_rank _ = 0"

fun is_watch :: "sys_event \<Rightarrow> bool" where
  "is_watch (Watch te) = True"
| "is_watch _ = False"

lemma round_untouched: "\<not> is_watch e \<Longrightarrow> sy_round (snd (sys_step S sy e)) = sy_round sy"
  by (cases e) (simp_all add: sys_step.simps split: prod.splits job.splits)

lemma round_step_progress:
  assumes "batch_exact (w_electrs W)" "r \<noteq> Stopped" "round_step W te (r, known, st) = (out, r', known', st')"
  shows "r' \<noteq> Stopped \<and> (r \<noteq> Resting \<longrightarrow> round_rank r' < round_rank r)"
proof (cases "(W, te, r, known, st)" rule: round_step.cases)
  case (4 W' te' snapshot wallet addrs rest known' st')
  with tick_wallet_returns [OF assms(1), of te wallet addrs known "sv_fs st" "sv_backend st"] assms(3)
  show ?thesis by (auto split: prod.splits run.splits)
qed (use assms(2,3) in \<open>auto simp: Let_def split: if_splits\<close>)

lemma watch_progress:
  assumes "batch_exact (w_electrs (su_watcher S))" "sy_round sy \<noteq> Stopped"
  shows "sy_round (snd (sys_step S sy e)) \<noteq> Stopped \<and>
    (sy_round sy \<noteq> Resting \<longrightarrow>
       round_rank (sy_round (snd (sys_step S sy e))) + (if is_watch e then 1 else 0) \<le> round_rank (sy_round sy))"
proof (cases "is_watch e")
  case True
  then obtain te where e: "e = Watch te" by (cases e) auto
  obtain out r known st where r: "round_step (su_watcher S) te (sy_round sy, sy_known sy, sy_server sy) = (out, r, known, st)"
    by (metis surj_pair)
  from round_step_progress [OF assms r] r show ?thesis by (auto simp: e sys_step.simps)
next
  case False
  then show ?thesis using assms(2) by (simp add: round_untouched)
qed

definition watcher_live :: "('a, 't, 's) installation \<Rightarrow> 's system \<Rightarrow> bool" where
  "watcher_live S sy \<longleftrightarrow> batch_exact (w_electrs (su_watcher S)) \<and> sy_round sy \<noteq> Stopped"

lemma resting: "r \<noteq> Stopped \<Longrightarrow> round_rank r = 0 \<longleftrightarrow> r = Resting"
  by (cases r) simp_all

interpretation watching: driven_machine "sys_step S" "watcher_live S" "\<lambda>sy. round_rank (sy_round sy)" is_watch for S
proof
  fix sy e
  assume "watcher_live S sy" "round_rank (sy_round sy) \<noteq> 0"
  then show "watcher_live S (snd (sys_step S sy e)) \<and>
      round_rank (sy_round (snd (sys_step S sy e))) + (if is_watch e then 1 else 0) \<le> round_rank (sy_round sy)"
    using watch_progress [of S sy e] resting [of "sy_round sy"] by (simp add: watcher_live_def)
qed

section \<open>No task ends\<close>

definition tasks_alive :: "('a, 't, electrs \<times> 'w) installation \<Rightarrow> (electrs \<times> 'w) system \<Rightarrow> bool" where
  "tasks_alive S sy \<longleftrightarrow> handlers_sound (su_transport S) \<and> watcher_live S sy \<and> sy_job sy \<noteq> Dead"

lemma job_step_alive: "handlers_sound T \<Longrightarrow> j \<noteq> Dead \<Longrightarrow> fst (job_step T (j, st)) \<noteq> Dead"
proof (cases j)
  case (Busy ph rq w env)
  moreover assume "handlers_sound T"
  ultimately show ?thesis using job_step_progress [of T True w env ph rq st] by auto
qed simp_all

interpretation tasks: stable_machine "sys_step S" "tasks_alive S" for S
proof
  fix sy e
  assume alive: "tasks_alive S sy"
  then have "watcher_live S (snd (sys_step S sy e))" using watch_progress [of S sy e] by (simp add: tasks_alive_def watcher_live_def)
  moreover have "sy_job (snd (sys_step S sy e)) \<noteq> Dead"
    using alive job_step_alive [of "su_transport S" "sy_job sy" "sy_server sy"]
    by (cases rule: sys_step_cases [of e S sy]) (auto simp: tasks_alive_def)
  ultimately show "tasks_alive S (snd (sys_step S sy e))" using alive by (simp add: tasks_alive_def)
qed

lemma boot_alive:
  assumes "boot lb var idio io fresh w dd = Inr (S, sy)" "order_ok (lb_order lb)" "batches_exact (lb_client lb)"
  shows "tasks_alive S sy"
proof -
  from assms(1) obtain var cfg keys where S: "S = setup_of lb var cfg keys" and sy: "sy_job sy = Idle" "sy_round sy = Resting"
    by (auto simp: boot_def split: sum.splits prod.splits)
  have "be_anchors (hd_electrs (tr_handlers (su_transport S))) = be_anchors (electrs_backend (lb_runtime lb) (lb_client lb))"
    by (simp add: S setup_of_def Let_def)
  then have "handlers_sound (su_transport S)" using assms(2) unfolding handlers_sound_def by (auto simp: S setup_of_def Let_def)
  then show ?thesis using sy batch_exact_client [OF assms(3)] by (simp add: tasks_alive_def watcher_live_def S setup_of_def Let_def)
qed

section \<open>Properties\<close>

text \<open>
  C11. Every request is answered or dropped: from boot on, once the transport has taken up a request,
  and after five further steps of the transport, however many steps of other tasks come between them, there
  was a moment at which it was about to publish a response to the sender with the request's id; or the request
  was dropped, which happens only at its first step.
\<close>

theorem requests_complete:
  assumes "boot lb var idio io fresh w0 dd = Inr (S, sy)" "order_ok (lb_order lb)" "batches_exact (lb_client lb)"
    and "sy_job (snd (exec (sys_step S) sy es0)) = Busy ph rq w env" "5 \<le> length (filter (\<lambda>e. e = Move) es)"
  shows "\<exists>es1 es2. es = es1 @ es2 \<and>
    (case sy_job (snd (exec (sys_step S) sy (es0 @ es1))) of
       Replying w' r \<Rightarrow> w' = w \<and> resp_id r = env_id env \<and> resp_wf r
     | Idle \<Rightarrow> ph = Received
     | _ \<Rightarrow> False)"
proof -
  let ?sy = "snd (exec (sys_step S) sy es0)"
  have "tasks_alive S ?sy" by (rule tasks.run_good [OF boot_alive [OF assms(1-3)]])
  then have live: "transport_live S (ph = Received) w env ?sy"
    using assms(4) by (simp add: transport_live_def tasks_alive_def)
  have "job_rank (sy_job ?sy) \<le> 5" using assms(4) by (cases ph) simp_all
  then have "job_rank (sy_job ?sy) \<le> length (filter (\<lambda>e. e = Move) es)" using assms(5) by simp
  from transport.run_arrives [OF live this] obtain es1 es2 where e: "es = es1 @ es2"
    "transport_live S (ph = Received) w env (snd (exec (sys_step S) ?sy es1))"
    "job_rank (sy_job (snd (exec (sys_step S) ?sy es1))) = 0" by blast
  show ?thesis
  proof (intro exI conjI)
    show "es = es1 @ es2" by (rule e(1))
    show "case sy_job (snd (exec (sys_step S) sy (es0 @ es1))) of
       Replying w' r \<Rightarrow> w' = w \<and> resp_id r = env_id env \<and> resp_wf r
     | Idle \<Rightarrow> ph = Received
     | _ \<Rightarrow> False"
      using e(2,3) by (cases "sy_job (snd (exec (sys_step S) ?sy es1))")
        (auto simp: transport_live_def answers_def exec_append elim: phase_rank.elims)
  qed
qed

text \<open>
  C12. No task ends: from boot on, whatever requests arrive, whatever the libraries, the node and the files do,
  neither the transport nor the watcher panics; and a round of the watcher with \<open>n\<close> wallets still to look
  at is over after at most \<open>2 n + 2\<close> of its steps.
\<close>

theorem tasks_go_on:
  assumes "boot lb var idio io fresh w0 dd = Inr (S, sy)" "order_ok (lb_order lb)" "batches_exact (lb_client lb)"
  shows "sy_job (snd (exec (sys_step S) sy es)) \<noteq> Dead \<and> sy_round (snd (exec (sys_step S) sy es)) \<noteq> Stopped \<and>
    (round_rank (sy_round (snd (exec (sys_step S) sy es))) \<le> length (filter is_watch es') \<longrightarrow>
      (\<exists>es1 es2. es' = es1 @ es2 \<and> sy_round (snd (exec (sys_step S) sy (es @ es1))) = Resting))"
proof -
  let ?sy = "snd (exec (sys_step S) sy es)"
  have alive: "tasks_alive S ?sy" by (rule tasks.run_good [OF boot_alive [OF assms]])
  then have live: "watcher_live S ?sy" by (simp add: tasks_alive_def)
  have "\<exists>es1 es2. es' = es1 @ es2 \<and> sy_round (snd (exec (sys_step S) sy (es @ es1))) = Resting"
    if "round_rank (sy_round ?sy) \<le> length (filter is_watch es')"
  proof -
    from watching.run_arrives [OF live that] obtain es1 es2 where "es' = es1 @ es2"
      "watcher_live S (snd (exec (sys_step S) ?sy es1))" "round_rank (sy_round (snd (exec (sys_step S) ?sy es1))) = 0"
      by blast
    then show ?thesis using resting by (auto simp: watcher_live_def exec_append)
  qed
  then show ?thesis using alive by (simp add: tasks_alive_def watcher_live_def)
qed

section \<open>Witnesses\<close>

lemma sample_libs_live: "order_ok (lb_order sample_libs)" "batches_exact (lb_client sample_libs)"
  by (simp_all add: sample_libs_def id_order_ok batches_exact_def silent_client_def hanging_work_def)

definition busy_minute :: "sys_event list" where
  "busy_minute = [Move, Visit, Move, Check, Move, Watch sample_te, Move, Watch sample_te, Move]"

theorem requests_complete_witness:
  "\<exists>S sy. boot sample_libs Map.empty id_fine io_fine True 7 (Map.empty, Map.empty) = Inr (S, sy) \<and>
     (\<exists>es1 es2. busy_minute = es1 @ es2 \<and>
       (case sy_job (snd (exec (sys_step S) sy (Arrive sample_rq ''bb'' pair_env # es1))) of
          Replying w r \<Rightarrow> w = ''bb'' \<and> resp_id r = env_id pair_env \<and> resp_wf r | Idle \<Rightarrow> True | _ \<Rightarrow> False))"
proof -
  obtain S sy where b: "boot sample_libs Map.empty id_fine io_fine True 7 (Map.empty, Map.empty) = Inr (S, sy)"
    by (rule sample_boot)
  have j: "sy_job (snd (exec (sys_step S) sy [Arrive sample_rq ''bb'' pair_env])) = Busy Received sample_rq ''bb'' pair_env"
    using boot_ok [OF b sample_libs_codecs] by (auto simp: sys_step.simps)
  have n: "5 \<le> length (filter (\<lambda>e. e = Move) busy_minute)" by (simp add: busy_minute_def)
  from requests_complete [OF b sample_libs_live j n] obtain es1 es2 where "busy_minute = es1 @ es2 \<and>
      (case sy_job (snd (exec (sys_step S) sy ([Arrive sample_rq ''bb'' pair_env] @ es1))) of
         Replying w r \<Rightarrow> w = ''bb'' \<and> resp_id r = env_id pair_env \<and> resp_wf r | Idle \<Rightarrow> Received = Received | _ \<Rightarrow> False)"
    by blast
  then have "busy_minute = es1 @ es2 \<and>
      (case sy_job (snd (exec (sys_step S) sy (Arrive sample_rq ''bb'' pair_env # es1))) of
         Replying w r \<Rightarrow> w = ''bb'' \<and> resp_id r = env_id pair_env \<and> resp_wf r | Idle \<Rightarrow> True | _ \<Rightarrow> False)"
    by (simp only: append_Cons append_Nil simp_thms)
  with b show ?thesis by blast
qed

theorem tasks_go_on_witness:
  "\<exists>S sy. boot sample_libs Map.empty id_fine io_fine True 7 (Map.empty, Map.empty) = Inr (S, sy) \<and>
     sy_round (snd (exec (sys_step S) sy [Watch sample_te])) = Checking [] [] \<and>
     (\<exists>es1 es2. busy_minute = es1 @ es2 \<and> sy_round (snd (exec (sys_step S) sy ([Watch sample_te] @ es1))) = Resting)"
proof -
  obtain S sy where b: "boot sample_libs Map.empty id_fine io_fine True 7 (Map.empty, Map.empty) = Inr (S, sy)"
      "ws_sets (sv_watch (sy_server sy)) = []"
    by (rule sample_boot)
  have r: "sy_round (snd (exec (sys_step S) sy [Watch sample_te])) = Checking [] []"
    using boot_ok [OF b(1) sample_libs_codecs] b(2) by (auto simp: sys_step.simps ws_snapshot_def)
  have n: "round_rank (Checking [] []) \<le> length (filter is_watch busy_minute)" by (simp add: busy_minute_def)
  from tasks_go_on [OF b(1) sample_libs_live, of "[Watch sample_te]" busy_minute] r n b(1) show ?thesis by auto
qed

end
