(* ===== verification/PairingSpec.thy ===== *)
theory PairingSpec
  imports SystemRuns
begin

text \<open>
  What pairing promises, as a small abstract protocol, and the whole server as a refinement of it: every step
  of every task of \<open>server/src/main.rs\<close> is a step of the protocol with the right cause, so what holds of the
  protocol's runs holds of the server's.
\<close>

section \<open>The protocol\<close>

text \<open>
  The members; how many proofs may still be compared with the secret on offer (0: there is none); the wallet
  that proved the secret and is not yet a member.
\<close>

record club =
  members :: "string set"
  offer :: nat
  candidate :: "string option"

datatype club_act = Pass | Mint | Miss | Prove string | Admit string | Leave string

inductive club_step :: "club \<Rightarrow> club_act \<Rightarrow> club \<Rightarrow> bool" where
  pass: "club_step c Pass c"
| mint: "club_step c Mint (c\<lparr>offer := 5\<rparr>)"
| miss: "0 < offer c \<Longrightarrow> club_step c Miss (c\<lparr>offer := offer c - 1\<rparr>)"
| prove: "0 < offer c \<Longrightarrow> candidate c = None \<Longrightarrow> club_step c (Prove w) (c\<lparr>offer := 0, candidate := Some w\<rparr>)"
| admit: "candidate c = Some w \<Longrightarrow> club_step c (Admit w) (c\<lparr>members := insert w (members c), candidate := None\<rparr>)"
| leave: "w \<in> members c \<Longrightarrow> club_step c (Leave w) (c\<lparr>members := members c - {w}\<rparr>)"

inductive_simps club_step_simps:
  "club_step c Pass c'" "club_step c Mint c'" "club_step c Miss c'" "club_step c (Prove w) c'"
  "club_step c (Admit w) c'" "club_step c (Leave w) c'"

text \<open>The budget of the protocol: a secret admits one wallet and stands five comparisons.\<close>

fun is_prove :: "club_act \<Rightarrow> bool" where
  "is_prove (Prove w) = True"
| "is_prove _ = False"

fun is_admit :: "club_act \<Rightarrow> bool" where
  "is_admit (Admit w) = True"
| "is_admit _ = False"

fun compares :: "club_act \<Rightarrow> bool" where
  "compares Miss = True"
| "compares (Prove w) = True"
| "compares _ = False"

lemma club_step_budget:
  assumes "club_step c a c'"
  shows "(if is_admit a then 1 else 0) + (if candidate c' = None then 0 else 1) + (if offer c' = 0 then 0 else 1)
      \<le> (if candidate c = None then 0 else 1) + (if offer c = 0 then 0 else 1 :: nat) + (if a = Mint then 1 else 0)"
    and "(if compares a then 1 else 0) + offer c' \<le> offer c + (if a = Mint then 5 else 0)"
  using assms by (cases rule: club_step.cases; simp)+

lemma club_run_budget:
  assumes "path club_step c as c'"
  shows "length (filter is_admit as) + (if candidate c' = None then 0 else 1) + (if offer c' = 0 then 0 else 1)
      \<le> (if candidate c = None then 0 else 1) + (if offer c = 0 then 0 else 1) + length (filter (\<lambda>a. a = Mint) as)"
    and "length (filter compares as) + offer c' \<le> offer c + 5 * length (filter (\<lambda>a. a = Mint) as)"
  using assms
proof (induction rule: path.induct)
  case (path_snoc s es t e u)
  note one = club_step_budget [OF path_snoc.hyps(2)]
  {
    case 1
    from path_snoc.IH(1) one(1) show ?case by (auto split: if_splits)
  next
    case 2
    from path_snoc.IH(2) one(2) show ?case by (auto split: if_splits)
  }
qed simp_all

section \<open>The server as the protocol\<close>

definition club_of :: "'s system \<Rightarrow> club" where
  "club_of sy =
     \<lparr>members = {w. is_paired (sv_allowlist (sy_server sy)) w}, offer = guess_credit (sv_pairing (sy_server sy)),
      candidate = (case sy_job sy of Busy Proved rq w env \<Rightarrow> Some w | _ \<Rightarrow> None)\<rparr>"

text \<open>
  What may cause each action: a page load mints, a request that the transport is at compares and
  proves, with the HMAC under the live secret, and admits; a wallet leaves by its own \<open>unpair\<close> or by the
  owner's revocation.
\<close>

definition compares_proof :: "'s system \<Rightarrow> sys_event \<Rightarrow> bool" where
  "compares_proof sy e =
     (case (e, sy_job sy) of
        (Move, Busy Unproved rq w env) \<Rightarrow> proof_compared (rq_now rq) (sv_pairing (sy_server sy))
      | _ \<Rightarrow> False)"

fun caused :: "('a, 't, 's) installation \<Rightarrow> 's system \<Rightarrow> sys_event \<Rightarrow> club_act \<Rightarrow> bool" where
  "caused S sy e Pass \<longleftrightarrow> \<not> compares_proof sy e"
| "caused S sy e Mint \<longleftrightarrow> (\<exists>now rnd. e = Page now rnd)"
| "caused S sy e Miss \<longleftrightarrow> compares_proof sy e"
| "caused S sy e (Prove w) \<longleftrightarrow> compares_proof sy e \<and> (\<exists>rq env. proving S w sy rq env)"
| "caused S sy e (Admit w) \<longleftrightarrow> e = Move \<and> (\<exists>rq env. sy_job sy = Busy Proved rq w env)"
| "caused S sy e (Leave w) \<longleftrightarrow> (\<exists>io. e = Revoke io w) \<or>
     e = Move \<and> (\<exists>rq env. sy_job sy = Busy Trusted rq w env \<and> msg_type env = ''unpair'')"

lemma verify_offer:
  assumes "pm_ok pm" "verify_at K now w p pm = (b, pm')"
  shows "if b then proof_compared now pm \<and> 0 < guess_credit pm \<and> guess_credit pm' = 0
    else if proof_compared now pm then 0 < guess_credit pm \<and> guess_credit pm' = guess_credit pm - 1
    else guess_credit pm' = guess_credit pm"
  using assms
  by (auto simp: verify_at_def guess_credit_def pm_ok_def max_attempts_nat unat_next_attempt proof_compared_def
      secret_live_def Let_def split: option.splits if_splits)

lemma payload_offer:
  "guess_credit (snd (payload_at K rnd now node urls pm)) \<in> {guess_credit pm, 5}"
  by (auto simp: payload_at_def guess_credit_def fresh_secret_def Let_def split: option.splits)

lemma members_of:
  "(\<forall>q. is_paired al' q \<longleftrightarrow> q = w \<or> is_paired al q) \<Longrightarrow> {q. is_paired al' q} = insert w {q. is_paired al q}"
  "(\<forall>q. is_paired al' q \<longleftrightarrow> q \<noteq> w \<and> is_paired al q) \<Longrightarrow> {q. is_paired al' q} = {q. is_paired al q} - {w}"
  by auto

text \<open>Removing a wallet is leaving, or nothing if it was no member.\<close>

lemma leave_step:
  assumes "members c' = members c - {w}" "offer c' = offer c" "candidate c' = candidate c"
  shows "\<exists>a \<in> {Pass, Leave w}. club_step c a c'"
proof (cases "w \<in> members c")
  case True
  have "c' = c\<lparr>members := members c - {w}\<rparr>" using assms by simp
  with leave [OF True] show ?thesis by simp
next
  case False
  then have "c' = c" using assms by simp
  then show ?thesis using pass by blast
qed

lemma pass_step:
  "club_of sy' = club_of sy \<Longrightarrow> \<not> compares_proof sy e \<Longrightarrow> \<exists>a. club_step (club_of sy) a (club_of sy') \<and> caused S sy e a"
  using pass [of "club_of sy"] by (metis caused.simps(1))

lemma job_step_protocol:
  assumes "server_ok (sy_server sy)" "job_step (su_transport S) (sy_job sy, sy_server sy) = (j, st)"
    and "sy' = sy\<lparr>sy_job := j, sy_server := st\<rparr>"
  shows "\<exists>a. club_step (club_of sy) a (club_of sy') \<and> caused S sy Move a"
  using assms(2)
proof (cases rule: job_step_cases)
  case (prove rq w env b pm)
  have ok: "pm_ok (sv_pairing (sy_server sy))" using assms(1) by (simp add: server_ok_def)
  note off = verify_offer [OF ok prove(2)]
  show ?thesis
  proof (cases b)
    case True
    then have "proving S w sy rq env"
      using verify_true [of "tr_crypto (su_transport S)" "rq_now rq" w "pair_proof env" "sv_pairing (sy_server sy)" pm] prove
      by (auto simp: proving_def)
    then have "caused S sy Move (Prove w)" using off True prove(1) by (auto simp: compares_proof_def)
    moreover have "club_step (club_of sy) (Prove w) (club_of sy')"
      using off True prove by (auto simp: club_step_simps club_of_def assms(3))
    ultimately show ?thesis by blast
  next
    case False
    let ?a = "if compares_proof sy Move then Miss else Pass"
    have "club_step (club_of sy) ?a (club_of sy')"
      using off False prove by (auto simp: club_step_simps club_of_def compares_proof_def assms(3))
    moreover have "caused S sy Move ?a" by simp
    ultimately show ?thesis by blast
  qed
next
  case (add rq w env r al d)
  have ok: "al_ok (sv_allowlist (sy_server sy))" using assms(1) by (simp add: server_ok_def)
  have "club_step (club_of sy) (Admit w) (club_of sy')"
    using members_of(1) [of al w "sv_allowlist (sy_server sy)"] al_add_effect [OF ok add(2)] add
    by (auto simp: club_step_simps club_of_def assms(3))
  moreover have "caused S sy Move (Admit w)" using add(1) by simp
  ultimately show ?thesis by blast
next
  case (remove rq w env r al d)
  have ok: "al_ok (sv_allowlist (sy_server sy))" using assms(1) by (simp add: server_ok_def)
  have "\<exists>a \<in> {Pass, Leave w}. club_step (club_of sy) a (club_of sy')"
    using members_of(2) [of al w "sv_allowlist (sy_server sy)"] al_remove_effect [OF ok remove(3)] remove
    by (intro leave_step) (auto simp: club_of_def compares_proof_def assms(3))
  moreover have "caused S sy Move (Leave w)" "caused S sy Move Pass" using remove(1,2) by (simp_all add: compares_proof_def)
  ultimately show ?thesis by blast
next
  case (handler rq w env r)
  then show ?thesis
    using run_handler_local [OF assms(1) handler(2)] by (intro pass_step) (auto simp: club_of_def compares_proof_def assms(3))
next
  case rest
  then show ?thesis
    by (intro pass_step) (auto simp: club_of_def compares_proof_def assms(3) split: job.splits phase.splits)
qed (rule pass_step; auto simp: club_of_def compares_proof_def assms(3))+

lemma sys_step_protocol:
  assumes "system_ok dir sy"
  shows "\<exists>a. club_step (club_of sy) a (club_of (snd (sys_step S sy e))) \<and> caused S sy e a"
proof -
  have ok: "server_ok (sy_server sy)" "in_dir dir (sy_server sy)" using assms by (simp_all add: system_ok_def)
  show ?thesis
  proof (cases rule: sys_step_cases [of e S sy])
    case (arrive rq w env)
    then show ?thesis by (intro pass_step) (auto simp: club_of_def compares_proof_def)
  next
    case (move j st)
    from job_step_protocol [OF ok(1) move(2) refl] show ?thesis using move(1,2) by (simp add: sys_step.simps)
  next
    case send
    then show ?thesis by (intro pass_step) (simp_all add: club_of_def compares_proof_def sys_step.simps split: job.splits)
  next
    case (page now rnd p st)
    let ?A = "su_app S"
    obtain pm where st: "st = sy_server sy\<lparr>sv_pairing := pm\<rparr>" "guess_credit pm \<in> {guess_credit (sv_pairing (sy_server sy)), 5}"
      using page(2) payload_offer [of "ap_crypto ?A" rnd now "ap_server_pubkey ?A" "relays (ap_config ?A)" "sv_pairing (sy_server sy)"]
      by (auto simp: current_payload_def split: prod.splits)
    have "club_step (club_of sy) Pass (club_of (snd (sys_step S sy e))) \<or> club_step (club_of sy) Mint (club_of (snd (sys_step S sy e)))"
      using st page by (auto simp: club_step_simps club_of_def)
    moreover have "caused S sy e Pass" "caused S sy e Mint" using page(1) by (simp_all add: compares_proof_def)
    ultimately show ?thesis by blast
  next
    case (revoke io pk u st)
    note eff = revoke_keeps_ok [OF ok revoke(2)]
    have "\<exists>a \<in> {Pass, Leave pk}. club_step (club_of sy) a (club_of (snd (sys_step S sy e)))"
      using members_of(2) [of "sv_allowlist st" pk "sv_allowlist (sy_server sy)"] eff revoke
      by (intro leave_step) (auto simp: club_of_def)
    moreover have "caused S sy e (Leave pk)" "caused S sy e Pass" using revoke(1) by (simp_all add: compares_proof_def)
    ultimately show ?thesis by blast
  next
    case (watch te out r known st)
    from round_keeps [OF watch(2)] watch show ?thesis by (intro pass_step) (auto simp: club_of_def compares_proof_def)
  qed (rule pass_step; simp add: club_of_def compares_proof_def)+
qed

interpretation pairing_protocol: refining_machine "sys_step S" "system_ok dir" club_step club_of "caused S" for S dir
  by unfold_locales (rule sys_step_protocol)

section \<open>Properties\<close>

text \<open>
  C6. The server refines the pairing protocol: under every interleaving, each step of the server is one
  action of the protocol on the members, the guesses left and the candidate, with the cause that the protocol
  asks for: page loads mint secrets, only an HMAC under the live secret proves, and wallets leave by \<open>unpair\<close>
  or revocation.
\<close>

theorem server_refines_pairing_protocol:
  assumes "system_ok dir sy"
  shows "\<exists>as. path club_step (club_of sy) as (club_of (snd (exec (sys_step S) sy es))) \<and> run_caused (sys_step S) (caused S) sy es as"
  by (rule pairing_protocol.run_refines [OF assms])

text \<open>
  C18. Guessing does not pay, over a whole run of the server: the proofs compared with a secret, right or
  wrong, are at most five for each load of the pairing page and those left of the secret at the start,
  whoever sends what in whatever interleaving.
\<close>

fun comparisons :: "('a, 't, 's) installation \<Rightarrow> 's system \<Rightarrow> sys_event list \<Rightarrow> nat" where
  "comparisons S sy [] = 0"
| "comparisons S sy (e # es) = (if compares_proof sy e then 1 else 0) + comparisons S (snd (sys_step S sy e)) es"

lemma caused_compares: "caused S sy e a \<Longrightarrow> compares a \<longleftrightarrow> compares_proof sy e"
  by (cases a) (auto simp: compares_proof_def)

lemma caused_mint: "caused S sy e a \<Longrightarrow> (if a = Mint then 1 else 0) \<le> (if is_page e then 1 else 0 :: nat)"
  by (cases a) auto

lemma caused_run_counts:
  "run_caused (sys_step S) (caused S) sy es as \<Longrightarrow> comparisons S sy es = length (filter compares as) \<and>
     length (filter (\<lambda>a. a = Mint) as) \<le> length (filter is_page es)"
proof (induction "sys_step S" "caused S" sy es as rule: run_caused.induct)
  case (2 sy e es a as)
  then show ?case using caused_compares [of S sy e a] caused_mint [of S sy e a] by (auto split: if_splits)
qed simp_all

theorem guesses_bounded_by_page_loads:
  assumes "system_ok dir sy"
  shows "comparisons S sy es + guess_credit (sv_pairing (sy_server (snd (exec (sys_step S) sy es))))
    \<le> guess_credit (sv_pairing (sy_server sy)) + 5 * length (filter is_page es)"
proof -
  obtain as where "path club_step (club_of sy) as (club_of (snd (exec (sys_step S) sy es)))" "run_caused (sys_step S) (caused S) sy es as"
    using pairing_protocol.run_refines [OF assms] by blast
  with club_run_budget(2) caused_run_counts [of S sy es as] show ?thesis by (fastforce simp: club_of_def)
qed

section \<open>Witnesses\<close>

theorem server_refines_pairing_protocol_witness:
  "\<exists>as. path club_step (club_of sample_system) as
       (club_of (snd (exec (sys_step sample_installation) sample_system [Page 5 [7], Revoke io_fine ''aa'']))) \<and>
     run_caused (sys_step sample_installation) (caused sample_installation) sample_system [Page 5 [7], Revoke io_fine ''aa''] as"
  by (rule server_refines_pairing_protocol [OF sample_system_ok])

theorem guesses_bounded_by_page_loads_witness:
  "comparisons sample_installation sample_system (Arrive sample_rq ''bb'' pair_env # replicate 9 Move) \<le> 5"
proof -
  have c: "guess_credit (sv_pairing (sy_server sample_system)) = 5"
    by (simp add: sample_system_def sample_server_def guess_credit_def)
  have p: "filter is_page (Arrive sample_rq ''bb'' pair_env # replicate 9 Move) = []" by (simp add: filter_empty_conv)
  from guesses_bounded_by_page_loads [OF sample_system_ok, of sample_installation "Arrive sample_rq ''bb'' pair_env # replicate 9 Move"]
  show ?thesis unfolding c p by simp
qed

end
