(* ===== verification/HttpProps.thy ===== *)
theory HttpProps
  imports SystemRuns
begin

text \<open>
  The web interface of \<open>server/src/http.rs\<close> as a whole: what a request of any method, path and body can
  change and what it can learn, and that each is a step of the machine of the whole server, or none.
\<close>

section \<open>Which page is served\<close>

lemma router_distinct [simp]: "distinct (map fst router)"
  by (simp add: router_def)

lemma routed:
  assumes "axum_ok X"
  shows "ax_route X router m p = Inr e \<longleftrightarrow> (\<exists>m'. (p, m', e) \<in> set router \<and> serves m' m)"
  using assms router_distinct unfolding axum_ok_def by blast

lemma router_entries: "(p, m, e) \<in> set router \<longleftrightarrow>
    (case e of Index \<Rightarrow> p = ''/'' \<and> m = GET | PairingJson \<Rightarrow> p = ''/pairing'' \<and> m = GET
     | PairingQr \<Rightarrow> p = ''/qr'' \<and> m = GET | HealthPage \<Rightarrow> p = ''/health'' \<and> m = GET
     | HealthElectrs \<Rightarrow> p = ''/health/electrs'' \<and> m = GET | RevokeWallet \<Rightarrow> p = ''/revoke'' \<and> m = POST)"
  by (cases e) (auto simp: router_def)

lemma served_path:
  "axum_ok X \<Longrightarrow> ax_route X router m p = Inr PairingJson \<Longrightarrow> p = ''/pairing''"
  "axum_ok X \<Longrightarrow> ax_route X router m p = Inr PairingQr \<Longrightarrow> p = ''/qr''"
  "axum_ok X \<Longrightarrow> ax_route X router m p = Inr HealthElectrs \<Longrightarrow> p = ''/health/electrs''"
  "axum_ok X \<Longrightarrow> ax_route X router m p = Inr RevokeWallet \<Longrightarrow> p = ''/revoke'' \<and> m = POST"
  by (auto simp: routed router_entries serves_def)

text \<open>The start page shows nothing of the pairing secret.\<close>

lemma index_page_public [simp]: "index_page A (st\<lparr>sv_pairing := pm\<rparr>) = index_page A st"
  unfolding index_page_def by simp

lemma http_cases [consumes 1, case_names page pairing image check revoke]:
  assumes "http_serve X A he hq st = (r, st')"
  obtains "st' = st" "\<forall>pm. fst (http_serve X A he hq (st\<lparr>sv_pairing := pm\<rparr>)) = r"
  | "ax_route X router (hq_method hq) (hq_path hq) = Inr PairingJson"
      "snd (current_payload A (he_now he) (he_rnd he) st) = st'"
  | "ax_route X router (hq_method hq) (hq_path hq) = Inr PairingQr"
      "snd (current_payload A (he_now he) (he_rnd he) st) = st'"
  | b where "ax_route X router (hq_method hq) (hq_path hq) = Inr HealthElectrs" "st' = st\<lparr>sv_backend := b\<rparr>"
      "\<forall>pm. fst (http_serve X A he hq (st\<lparr>sv_pairing := pm\<rparr>)) = r"
  | pk u where "ax_route X router (hq_method hq) (hq_path hq) = Inr RevokeWallet" "ax_form X (hq_body hq) = Inr pk"
      "revoke_wallet A (he_io he) pk st = (u, st')" "\<forall>pm. fst (http_serve X A he hq (st\<lparr>sv_pairing := pm\<rparr>)) = r"
proof (cases "ax_route X router (hq_method hq) (hq_path hq)")
  case (Inl code)
  then show thesis using that(1) assms by (simp add: http_serve_def)
next
  case (Inr e)
  show thesis
  proof (cases e)
    case Index
    then show ?thesis using that(1) assms Inr by (auto simp: http_serve_def)
  next
    case PairingJson
    then show ?thesis using that(2) assms Inr by (auto simp: http_serve_def pairing_json_def split: prod.splits)
  next
    case PairingQr
    then show ?thesis
      using that(3) assms Inr by (auto simp: http_serve_def pairing_qr_svg_def split: prod.splits option.splits)
  next
    case HealthPage
    then show ?thesis using that(1) assms Inr by (simp add: http_serve_def)
  next
    case HealthElectrs
    obtain x b where "ap_preflight A (sv_backend st) = (x, b)" by fastforce
    then show ?thesis using that(4) [of b] assms Inr HealthElectrs
      by (cases x) (auto simp: http_serve_def health_electrs_def)
  next
    case RevokeWallet
    show ?thesis
    proof (cases "ax_form X (hq_body hq)")
      case (Inl code)
      then show ?thesis using that(1) assms Inr RevokeWallet by (simp add: http_serve_def)
    next
      case (Inr pk)
      obtain u st1 where "revoke_wallet A (he_io he) pk st = (u, st1)" by fastforce
      then show ?thesis
        using that(5) [of pk u] assms Inr \<open>ax_route X router (hq_method hq) (hq_path hq) = Inr e\<close> RevokeWallet
        by (auto simp: http_serve_def revoke_wallet_def split: prod.splits)
    qed
  qed
qed

section \<open>Properties\<close>

text \<open>
  C13. What the unauthenticated web interface can do. No request admits a wallet; a wallet is taken off
  only by a \<open>POST\<close> to \<open>/revoke\<close> whose form names it, and then no other is touched; the pairing secret changes, and
  a reply depends on it, only under \<open>/pairing\<close> and \<open>/qr\<close>; the node is asked only under \<open>/health/electrs\<close>; and
  no request touches the watch sets, the replay cache or the rate limiter.
\<close>

theorem web_interface_effects:
  assumes "axum_ok X" "al_ok (sv_allowlist st)" "http_serve X A he hq st = (r, st')"
  shows "sv_watch st' = sv_watch st \<and> sv_replay st' = sv_replay st \<and> sv_ratelimit st' = sv_ratelimit st \<and>
    (sv_backend st' = sv_backend st \<or> hq_path hq = ''/health/electrs'') \<and>
    ((\<forall>q. is_paired (sv_allowlist st') q \<longleftrightarrow> is_paired (sv_allowlist st) q) \<and> sv_fs st' = sv_fs st \<or>
     hq_method hq = POST \<and> hq_path hq = ''/revoke'' \<and>
       (\<exists>pk. ax_form X (hq_body hq) = Inr pk \<and>
         (\<forall>q. is_paired (sv_allowlist st') q \<longleftrightarrow> q \<noteq> pk \<and> is_paired (sv_allowlist st) q))) \<and>
    (hq_path hq \<in> {''/pairing'', ''/qr''} \<or>
     sv_pairing st' = sv_pairing st \<and> (\<forall>pm. fst (http_serve X A he hq (st\<lparr>sv_pairing := pm\<rparr>)) = r))"
  using assms(3)
proof (cases rule: http_cases)
  case pairing
  then show ?thesis using served_path(1) [OF assms(1)] by (auto simp: current_payload_def split: prod.splits)
next
  case image
  then show ?thesis using served_path(2) [OF assms(1)] by (auto simp: current_payload_def split: prod.splits)
next
  case (check b)
  then show ?thesis using served_path(3) [OF assms(1)] by auto
next
  case (revoke pk u)
  obtain x al d where rm: "al_remove (ap_al_codec A) (he_io he) pk (sv_allowlist st) (sv_fs st) = (x, al, d)"
    by (metis prod_cases3)
  then have st': "st' = st\<lparr>sv_allowlist := al, sv_fs := d\<rparr>" using revoke(3) by (simp add: revoke_wallet_def)
  from al_remove_effect [OF assms(2) rm] served_path(4) [OF assms(1) revoke(1)] revoke(2,4) show ?thesis
    by (auto simp: st')
qed (use served_path in auto)

text \<open>
  A request to the web interface is one step of the machine of the whole server, or changes nothing;
  so what holds of the machine's runs holds with any web requests in between.
\<close>

definition web_event :: "axum \<Rightarrow> http_env \<Rightarrow> http_req \<Rightarrow> sys_event option" where
  "web_event X he hq =
     (case ax_route X router (hq_method hq) (hq_path hq) of
        Inl code \<Rightarrow> None
      | Inr Index \<Rightarrow> Some Visit
      | Inr HealthPage \<Rightarrow> None
      | Inr HealthElectrs \<Rightarrow> Some Check
      | Inr RevokeWallet \<Rightarrow>
          (case ax_form X (hq_body hq) of Inl code \<Rightarrow> None | Inr pk \<Rightarrow> Some (Revoke (he_io he) pk))
      | Inr _ \<Rightarrow> Some (Page (he_now he) (he_rnd he)))"

theorem web_requests_are_steps:
  "sy\<lparr>sy_server := snd (http_serve X (su_app S) he hq (sy_server sy))\<rparr> =
    (case web_event X he hq of None \<Rightarrow> sy | Some e \<Rightarrow> snd (sys_step S sy e))"
  by (simp add: http_serve_def web_event_def sys_step.simps pairing_json_def pairing_qr_svg_def
      split: sum.split endpoint.split prod.split option.split)

section \<open>Witnesses\<close>

definition toy_axum :: axum where
  "toy_axum =
     \<lparr>ax_route = (\<lambda>table m p. case map_of table p of
        None \<Rightarrow> Inl 404
      | Some (m', e) \<Rightarrow> if serves m' m then Inr e else Inl 405),
      ax_form = (\<lambda>body. case map_of [(''pubkey=aa'', ''aa'')] body of None \<Rightarrow> Inl 422 | Some pk \<Rightarrow> Inr pk)\<rparr>"

lemma toy_axum_ok: "axum_ok toy_axum"
  unfolding axum_ok_def
proof (intro allI impI)
  fix table :: "(string \<times> http_method \<times> endpoint) list" and m p e
  assume d: "distinct (map fst table)"
  have entry: "(p, m', e) \<in> set table \<longleftrightarrow> map_of table p = Some (m', e)" for m'
    by (rule map_of_eq_Some_iff [OF d, symmetric])
  show "ax_route toy_axum table m p = Inr e \<longleftrightarrow> (\<exists>m'. (p, m', e) \<in> set table \<and> serves m' m)"
    unfolding entry by (cases "map_of table p") (auto simp: toy_axum_def split: if_splits)
qed

theorem web_interface_effects_witness:
  "\<not> is_paired (sv_allowlist (snd (http_serve toy_axum (su_app sample_installation)
     \<lparr>he_now = 5, he_rnd = [7], he_io = io_fine, he_draw = (\<lambda>_. None)\<rparr>
     \<lparr>hq_method = POST, hq_path = ''/revoke'', hq_body = ''pubkey=aa''\<rparr> (sample_server (100 :: usize))))) ''bb''"
proof -
  let ?he = "\<lparr>he_now = 5, he_rnd = [7], he_io = io_fine, he_draw = (\<lambda>_. None)\<rparr>"
  let ?hq = "\<lparr>hq_method = POST, hq_path = ''/revoke'', hq_body = ''pubkey=aa''\<rparr>"
  have ok: "al_ok (sv_allowlist (sample_server (100 :: usize)))" using sample_server_ok [of "100 :: usize"] by (simp add: server_ok_def)
  have n: "\<not> is_paired (sv_allowlist (sample_server (100 :: usize))) ''bb''"
    by (simp add: sample_server_def sample_al_def is_paired_def)
  obtain r st where h: "http_serve toy_axum (su_app sample_installation) ?he ?hq (sample_server 100) = (r, st)" by fastforce
  from web_interface_effects [OF toy_axum_ok ok h] n h show ?thesis by auto
qed

end
