(* ===== verification/Spec2Isabelle.thy ===== *)
theory Spec2Isabelle
  imports Isolation WatcherRuns GateTurns Delivery TransportTests Progress PairingSpec HttpProps SystemRuns ClientProps Protocol Config Stores Replay RateLimit Pairing Electrs GateProps Float64 Http Identity
begin

text \<open>
  Nomad Server (\<open>server/\<close>) is a private bridge between Bitcoin wallets and the owner's own node. Wallets
  talk to it over Nostr relays in gift-wrapped events; it answers from the node's Electrum server and
  notifies wallets of new transactions on the addresses they watch. This development models the Rust
  server by hand-translated definitions (a shallow embedding) and proves what makes it correct.

  \<^bold>\<open>Parts and theories.\<close> Every theory names the source file it models in its own opening text.
  \<^item> \<^theory_text>\<open>Prelude\<close>: words, ordered and hashed tables of the standard library, results, runs of a
    machine, and the locales \<open>stable_machine\<close> and \<open>stable_relation\<close> (an invariant that every step keeps),
    \<open>budget_machine\<close> (a credit that pays for costs), \<open>driven_machine\<close> (a rank that some events lower) and
    \<open>refining_machine\<close> (steps that are actions of an abstract protocol), which several components and the whole
    server interpret.
  \<^item> \<^theory_text>\<open>Storage\<close>: a file system with system calls that can fail or be cut short, the two ways of
    writing a file (\<open>write_json_atomic\<close> of \<open>store.rs\<close>; the best-effort write of \<open>replay.rs\<close> and
    \<open>watcher.rs\<close>) and loading; the locale \<open>durable_store\<close> is interpreted on both.
  \<^item> \<^theory_text>\<open>Json\<close>, \<^theory_text>\<open>Float64\<close>: the values of \<open>serde_json\<close> and the IEEE arithmetic the code uses.
  \<^item> \<^theory_text>\<open>Config\<close> (\<open>config.rs\<close>), \<^theory_text>\<open>Protocol\<close> (\<open>protocol.rs\<close>), \<^theory_text>\<open>Stores\<close> (\<open>store.rs\<close>, with the locale
    \<open>registry\<close>), \<^theory_text>\<open>Replay\<close> (\<open>replay.rs\<close>), \<^theory_text>\<open>RateLimit\<close> (\<open>ratelimit.rs\<close>), \<^theory_text>\<open>Pairing\<close>
    (\<open>pairing.rs\<close>), \<^theory_text>\<open>Identity\<close> (\<open>identity.rs\<close>): one component each, with its properties.
  \<^item> \<^theory_text>\<open>Electrs\<close> (\<open>electrs.rs\<close>): the adapter to the node with its gate, spacing, timeout and circuit
    breaker as one call at a time; the locale \<open>chain_backend\<close> is the contract the handlers rely on.
  \<^item> \<^theory_text>\<open>Gate\<close>, \<^theory_text>\<open>GateProps\<close>, \<^theory_text>\<open>GateTurns\<close> (\<open>Electrs::call\<close>): the same function under concurrent
    callers, a step relation whose steps run between two awaits; the sequential one refines it. \<^theory_text>\<open>GateTurns\<close>
    bounds the waiting in every run whose timers fire on time (\<open>prompt_step\<close>).
  \<^item> \<^theory_text>\<open>Handlers\<close>, \<^theory_text>\<open>HandlerProps\<close> (\<open>handlers.rs\<close>): the eight request handlers and their properties.
  \<^item> \<^theory_text>\<open>Watcher\<close>, \<^theory_text>\<open>WatcherProps\<close>, \<^theory_text>\<open>WatcherRuns\<close> (\<open>watcher.rs\<close>): a tick of the watcher, what it observes
    and sends, and the notifications over a run of ticks.
  \<^item> \<^theory_text>\<open>Transport\<close>, \<^theory_text>\<open>TransportProps\<close> (\<open>transport.rs\<close>): from a received event to the response.
  \<^item> \<^theory_text>\<open>Http\<close>, \<^theory_text>\<open>HttpProps\<close> (\<open>http.rs\<close>): the LAN web pages with their table of routes, what a request can
    change and learn, and that each is at most one step of the whole server.
  \<^item> \<^theory_text>\<open>Relay\<close>: what travels over the relays, the loop of \<open>Transport::run\<close> and the wrapping of responses and
    notifications; \<^theory_text>\<open>SampleText\<close> has concrete functions for its parameters, for witnesses only.
  \<^item> \<^theory_text>\<open>Client\<close>, \<^theory_text>\<open>ClientProps\<close> (\<open>examples/pair_client.rs\<close>, \<open>examples/notify_probe.rs\<close>): the wallet's side,
    and wallet and server together: the pairing end to end, the matching of answers, the retries.
  \<^item> \<^theory_text>\<open>System\<close>, \<^theory_text>\<open>SystemProps\<close>, \<^theory_text>\<open>SystemRuns\<close> (\<open>main.rs\<close>): the boot sequence and the whole server as one machine over
    the state the tasks share. A step is one access of one task to it (the transport's request, the
    watcher's round, a page load, a health check, a revocation), a run any interleaving of steps; the
    properties that span components are below, the first two of them tying the steps to \<open>route\<close> and \<open>tick\<close>.
  \<^item> \<^theory_text>\<open>Progress\<close> (\<open>main.rs\<close>): no task ends in a panic, every request and every round completes; the locale
    \<open>driven_machine\<close> of \<^theory_text>\<open>Prelude\<close> is interpreted on the transport and on the watcher.
  \<^item> \<^theory_text>\<open>PairingSpec\<close>: an abstract pairing protocol (who is a member, how many guesses are left, who proved the
    secret) and the whole server as a refinement of it, step by step.
  \<^item> \<^theory_text>\<open>Files\<close>, \<^theory_text>\<open>Restart\<close> (\<open>main.rs\<close>, \<open>store.rs\<close>): the data directory over a run of the whole server. Its
    files stay readable whatever fails, so the server always starts again; and while the writes work, what
    it loads then is what it had in memory.
  \<^item> \<^theory_text>\<open>Isolation\<close> (\<open>Transport::route\<close>): what the answers show, and that they show nothing of other wallets.
  \<^item> \<^theory_text>\<open>Delivery\<close> (\<open>Transport::run\<close>): the relays, the subscription and its backfill, a request that arrives
    twice, and one that comes back after its id was forgotten.
  \<^item> \<^theory_text>\<open>UnitTests\<close>, \<^theory_text>\<open>TransportTests\<close>: the unit tests of the source files, translated with their assertions
    and proved for all libraries that keep their laws.

  \<^bold>\<open>How state and operations correspond.\<close> A struct is a record, an enum a datatype; a method on shared
  state (behind \<open>Arc\<close> and \<open>Mutex\<close>) is a function from the state to the result and the new state. The
  record \<open>server\<close> holds what the tasks share: allowlist, watch sets, pairing secret, replay cache, rate
  limiter, the files and the state of the node adapter. \<open>u8\<close> to \<open>u64\<close> are words that wrap, as in the
  release build; \<open>usize\<close> has 64 bits. A \<open>Result\<close> is a sum with the error on the left; a panic is the value
  \<open>Panic\<close> of type \<open>run\<close>. A \<open>String\<close> is the list of its bytes. A \<open>BTreeMap\<close> or \<open>BTreeSet\<close> is its sorted list of
  entries; a \<open>HashMap\<close> is a list of entries with distinct keys whose iteration order is a parameter.

  \<^bold>\<open>Parameters.\<close> Code that is not in the repository is an argument: HMAC, hexadecimal and base64url coding,
  JSON text, UUID syntax, gift wraps, address, transaction and key parsing, axum, the Electrum client, the clock,
  the random generator, what the relays deliver, and the outcome of every system call. The laws relied on
  are named hypotheses (\<open>codec_ok\<close>, \<open>typed_codec\<close>, \<open>total_codec\<close>, \<open>codecs_ok\<close>, \<open>crypto_ok\<close>, \<open>key_lib_ok\<close>,
  \<open>order_ok\<close>, \<open>runtime_ok\<close>, \<open>nostr_ok\<close>, \<open>text_ok\<close>, \<open>request_text_ok\<close>, \<open>axum_ok\<close>,
  \<open>iter_ok\<close>, \<open>batch_exact\<close>, \<open>batches_exact\<close>, and in the translated tests \<open>reads_texts\<close>, \<open>prints_compact\<close> and
  \<open>knows_addresses\<close>), each with a concrete instance in a witness. Of what a file decodes to they say only what
  its Rust type says: a \<open>BTreeMap\<close> is sorted without duplicates, its values are arbitrary (a watch set may be empty).

  \<^bold>\<open>What the lemmas show.\<close> Safety of the pairing protocol (who gets on the allowlist, how often a secret can
  be used or guessed; a refinement of an abstract specification), at-most-once execution, isolation of
  wallets, crash safety and durability of the stores, the answers of every handler against reference definitions, the exactness of the
  floating-point rate limiter and fee conversion, what the watcher observes and notifies, tick by tick and over
  a run, the gate of the node adapter under concurrency and its fairness; over interleaved runs of the whole server from boot, its invariant, the growth
  of the allowlist, the provenance of every pairing, the stability of the server's identity, what a restart
  finds, that every request and round completes; what the web interface can do; that wallet and server
  understand each other; and that every unit test passes.

  \<^bold>\<open>Bounds.\<close> No definition uses fuel: every loop of the source runs over a list. The limits of the source
  (200 and 5000 addresses, 25 transactions, 200000 hexadecimal digits, 256 KiB, ten days, five attempts,
  ten tokens) are the source's constants. A theorem that assumes sums or times to stay below the width of
  their word says so.

  \<^bold>\<open>Not modelled.\<close> The relays themselves and the waiting for them, the expiration tag of gift wraps and the
  outcome of their publishing (nostr-sdk), the drawing of QR codes (qrcode), sockets, logging, and the timing of
  the constant-time comparison. In the machine of the whole server a handler is one step: what it shares with other tasks is the adapter, whose interleaving the
  theory \<open>Gate\<close> treats, and it ends with its one access to the watch sets. A scan of the watcher is one
  step for the same reason. Boot is one step too: requests can arrive before the watcher's state is loaded, but the
  transport does not touch the watcher's file, so what is loaded is the same (\<open>late_watcher_same\<close>); only a
  load that fails then, and ends the process, comes before those requests in the model.
  The Kotlin wallet and the Python test double are left out: they are other programs in other languages.
\<close>

section \<open>Properties of the whole server\<close>

text \<open>
  C15. The steps of a request are \<open>route\<close>: if nothing comes between them, the arrival of a request at an idle
  transport, five steps of the transport and the sending put out exactly the response that \<open>route\<close>
  returns, if any, and leave exactly its state; so what \<open>TransportProps\<close> proves of \<open>route\<close> holds of the
  steps.
\<close>

theorem uninterrupted_request_is_route:
  assumes "sy_job sy = Idle" "route (su_transport S) rq w env (sy_server sy) = (r, st')"
  shows "exec (sys_step S) sy (Arrive rq w env # replicate 5 Move @ [Send]) =
    (replicate 6 Quiet @ [case r of Ret (Some x) \<Rightarrow> Response w x | _ \<Rightarrow> Quiet],
     sy\<lparr>sy_job := (case r of Panic \<Rightarrow> Dead | Ret _ \<Rightarrow> Idle), sy_server := st'\<rparr>)"
  using exec_request [OF assms] .

text \<open>
  C24. The steps of a watcher round are \<open>tick\<close>: when nothing else happens, enough steps of the watcher take it
  from rest through a whole round with exactly the notifications, the known transactions and the files of
  \<open>tick\<close>, and back to rest unless it panicked.
\<close>

theorem uninterrupted_round_is_tick:
  assumes "sy_round sy = Resting"
    and "tick (su_watcher S) (te\<lparr>te_paired := is_paired (sv_allowlist (sy_server sy))\<rparr>) (ws_snapshot (sv_watch (sy_server sy)))
      (sy_known sy, sv_fs (sy_server sy), sv_backend (sy_server sy)) = ((r, out), known', d, b)"
  shows "\<exists>n os. concat os = out \<and> exec (sys_step S) sy (replicate n (Watch te)) =
    (map Notes os, sy\<lparr>sy_round := (case r of Panic \<Rightarrow> Stopped | Ret _ \<Rightarrow> Resting), sy_known := known',
       sy_server := (sy_server sy)\<lparr>sv_fs := d, sv_backend := b\<rparr>\<rparr>)"
proof -
  from tick_steps [OF refl assms(2)] obtain n os where
    e: "exec (\<lambda>s te. round_step (su_watcher S) te s) (sy_round sy, sy_known sy, sy_server sy) (replicate n te) =
      (os, case r of Panic \<Rightarrow> Stopped | Ret _ \<Rightarrow> Resting, known', (sy_server sy)\<lparr>sv_fs := d, sv_backend := b\<rparr>)"
      "concat os = out" using assms(1) by auto
  from exec_watches [OF e(1)] e(2) show ?thesis by (simp add: map_replicate) blast
qed

text \<open>
  C16. From boot on, every interleaving of the steps of requests, page loads, revocations and the watcher
  keeps the invariant of the whole server: the three stores are ordered without duplicates and write to
  their own files in the data directory, a stored pairing secret has
  attempts left, and every token bucket is within its capacity.
\<close>

theorem every_run_keeps_invariant:
  assumes "boot lb var idio io fresh w dd = Inr (S, sy)"
    and "typed_codec bts_ok (lb_al_codec lb)" "typed_codec btm_ok (lb_ws_codec lb)"
      "typed_codec btm_ok (lb_rc_codec lb)"
  shows "\<exists>cfg. from_env var = Inr cfg \<and> system_ok (data_dir cfg) (snd (exec (sys_step S) sy es))"
  using boot_ok [OF assms] system.run_good by blast

text \<open>
  C17. Only an owner's page load admits a wallet: after any run from boot, the allowlist is longer than
  the one on disk by at most the number of pairing secrets generated in between, and that is at most
  the number of times the pairing page was loaded, whatever requests arrive and however the steps
  interleave.
\<close>

theorem wallets_bounded_by_page_loads:
  assumes "boot lb var idio io fresh w dd = Inr (S, sy)"
    and "typed_codec bts_ok (lb_al_codec lb)" "typed_codec btm_ok (lb_ws_codec lb)"
      "typed_codec btm_ok (lb_rc_codec lb)"
  shows "length (al_list (sv_allowlist (sy_server (snd (exec (sys_step S) sy es)))))
      \<le> length (al_list (sv_allowlist (sy_server sy))) + gains (sys_step S) page_gain sy es \<and>
    gains (sys_step S) page_gain sy es \<le> length (filter is_page es)"
proof -
  obtain cfg :: config where ok: "system_ok (data_dir cfg) sy"
    and none: "sv_pairing (sy_server sy) = None" "sy_job sy = Idle"
    using boot_ok [OF assms] by blast
  from pairing_budget.run_paid [OF ok, of S es] none gains_pages [of S sy es] show ?thesis
    by (simp add: pair_credit_def unused_credit_def pending_def)
qed

text \<open>
  C1. No way in but the pairing proof: if a wallet is on the allowlist after a run that began with an idle
  transport, and was not before, then the run contains the arrival of a \<open>pair\<close> request of that very wallet
  and later a step that found in it the HMAC of the wallet's key under the server's unused and unexpired
  secret. In particular a wallet that the owner revoked stays out until it proves a secret again.
\<close>

theorem joined_only_by_proof:
  assumes "system_ok dir sy" "sy_job sy = Idle" "\<not> is_paired (sv_allowlist (sy_server sy)) w"
    and "is_paired (sv_allowlist (sy_server (snd (exec (sys_step S) sy es)))) w"
  shows "\<exists>es1 es2 rq env s. es = es1 @ Move # es2 \<and> Arrive rq w env \<in> set es1 \<and> msg_type env = ''pair'' \<and>
    sv_pairing (sy_server (snd (exec (sys_step S) sy es1))) = Some s \<and> \<not> used s \<and> rq_now rq < expires_at s \<and>
    hex_decode (tr_crypto (su_transport S)) (pair_proof env) =
      Some (hmac_sha256 (tr_crypto (su_transport S)) (secret s) (as_bytes w))"
  using run_membership [OF assms] unfolding proving_def by blast

text \<open>
  C19. Handlers serve wallets only: whenever the transport is about to run a handler (or \<open>unpair\<close>) for a
  request, the request arrived and a later step found its sender on the allowlist. The owner's revocation may
  come between the two; it then takes effect for the next request.
\<close>

theorem served_only_if_paired:
  assumes "sy_job sy = Idle" "sy_job (snd (exec (sys_step S) sy es)) = Busy Trusted rq w env"
  shows "\<exists>es1 es2. es = es1 @ Move # es2 \<and> Arrive rq w env \<in> set es1 \<and>
    is_paired (sv_allowlist (sy_server (snd (exec (sys_step S) sy es1)))) w"
  using run_trusted [OF assms] run_arrived [OF assms(1)] by blast

text \<open>
  C25. Notifications go to wallets only: if a step of the watcher sends a notification, the watcher had seen
  the wallet it goes to on the allowlist in an earlier step, and had observed it before.
\<close>

theorem notified_only_if_paired:
  assumes "sy_round sy = Resting" "sys_step S (snd (exec (sys_step S) sy es)) (Watch te) = (Notes out, sy')" "n \<in> set out"
  shows "\<exists>w es1 te1 es2. w_from_hex (su_watcher S) w = Some (nt_wallet n) \<and> es = es1 @ Watch te1 # es2 \<and>
    is_paired (sv_allowlist (sy_server (snd (exec (sys_step S) sy es1)))) w \<and>
    map_of (sy_known (snd (exec (sys_step S) sy es))) w \<noteq> None"
  using notes_scanned [OF assms(2,3)] run_scans [OF assms(1)] by metis

text \<open>
  C2. A request is executed at most once, under every interleaving: after a request was accepted, and after
  any further run whose requests arrive within the ten days of retention, a request with the same id, from
  whatever sender and with whatever content, is dropped at its first step; that step changes neither the
  allowlist, nor the watch sets, nor the pairing secret, nor a token bucket, nor the adapter.
\<close>

theorem executed_at_most_once:
  assumes "system_ok dir sy" "sy_job sy = Busy Received rq w env" "sy1 = snd (sys_step S sy Move)"
    and "sy_job sy1 = Busy Accepted rq w env"
    and "list_all (event_in_window (rq_now rq)) es" "sy2 = snd (exec (sys_step S) sy1 es)"
    and "sy_job sy2 = Busy Received rq' w' env'" "env_id env' = env_id env"
  shows "\<exists>rc d. snd (sys_step S sy2 Move) =
    sy2\<lparr>sy_job := Idle, sy_server := (sy_server sy2)\<lparr>sv_replay := rc, sv_fs := d\<rparr>\<rparr>"
proof -
  have "job_step (su_transport S) (Busy Received rq w env, sy_server sy) = (Busy Accepted rq w env, sy_server sy1)"
    using assms(2-4) by (auto simp: sys_step.simps split: prod.splits if_splits)
  from accepted_has_id [OF _ this] assms(1) have "has_id (sv_replay (sy_server sy1)) (env_id env) (rq_now rq)"
    by (simp add: system_ok_def)
  moreover have "system_ok dir sy1" unfolding assms(3) by (rule sys_step_ok [OF assms(1)])
  ultimately have "keeps_id dir (env_id env) (rq_now rq) sy1" using assms(4) by (simp add: keeps_id_def)
  from run_keeps_id [OF this assms(5), of S] assms(6-8)
  have id: "has_id (sv_replay (sy_server sy2)) (env_id env') (rq_now rq)" "unat (rq_now rq') - unat (rq_now rq) < 864000"
    by (simp_all add: keeps_id_def)
  obtain j' st' where j: "job_step (su_transport S) (Busy Received rq' w' env', sy_server sy2) = (j', st')" by fastforce
  note dropped = known_id_dropped [OF id j]
  have "snd (sys_step S sy2 Move) = sy2\<lparr>sy_job := j', sy_server := st'\<rparr>"
    using j assms(7) by (simp add: sys_step.simps)
  with dropped show ?thesis by (metis)
qed

text \<open>
  C34. The server keeps its identity: boot, any run, and any later boot over the files that the run left
  present the same public key, whatever fresh keys the random generator would have given; no request,
  page load, revocation or watcher tick touches the key file.
\<close>

theorem identity_survives_restarts:
  assumes "boot lb var idio io fresh w (dirs, d) = Inr (S, sy)"
    and "key_lib_ok (lb_keys lb)"
    and "boot lb var idio2 io2 fresh2 w2 (dirs2, sv_fs (sy_server (snd (exec (sys_step S) sy es)))) = Inr (S2, sy2)"
  shows "ap_server_pubkey (su_app S2) = ap_server_pubkey (su_app S)"
proof -
  let ?d = "sv_fs (sy_server (snd (exec (sys_step S) sy es)))"
  obtain cfg :: config where cfg: "from_env var = Inr cfg" "in_dir (data_dir cfg) (sy_server sy)"
      "w_state_path (su_watcher S) = (data_dir cfg, STATE_FILE)"
    using boot_paths [OF assms(1)] by blast
  obtain k dirs' where k: "ap_server_pubkey (su_app S) = lb_pubkey_hex lb k"
      "load_or_create (lb_keys lb) idio (data_dir cfg) fresh (dirs, d) = (Inr k, dirs', sv_fs (sy_server sy))"
    using boot_keys [OF assms(1)] cfg(1) by auto
  obtain k2 dirs3 where k2: "ap_server_pubkey (su_app S2) = lb_pubkey_hex lb k2"
      "load_or_create (lb_keys lb) idio2 (data_dir cfg) fresh2 (dirs2, ?d) = (Inr k2, dirs3, sv_fs (sy_server sy2))"
    using boot_keys [OF assms(3)] cfg(1) by auto
  obtain s m where f: "sv_fs (sy_server sy) (data_dir cfg, KEY_FILE) = Some \<lparr>content = s, mode = m\<rparr>"
      "kl_parse (lb_keys lb) (str_trim s) = Some k"
    using key_file_holds [OF assms(2) k(2)] by blast
  have "?d (data_dir cfg, KEY_FILE) = sv_fs (sy_server sy) (data_dir cfg, KEY_FILE)"
    by (rule run_frame [OF cfg(3) _ cfg(2)]) (rule key_file_not_a_store)
  with key_file_read [OF _ f(2) k2(2)] f(1) have "k2 = k" by simp
  then show ?thesis using k(1) k2(1) by simp
qed

section \<open>Witnesses\<close>

theorem every_run_keeps_invariant_witness:
  "\<exists>S sy. boot sample_libs Map.empty id_fine io_fine True 7 (Map.empty, Map.empty) = Inr (S, sy) \<and>
     (\<exists>cfg. from_env Map.empty = Inr cfg \<and>
       system_ok (data_dir cfg) (snd (exec (sys_step S) sy [Arrive sample_rq ''bb'' pair_env, Move, Page 5 [7], Move, Revoke io_fine ''aa'', Move])))"
proof -
  obtain S sy where b: "boot sample_libs Map.empty id_fine io_fine True 7 (Map.empty, Map.empty) = Inr (S, sy)"
    by (rule sample_boot)
  from b every_run_keeps_invariant [OF b sample_libs_codecs] show ?thesis by blast
qed

theorem wallets_bounded_by_page_loads_witness:
  "\<exists>S sy. boot sample_libs Map.empty id_fine io_fine True 7 (Map.empty, Map.empty) = Inr (S, sy) \<and>
     length (al_list (sv_allowlist (sy_server (snd (exec (sys_step S) sy [Arrive sample_rq ''bb'' pair_env, Move, Page 5 [7], Move]))))) \<le> 1"
proof -
  obtain S sy where b: "boot sample_libs Map.empty id_fine io_fine True 7 (Map.empty, Map.empty) = Inr (S, sy)"
      "al_list (sv_allowlist (sy_server sy)) = []"
    by (rule sample_boot)
  note w = wallets_bounded_by_page_loads [OF b(1) sample_libs_codecs, of "[Arrive sample_rq ''bb'' pair_env, Move, Page 5 [7], Move]"]
  from w b show ?thesis by (auto simp del: exec.simps)
qed

theorem uninterrupted_request_is_route_witness:
  "fst (exec (sys_step sample_installation) sample_system
      (Arrive sample_rq ''evil'' (sample_env ''ping'' JNull) # replicate 5 Move @ [Send])) =
    replicate 6 Quiet @ [Response ''evil'' (response_err ''nope'' NotPaired ''not paired'')]"
proof -
  let ?T = "su_transport sample_installation" and ?env = "sample_env ''ping'' JNull" and ?st = "sample_server 100 :: usize server"
  have i: "sy_job sample_system = Idle" by (simp add: sample_system_def)
  obtain r st where r: "route ?T sample_rq ''evil'' ?env (sy_server sample_system) = (r, st)" by fastforce
  have e: "env_id ?env = ''nope''" "msg_type ?env = ''ping''" "sy_server sample_system = ?st"
      "\<not> is_paired (sv_allowlist ?st) ''evil''"
    by (simp_all add: sample_env_def sample_system_def sample_server_def is_paired_def sample_al_def)
  obtain rc d rl where m: "job_step ?T (Busy Received sample_rq ''evil'' ?env, ?st) =
      (Busy Accepted sample_rq ''evil'' ?env, ?st\<lparr>sv_replay := rc, sv_fs := d\<rparr>)"
      "job_step ?T (Busy Accepted sample_rq ''evil'' ?env, ?st\<lparr>sv_replay := rc, sv_fs := d\<rparr>) =
        (Busy Admitted sample_rq ''evil'' ?env, ?st\<lparr>sv_replay := rc, sv_fs := d, sv_ratelimit := rl\<rparr>)"
    by (rule sample_admitted [OF e(1)])
  have "fst ((job_step ?T ^^ 5) (Busy Received sample_rq ''evil'' ?env, ?st)) =
      Replying ''evil'' (response_err ''nope'' NotPaired ''not paired'')"
    using e by (simp add: eval_nat_numeral m del: job_step.simps(1,2))
  then have "r = Ret (Some (response_err ''nope'' NotPaired ''not paired''))"
    using r e(3) by (auto simp: request_steps split: run.splits option.splits)
  with uninterrupted_request_is_route [OF i r] show ?thesis by simp
qed

theorem uninterrupted_round_is_tick_witness:
  "\<exists>n. sy_round (snd (exec (sys_step sample_installation) (sample_system\<lparr>sy_server := (sample_server 100)\<lparr>sv_watch := sample_ws\<lparr>ws_sets := []\<rparr>\<rparr>\<rparr>)
     (replicate n (Watch sample_te)))) = Resting"
proof -
  let ?st = "(sample_server 100)\<lparr>sv_watch := sample_ws\<lparr>ws_sets := []\<rparr>\<rparr>" and ?S = sample_installation
  let ?sy = "sample_system\<lparr>sy_server := ?st\<rparr>"
  have i: "sy_round ?sy = Resting" by (simp add: sample_system_def)
  obtain out known d b where t: "tick (su_watcher ?S) (sample_te\<lparr>te_paired := is_paired (sv_allowlist (sy_server ?sy))\<rparr>)
      (ws_snapshot (sv_watch (sy_server ?sy))) (sy_known ?sy, sv_fs (sy_server ?sy), sv_backend (sy_server ?sy)) =
      ((Ret (), out), known, d, b)"
    by (simp add: tick_def ws_snapshot_def Let_def)
  from uninterrupted_round_is_tick [OF i t] obtain n os where
    e: "exec (sys_step ?S) ?sy (replicate n (Watch sample_te)) =
      (map Notes os, ?sy\<lparr>sy_round := Resting, sy_known := known, sy_server := ?st\<lparr>sv_fs := d, sv_backend := b\<rparr>\<rparr>)" by auto
  show ?thesis by (rule exI [of _ n]) (simp only: e snd_conv, simp)
qed

theorem joined_only_by_proof_witness:
  "\<exists>s. sv_pairing (sample_server (100 :: usize)) = Some s \<and> \<not> used s"
proof -
  let ?S = "sample_installation" and ?es = "Arrive sample_rq ''bb'' pair_env # replicate 5 Move @ [Send]"
  have i: "sy_job sample_system = Idle" and n: "\<not> is_paired (sv_allowlist (sy_server sample_system)) ''bb''"
    by (simp_all add: sample_system_def sample_server_def is_paired_def sample_al_def)
  obtain r st where r: "route (su_transport ?S) sample_rq ''bb'' pair_env (sy_server sample_system) = (r, st)" by fastforce
  have "is_paired (sv_allowlist st) ''bb''"
    using sample_pairing r by (simp add: sample_installation_def sample_system_def)
  then have "is_paired (sv_allowlist (sy_server (snd (exec (sys_step ?S) sample_system ?es)))) ''bb''"
    unfolding exec_request [OF i r] by simp
  from joined_only_by_proof [OF sample_system_ok i n this] show ?thesis by (simp add: sample_server_def)
qed

theorem served_only_if_paired_witness:
  "\<exists>es1 es2. [Arrive sample_rq ''aa'' (sample_env ''ping'' JNull), Move, Move, Move] = es1 @ Move # es2 \<and>
     is_paired (sv_allowlist (sy_server (snd (exec (sys_step sample_installation) sample_system es1)))) ''aa''"
proof -
  let ?S = sample_installation and ?env = "sample_env ''ping'' JNull" and ?st = "sample_server 100 :: usize server"
  have e: "env_id ?env = ''nope''" "msg_type ?env = ''ping''" "sy_server sample_system = ?st" "is_paired (sv_allowlist ?st) ''aa''"
    by (simp_all add: sample_env_def sample_system_def sample_server_def is_paired_def sample_al_def)
  obtain rc d rl where m: "job_step (su_transport ?S) (Busy Received sample_rq ''aa'' ?env, ?st) =
      (Busy Accepted sample_rq ''aa'' ?env, ?st\<lparr>sv_replay := rc, sv_fs := d\<rparr>)"
      "job_step (su_transport ?S) (Busy Accepted sample_rq ''aa'' ?env, ?st\<lparr>sv_replay := rc, sv_fs := d\<rparr>) =
        (Busy Admitted sample_rq ''aa'' ?env, ?st\<lparr>sv_replay := rc, sv_fs := d, sv_ratelimit := rl\<rparr>)"
    by (rule sample_admitted [OF e(1)])
  have i: "sy_job sample_system = Idle" by (simp add: sample_system_def)
  have t: "sy_job (snd (exec (sys_step ?S) sample_system [Arrive sample_rq ''aa'' ?env, Move, Move, Move])) =
      Busy Trusted sample_rq ''aa'' ?env"
    using i e by (simp add: sys_step.simps m del: job_step.simps(1,2))
  show ?thesis using served_only_if_paired [OF i t] by blast
qed

theorem notified_only_if_paired_witness:
  "\<exists>es1 te1 es2. [Watch sample_te, Watch sample_te] = es1 @ Watch te1 # es2 \<and>
     is_paired (sv_allowlist (sy_server (snd (exec (sys_step sample_installation)
       (sample_system\<lparr>sy_server := (sample_server 100)\<lparr>sv_watch := sample_ws\<lparr>ws_sets := [(''aa'', [''bc1a''])]\<rparr>\<rparr>\<rparr>) es1)))) ''aa''"
proof -
  let ?S = sample_installation
  let ?st = "(sample_server 100)\<lparr>sv_watch := sample_ws\<lparr>ws_sets := [(''aa'', [''bc1a''])]\<rparr>\<rparr>"
  let ?sy = "sample_system\<lparr>sy_server := ?st\<rparr>"
  have i: "sy_round ?sy = Resting" by (simp add: sample_system_def)
  obtain out x known d b n where
    t: "tick_wallet sample_watcher sample_te ''aa'' [''bc1a''] ([(''aa'', [])], sv_fs (sample_server (100 :: usize)), 100) = ((Ret x, out), known, d, b)"
      "n \<in> set out" "nt_wallet n = ''aa''"
    using sample_news [of "sv_fs (sample_server (100 :: usize))"] by blast
  have p: "is_paired (sv_allowlist (sample_server (100 :: usize))) ''aa''" "sv_backend (sample_server (100 :: usize)) = 100"
    by (simp_all add: sample_server_def is_paired_def sample_al_def)
  obtain sy' where s: "sys_step ?S (snd (exec (sys_step ?S) ?sy [Watch sample_te, Watch sample_te])) (Watch sample_te) = (Notes out, sy')"
    using i p t by (simp add: sys_step.simps sample_system_def sample_installation_def ws_snapshot_def Let_def)
  from notified_only_if_paired [OF i s t(2)] t(3) show ?thesis
    by (auto simp: sample_installation_def sample_watcher_def)
qed

theorem executed_at_most_once_witness:
  "sy_job (snd (exec (sys_step sample_installation) sample_system
     (Arrive sample_rq ''bb'' pair_env # replicate 5 Move @ [Send, Arrive sample_rq ''cc'' pair_env, Move]))) = Idle"
proof -
  let ?S = sample_installation and ?st = "sample_server 100 :: usize server"
  let ?es = "replicate 4 Move @ [Send, Arrive sample_rq ''cc'' pair_env]"
  let ?sy = "snd (sys_step ?S sample_system (Arrive sample_rq ''bb'' pair_env))"
  let ?sy1 = "snd (sys_step ?S ?sy Move)" and ?sy2 = "snd (exec (sys_step ?S) (snd (sys_step ?S ?sy Move)) ?es)"
  have i: "sy_job sample_system = Idle" and st: "sy_server sample_system = ?st" and id: "env_id pair_env = ''nope''"
    by (simp_all add: sample_system_def pair_env_def sample_env_def)
  then have sy: "sy_job ?sy = Busy Received sample_rq ''bb'' pair_env" "sy_server ?sy = ?st" by (simp_all add: sys_step.simps)
  have ok: "system_ok ''/data'' ?sy" by (rule sys_step_ok [OF sample_system_ok])
  have acc: "sy_job ?sy1 = Busy Accepted sample_rq ''bb'' pair_env"
    by (rule sample_admitted [OF id, of "su_transport ?S" "''bb''" 100])
      (simp add: sys_step.simps(2) sy del: job_step.simps)
  obtain r st' where r: "route (su_transport ?S) sample_rq ''bb'' pair_env (sy_server sample_system) = (r, st')" by fastforce
  have "msg_type pair_env = ''pair''" by (simp add: pair_env_def sample_env_def)
  then have ret: "r \<noteq> Panic" using r by (auto simp: route_def dispatch_def split: prod.splits bool.splits)
  have all: "Arrive sample_rq ''bb'' pair_env # replicate 5 Move @ [Send] = [Arrive sample_rq ''bb'' pair_env, Move] @ replicate 4 Move @ [Send]"
    by (simp add: eval_nat_numeral)
  have "sy_job (snd (exec (sys_step ?S) ?sy1 (replicate 4 Move @ [Send]))) = Idle"
    using arg_cong [OF exec_request [OF i r], of "\<lambda>p. sy_job (snd p)"] ret
    unfolding all exec_append [of _ _ "[_, _]"] by (simp add: exec_Cons del: exec.simps(2) split: run.splits)
  then have sy2: "sy_job ?sy2 = Busy Received sample_rq ''cc'' pair_env"
    using exec_snoc [of "sys_step ?S" ?sy1 "replicate 4 Move @ [Send]" "Arrive sample_rq ''cc'' pair_env"]
    by (simp add: sys_step.simps(1))
  have w: "list_all (event_in_window (rq_now sample_rq)) ?es" by (simp add: list_all_iff)
  have "sy_job (snd (sys_step ?S ?sy2 Move)) = Idle"
    using executed_at_most_once [OF ok sy(1) refl acc w refl sy2 refl] by auto
  moreover have "Arrive sample_rq ''bb'' pair_env # replicate 5 Move @ [Send, Arrive sample_rq ''cc'' pair_env, Move]
      = ([Arrive sample_rq ''bb'' pair_env, Move] @ ?es) @ [Move]" by (simp add: eval_nat_numeral)
  ultimately show ?thesis by (simp only: exec_snoc exec_append snd_conv exec_Cons exec.simps(1))
qed

theorem identity_survives_restarts_witness:
  "\<exists>S sy. boot sample_libs Map.empty id_fine io_fine True 7 (Map.empty, Map.empty) = Inr (S, sy) \<and>
     (\<exists>S2 sy2. boot sample_libs Map.empty id_fine io_fine False 9 (Map.empty, sv_fs (sy_server sy)) = Inr (S2, sy2) \<and>
        ap_server_pubkey (su_app S2) = ''a1a1'')"
proof -
  obtain S sy where b: "boot sample_libs Map.empty id_fine io_fine True 7 (Map.empty, Map.empty) = Inr (S, sy)"
      "ap_server_pubkey (su_app S) = ''a1a1''"
    "\<exists>S2 sy2. boot sample_libs Map.empty id_fine io_fine False 9 (Map.empty, sv_fs (sy_server sy)) = Inr (S2, sy2)"
    by (rule sample_boot)
  from b(3) obtain S2 sy2 where
    b2: "boot sample_libs Map.empty id_fine io_fine False 9 (Map.empty, sv_fs (sy_server (snd (exec (sys_step S) sy [])))) = Inr (S2, sy2)"
    by auto
  have k: "key_lib_ok (lb_keys sample_libs)" by (simp add: sample_libs_def sample_keys_ok)
  from identity_survives_restarts [OF b(1) k b2] b b2 show ?thesis by auto
qed

end
